(* ===== verification/Prelude.thy ===== *)
theory Prelude
  imports Main "HOL-Library.Word" "HOL-Library.Monad_Syntax"
begin

unbundle bit_operations_syntax

text \<open>
  Shared vocabulary of the development: the C types the native programs compute with, reads and
  writes of C arrays that fail out of bounds, and the facts about lists and words that the
  component theories use.

  A C array or buffer is a list of bytes. A read or write outside of it is undefined behaviour
  in C, so it is \<open>None\<close> here: a theorem that an operation returns \<open>Some\<close> is a theorem that it is
  memory safe. Sizes and indices are natural numbers; where the wrap-around of a 64-bit
  \<open>size_t\<close> matters it is written out.
\<close>

type_synonym byte = "8 word"
type_synonym u16 = "16 word"
type_synonym u32 = "32 word"
type_synonym u64 = "64 word"

named_theorems mem_simps \<open>reads and writes of C arrays\<close>
named_theorems cchar_simps \<open>C character classes\<close>

subsection \<open>Arrays\<close>

definition rd :: "'a list \<Rightarrow> nat \<Rightarrow> 'a option" where
  "rd xs i = (if i < length xs then Some (xs ! i) else None)"

definition wr :: "'a list \<Rightarrow> nat \<Rightarrow> 'a \<Rightarrow> 'a list option" where
  "wr xs i v = (if i < length xs then Some (xs[i := v]) else None)"

lemma rd_Some [mem_simps, simp]: "i < length xs \<Longrightarrow> rd xs i = Some (xs ! i)"
  by (simp add: rd_def)

lemma rd_None [mem_simps, simp]: "length xs \<le> i \<Longrightarrow> rd xs i = None"
  by (simp add: rd_def)

lemma wr_Some [mem_simps, simp]: "i < length xs \<Longrightarrow> wr xs i v = Some (xs[i := v])"
  by (simp add: wr_def)

lemma wr_None [mem_simps, simp]: "length xs \<le> i \<Longrightarrow> wr xs i v = None"
  by (simp add: wr_def)

lemma rd_eq_Some_iff [mem_simps]: "rd xs i = Some v \<longleftrightarrow> i < length xs \<and> v = xs ! i"
  by (auto simp: rd_def)

lemma wr_eq_Some_iff [mem_simps]: "wr xs i v = Some ys \<longleftrightarrow> i < length xs \<and> ys = xs[i := v]"
  by (auto simp: wr_def)

text \<open>\<open>memcpy\<close> or \<open>memmove\<close> of the bytes \<open>vs\<close> to offset \<open>i\<close> of an array.\<close>

definition wr_bytes :: "'a list \<Rightarrow> nat \<Rightarrow> 'a list \<Rightarrow> 'a list option" where
  "wr_bytes xs i vs = (if i + length vs \<le> length xs
     then Some (take i xs @ vs @ drop (i + length vs) xs) else None)"

text \<open>The \<open>n\<close> bytes at offset \<open>i\<close>.\<close>

definition rd_bytes :: "'a list \<Rightarrow> nat \<Rightarrow> nat \<Rightarrow> 'a list option" where
  "rd_bytes xs i n = (if i + n \<le> length xs then Some (take n (drop i xs)) else None)"

lemma wr_bytes_Some [mem_simps, simp]:
  "i + length vs \<le> length xs \<Longrightarrow> wr_bytes xs i vs = Some (take i xs @ vs @ drop (i + length vs) xs)"
  by (simp add: wr_bytes_def)

lemma wr_bytes_length: "wr_bytes xs i vs = Some ys \<Longrightarrow> length ys = length xs"
  by (auto simp: wr_bytes_def split: if_splits)

lemma rd_bytes_Some [mem_simps, simp]:
  "i + n \<le> length xs \<Longrightarrow> rd_bytes xs i n = Some (take n (drop i xs))"
  by (simp add: rd_bytes_def)

lemma rd_bytes_length: "rd_bytes xs i n = Some ys \<Longrightarrow> length ys = n"
  by (auto simp: rd_bytes_def split: if_splits)

subsection \<open>Lists\<close>

lemma list_update_append_hd: "i = length xs \<Longrightarrow> (xs @ y # ys)[i := v] = xs @ v # ys"
  by simp

lemma drop_eq_Cons: "i < length xs \<Longrightarrow> drop i xs = xs ! i # drop (Suc i) xs"
  by (simp add: Cons_nth_drop_Suc)

lemma take_Suc_snoc: "i < length xs \<Longrightarrow> take (Suc i) xs = take i xs @ [xs ! i]"
  by (simp add: take_Suc_conv_app_nth)

text \<open>The bytes \<open>bs\<close> stand at offset \<open>p\<close> of an array.\<close>

definition bytes_at :: "'a list \<Rightarrow> nat \<Rightarrow> 'a list \<Rightarrow> bool" where
  "bytes_at pk p bs \<longleftrightarrow> p + length bs \<le> length pk \<and> take (length bs) (drop p pk) = bs"

lemma bytes_at_Cons: "bytes_at pk p (b # bs) \<longleftrightarrow> p < length pk \<and> pk ! p = b \<and> bytes_at pk (p + 1) bs"
  by (cases "p < length pk") (auto simp: bytes_at_def drop_eq_Cons)

lemma bytes_at_append: "bytes_at pk p (xs @ ys) \<longleftrightarrow> bytes_at pk p xs \<and> bytes_at pk (p + length xs) ys"
  by (induction xs arbitrary: p) (auto simp: bytes_at_Cons, auto simp: bytes_at_def)

lemma bytes_at_Nil [simp]: "bytes_at pk p [] \<longleftrightarrow> p \<le> length pk"
  by (simp add: bytes_at_def)

lemma bytes_at_here: "bytes_at (pre @ bs @ post) (length pre) bs"
  by (simp add: bytes_at_def)

subsection \<open>C characters\<close>

text \<open>
  The value of a \<open>char\<close> read as an \<open>int\<close>: \<open>char\<close> is signed on the x86 ABIs of Android and
  unsigned on the ARM ones. Where the code's result depends on it, the model takes the
  signedness as a parameter \<open>sg\<close>.
\<close>

definition cint :: "bool \<Rightarrow> byte \<Rightarrow> int" where
  "cint sg b = (if sg then sint b else uint b)"

lemma cint_inject [simp]: "cint sg a = cint sg b \<longleftrightarrow> a = b"
  by (auto simp: cint_def signed_word_eqI word_uint_eqI)

lemma sint_small: "uint c < 128 \<Longrightarrow> sint (c :: byte) = uint c"
proof -
  assume "uint c < 128"
  then have "take_bit 7 (uint c) = uint c" by (simp add: take_bit_int_eq_self)
  moreover have "\<not> bit (uint c) 7"
    using \<open>take_bit 7 (uint c) = uint c\<close> by (metis bit_take_bit_iff less_irrefl)
  ultimately show ?thesis by (simp add: sint_uint signed_take_bit_def)
qed

lemma cint_small: "unat c < 128 \<Longrightarrow> cint sg c = int (unat c)"
proof -
  assume "unat c < 128"
  then have "int (unat c) < int 128" by (simp only: of_nat_less_iff)
  then have "uint c < 128" by simp
  then show ?thesis by (simp add: cint_def sint_small)
qed

text \<open>The byte of an ASCII character, so that literals read as in the source.\<close>

definition chr :: "char \<Rightarrow> byte" where
  "chr c = of_char c"

definition cstr :: "string \<Rightarrow> byte list" where
  "cstr s = map of_char s"

lemma cstr_Nil [simp]: "cstr [] = []"
  by (simp add: cstr_def)

lemma cstr_Cons [simp]: "cstr (c # s) = of_char c # cstr s"
  by (simp add: cstr_def)

lemma cstr_append [simp]: "cstr (s @ t) = cstr s @ cstr t"
  by (simp add: cstr_def)

lemma length_cstr [simp]: "length (cstr s) = length s"
  by (simp add: cstr_def)

definition is_upper :: "byte \<Rightarrow> bool" where
  "is_upper c \<longleftrightarrow> 0x41 \<le> c \<and> c \<le> 0x5A"

definition is_lower :: "byte \<Rightarrow> bool" where
  "is_lower c \<longleftrightarrow> 0x61 \<le> c \<and> c \<le> 0x7A"

definition is_digit :: "byte \<Rightarrow> bool" where
  "is_digit c \<longleftrightarrow> 0x30 \<le> c \<and> c \<le> 0x39"

declare is_upper_def [cchar_simps] is_lower_def [cchar_simps] is_digit_def [cchar_simps]

subsection \<open>Exhaustive checks over small ranges\<close>

text \<open>A fact about every number below a numeral bound is checked one number at a time.\<close>

lemma byte_induct_nat: "(\<And>k::nat. k < 256 \<Longrightarrow> P (of_nat k)) \<Longrightarrow> P (b :: byte)"
proof -
  assume h: "\<And>k::nat. k < 256 \<Longrightarrow> P (of_nat k)"
  have "unat b < 256" using unsigned_less [of b] by simp
  from h [OF this] show "P b" by simp
qed

lemma all_below: "list_all P [0..<n] \<Longrightarrow> (k::nat) < n \<Longrightarrow> P k"
  by (simp add: list_all_iff)

lemma less_8_cases: "(\<forall>n<8::nat. P n) \<longleftrightarrow> P 0 \<and> P 1 \<and> P 2 \<and> P 3 \<and> P 4 \<and> P 5 \<and> P 6 \<and> P 7"
proof -
  have "(\<forall>n<8::nat. P n) \<longleftrightarrow> list_all P [0..<8]" by (auto simp: list_all_iff)
  also have "\<dots> \<longleftrightarrow> P 0 \<and> P 1 \<and> P 2 \<and> P 3 \<and> P 4 \<and> P 5 \<and> P 6 \<and> P 7"
    by (simp add: upt_rec eval_nat_numeral)
  finally show ?thesis .
qed

lemma byte_eq_bits: "(x :: byte) = y \<longleftrightarrow> (bit x 0 = bit y 0) \<and> (bit x 1 = bit y 1) \<and> (bit x 2 = bit y 2) \<and>
   (bit x 3 = bit y 3) \<and> (bit x 4 = bit y 4) \<and> (bit x 5 = bit y 5) \<and> (bit x 6 = bit y 6) \<and> (bit x 7 = bit y 7)"
proof -
  have "x = y \<longleftrightarrow> (\<forall>n<8. bit x n = bit y n)"
    by (auto intro: bit_word_eqI)
  then show ?thesis by (simp only: less_8_cases)
qed

lemma byte_bit_high [simp]: "8 \<le> n \<Longrightarrow> \<not> bit (x :: byte) n"
  by (auto dest: bit_imp_le_length)

lemma drop_numeral_add [simp]: "drop (numeral v + n) (x # xs) = drop (pred_numeral v + n) xs"
  by (simp add: numeral_eq_Suc)

lemma length_ge_4E:
  assumes "4 \<le> length xs" and "\<And>a b c d r. xs = a # b # c # d # r \<Longrightarrow> P"
  shows P
proof -
  have ne: "xs \<noteq> []" using assms(1) by auto
  have "drop 0 xs = xs ! 0 # drop 1 xs" "drop 1 xs = xs ! 1 # drop 2 xs"
    "drop 2 xs = xs ! 2 # drop 3 xs" "drop 3 xs = xs ! 3 # drop 4 xs"
    using assms(1) drop_eq_Cons [of 0 xs] drop_eq_Cons [of 1 xs] drop_eq_Cons [of 2 xs]
      drop_eq_Cons [of 3 xs] ne by (simp_all add: numeral_eq_Suc)
  then show P using assms(2) by (metis drop_0)
qed

text \<open>Writing consecutive cells, as the encoders and decoders do.\<close>

lemma upd1: "i < length xs \<Longrightarrow> xs[i := a] = take i xs @ a # drop (Suc i) xs"
  by (rule upd_conv_take_nth_drop)

lemma upd2: "Suc i < length xs \<Longrightarrow>
    xs[i := a, Suc i := b] = take i xs @ a # b # drop (Suc (Suc i)) xs"
  by (simp add: upd_conv_take_nth_drop take_Suc_conv_app_nth list_update_append
      flip: Cons_nth_drop_Suc)

lemma upd3: "Suc (Suc i) < length xs \<Longrightarrow>
    xs[i := a, Suc i := b, Suc (Suc i) := c] = take i xs @ a # b # c # drop (Suc (Suc (Suc i))) xs"
  by (simp add: upd_conv_take_nth_drop take_Suc_conv_app_nth nth_append list_update_append
      flip: Cons_nth_drop_Suc)

lemma upd4: "Suc (Suc (Suc i)) < length xs \<Longrightarrow>
    xs[i := a, Suc i := b, Suc (Suc i) := c, Suc (Suc (Suc i)) := d] =
    take i xs @ a # b # c # d # drop (Suc (Suc (Suc (Suc i)))) xs"
  by (simp add: upd_conv_take_nth_drop take_Suc_conv_app_nth nth_append list_update_append
      flip: Cons_nth_drop_Suc)

lemma upd5: "Suc (Suc (Suc (Suc i))) < length xs \<Longrightarrow>
    xs[i := a, Suc i := b, Suc (Suc i) := c, Suc (Suc (Suc i)) := d, Suc (Suc (Suc (Suc i))) := e] =
    take i xs @ a # b # c # d # e # drop (Suc (Suc (Suc (Suc (Suc i))))) xs"
  by (simp add: upd_conv_take_nth_drop take_Suc_conv_app_nth nth_append list_update_append
      flip: Cons_nth_drop_Suc)

subsection \<open>Codecs\<close>

text \<open>
  The contract that an encoder and a decoder share: decoding what was encoded gives the value
  back, for the values in the codec's domain. The base64, URL and address codecs and the
  link-type tables provide it.
\<close>

locale codec =
  fixes enc :: "'a \<Rightarrow> 'b" and dec :: "'b \<Rightarrow> 'a option" and dm :: "'a \<Rightarrow> bool"
  assumes dec_enc: "dm x \<Longrightarrow> dec (enc x) = Some x"
begin

lemma enc_inj: "dm x \<Longrightarrow> dm y \<Longrightarrow> enc x = enc y \<Longrightarrow> x = y"
  by (metis dec_enc option.inject)

lemma enc_inj_on: "inj_on enc {x. dm x}"
  by (rule inj_onI) (auto intro: enc_inj)

lemma dec_range: "dm x \<Longrightarrow> x \<in> ran dec"
  using dec_enc by (auto simp: ran_def)

end

end
