(* ===== verification/Mg_Base64.thy ===== *)
theory Mg_Base64
  imports Prelude
begin

text \<open>
  The base64 codec of \<^verbatim>\<open>src/base64.c\<close> (bundled in \<open>mongoose.c\<close>): the streaming encoder that
  keeps its partial sextet in the output buffer, the decoder, and the printf helper \<open>bcpy\<close>.
  The reference encoding \<open>b64\<close> works on lists; the encoder is shown to write exactly it, and the
  decoder to invert it.
\<close>

definition mg_base64_encode_single :: "int \<Rightarrow> int" where
  "mg_base64_encode_single c =
     (if c < 26 then c + 65
      else if c < 52 then c - 26 + 97
      else if c < 62 then c - 52 + 48
      else if c = 62 then 43 else 47)"

definition mg_base64_decode_single :: "int \<Rightarrow> int" where
  "mg_base64_decode_single c =
     (if 65 \<le> c \<and> c \<le> 90 then c - 65
      else if 97 \<le> c \<and> c \<le> 122 then c + 26 - 97
      else if 48 \<le> c \<and> c \<le> 57 then c + 52 - 48
      else if c = 43 then 62
      else if c = 47 then 63
      else if c = 61 then 64
      else -1)"

text \<open>
  \<open>to[n]\<close> holds the pending bits between calls. It is below 64 there (\<open>b64_pending_small\<close>), so
  the signedness of \<open>char\<close> does not matter and it is read unsigned.
\<close>

definition mg_base64_update :: "byte \<Rightarrow> byte list \<Rightarrow> nat \<Rightarrow> (byte list \<times> nat) option" where
  "mg_base64_update ch to n =
     (let rem = (n mod 4) mod 3 in
      if rem = 0 then do {
        to \<leftarrow> wr to n (word_of_int (mg_base64_encode_single (uint (drop_bit 2 ch))));
        to \<leftarrow> wr to (n + 1) (push_bit 4 (ch AND 3));
        Some (to, n + 1) }
      else if rem = 1 then do {
        p \<leftarrow> rd to n;
        to \<leftarrow> wr to n (word_of_int (mg_base64_encode_single (uint (p OR drop_bit 4 ch))));
        to \<leftarrow> wr to (n + 1) (push_bit 2 (ch AND 15));
        Some (to, n + 1) }
      else do {
        p \<leftarrow> rd to n;
        to \<leftarrow> wr to n (word_of_int (mg_base64_encode_single (uint (p OR drop_bit 6 ch))));
        to \<leftarrow> wr to (n + 1) (word_of_int (mg_base64_encode_single (uint (ch AND 63))));
        Some (to, n + 2) })"

text \<open>The loop \<open>while (n & 3) to[n++] = '='\<close>.\<close>

function b64_pad :: "byte list \<Rightarrow> nat \<Rightarrow> (byte list \<times> nat) option" where
  "b64_pad to n = (if n mod 4 = 0 then Some (to, n)
     else do { to \<leftarrow> wr to n 0x3D; b64_pad to (n + 1) })"
  by pat_completeness auto
termination
  by (relation "measure (\<lambda>(to, n). (4 - n mod 4) mod 4)") (auto simp: mod_Suc)

declare b64_pad.simps [simp del]

definition mg_base64_final :: "byte list \<Rightarrow> nat \<Rightarrow> (byte list \<times> nat) option" where
  "mg_base64_final to n = do {
     (to', n') \<leftarrow> (if n mod 4 \<noteq> 0 then mg_base64_update 0 to n else Some (to, n));
     let n'' = (if n mod 4 = 2 then n' - 1 else n');
     (to', n') \<leftarrow> b64_pad to' n'';
     to' \<leftarrow> wr to' n' 0;
     Some (to', n') }"

text \<open>The encoder's loop, and the encoder. \<open>dl\<close> is the declared size of \<open>to\<close>.\<close>

fun b64_loop :: "byte list \<Rightarrow> byte list \<Rightarrow> nat \<Rightarrow> (byte list \<times> nat) option" where
  "b64_loop [] to n = Some (to, n)"
| "b64_loop (ch # p) to n = do { (to, n) \<leftarrow> mg_base64_update ch to n; b64_loop p to n }"

definition mg_base64_encode :: "byte list \<Rightarrow> byte list \<Rightarrow> nat \<Rightarrow> (byte list \<times> nat) option" where
  "mg_base64_encode p to dl = do {
     to \<leftarrow> (if dl > 0 then wr to 0 0 else Some to);
     if dl < ((length p div 3) + (if length p mod 3 \<noteq> 0 then 1 else 0)) * 4 + 1
     then Some (to, 0)
     else do {
       (to, len) \<leftarrow> b64_loop p to 0;
       mg_base64_final to len } }"

text \<open>
  The decoder. The loop consumes four source characters at a time while four are left
  (\<open>src + 3 < end\<close>), and fails as a whole on a character outside of the alphabet or padding in
  the first two places. A failed decode stores a NUL at \<open>dst[0]\<close> and returns 0.
\<close>

definition b64_dec1 :: "byte \<Rightarrow> int" where
  "b64_dec1 x = mg_base64_decode_single (uint x)"

definition b64_fail :: "byte list \<Rightarrow> nat \<Rightarrow> (byte list \<times> nat) option" where
  "b64_fail dst dl = do { dst \<leftarrow> (if dl > 0 then wr dst 0 0 else Some dst); Some (dst, 0) }"

definition b64_dec_put :: "byte \<Rightarrow> byte \<Rightarrow> byte \<Rightarrow> byte \<Rightarrow> byte list \<Rightarrow> nat \<Rightarrow> (byte list \<times> nat) option" where
  "b64_dec_put s0 s1 s2 s3 dst len =
     (let a = b64_dec1 s0; b = b64_dec1 s1; c = b64_dec1 s2; d = b64_dec1 s3 in do {
        dst \<leftarrow> wr dst len (word_of_int (push_bit 2 a OR drop_bit 4 b));
        if s2 \<noteq> 0x3D then do {
          dst \<leftarrow> wr dst (len + 1) (word_of_int (push_bit 4 b OR drop_bit 2 c));
          if s3 \<noteq> 0x3D then do {
            dst \<leftarrow> wr dst (len + 2) (word_of_int (push_bit 6 c OR d));
            Some (dst, len + 3) }
          else Some (dst, len + 2) }
        else Some (dst, len + 1) })"

definition b64_bad :: "byte \<Rightarrow> byte \<Rightarrow> byte \<Rightarrow> byte \<Rightarrow> bool" where
  "b64_bad s0 s1 s2 s3 \<longleftrightarrow>
     (let a = b64_dec1 s0; b = b64_dec1 s1; c = b64_dec1 s2; d = b64_dec1 s3 in
      a = 64 \<or> a < 0 \<or> b = 64 \<or> b < 0 \<or> c < 0 \<or> d < 0)"

fun b64_dec_loop :: "byte list \<Rightarrow> byte list \<Rightarrow> nat \<Rightarrow> nat \<Rightarrow> (byte list \<times> nat) option" where
  "b64_dec_loop (s0 # s1 # s2 # s3 # src) dst dl len =
     (if b64_bad s0 s1 s2 s3 then b64_fail dst dl
      else do {
        (dst, len) \<leftarrow> b64_dec_put s0 s1 s2 s3 dst len;
        b64_dec_loop src dst dl len })"
| "b64_dec_loop src dst dl len = do { dst \<leftarrow> wr dst len 0; Some (dst, len) }"

definition mg_base64_decode :: "byte list \<Rightarrow> byte list \<Rightarrow> nat \<Rightarrow> (byte list \<times> nat) option" where
  "mg_base64_decode src dst dl =
     (if dl < length src div 4 * 3 + 1 then b64_fail dst dl
      else b64_dec_loop src dst dl 0)"

text \<open>
  The second encoder of the program, \<open>bcpy\<close> in \<^verbatim>\<open>src/printf.c\<close>, looks the sextets up in a
  64-character table. The stop \<open>tmp[j] != '\0'\<close> of its inner loop never fires.
\<close>

definition b64_table :: "byte list" where
  "b64_table = cstr ''ABCDEFGHIJKLMNOPQRSTUVWXYZabcdefghijklmnopqrstuvwxyz0123456789+/''"

definition b64_tab :: "byte \<Rightarrow> byte" where
  "b64_tab x = b64_table ! unat x"

definition bcpy_quad :: "byte \<Rightarrow> byte option \<Rightarrow> byte option \<Rightarrow> byte list" where
  "bcpy_quad c1 o2 o3 =
     (let c2 = case_option 0 id o2; c3 = case_option 0 id o3 in
      takeWhile (\<lambda>t. t \<noteq> 0)
       [b64_tab (drop_bit 2 c1),
        b64_tab (push_bit 4 (c1 AND 3) OR drop_bit 4 c2),
        if o2 \<noteq> None then b64_tab (push_bit 2 (c2 AND 15) OR drop_bit 6 c3) else 0x3D,
        if o3 \<noteq> None then b64_tab (c3 AND 63) else 0x3D])"

fun bcpy :: "byte list \<Rightarrow> byte list" where
  "bcpy [] = []"
| "bcpy [c1] = bcpy_quad c1 None None"
| "bcpy [c1, c2] = bcpy_quad c1 (Some c2) None"
| "bcpy (c1 # c2 # c3 # buf) = bcpy_quad c1 (Some c2) (Some c3) @ bcpy buf"

subsection \<open>The reference encoding\<close>

definition sx :: "byte \<Rightarrow> byte" where
  "sx x = word_of_int (mg_base64_encode_single (uint x))"

text \<open>The four sextets of three bytes.\<close>

definition sext0 :: "byte \<Rightarrow> byte" where "sext0 a = drop_bit 2 a"
definition sext1 :: "byte \<Rightarrow> byte \<Rightarrow> byte" where "sext1 a b = push_bit 4 (a AND 3) OR drop_bit 4 b"
definition sext2 :: "byte \<Rightarrow> byte \<Rightarrow> byte" where "sext2 b c = push_bit 2 (b AND 15) OR drop_bit 6 c"
definition sext3 :: "byte \<Rightarrow> byte" where "sext3 c = c AND 63"

fun b64 :: "byte list \<Rightarrow> byte list" where
  "b64 [] = []"
| "b64 [a] = [sx (sext0 a), sx (sext1 a 0), 0x3D, 0x3D]"
| "b64 [a, b] = [sx (sext0 a), sx (sext1 a b), sx (sext2 b 0), 0x3D]"
| "b64 (a # b # c # p) =
     sx (sext0 a) # sx (sext1 a b) # sx (sext2 b c) # sx (sext3 c) # b64 p"

lemma add3_div_mod: "(3 + n) div 3 = Suc (n div 3)" "(3 + n) mod 3 = n mod (3::nat)"
  by presburger+

lemma length_b64: "length (b64 p) = (length p div 3 + (if length p mod 3 \<noteq> 0 then 1 else 0)) * 4"
  by (induction p rule: b64.induct) (simp_all add: add3_div_mod)

lemma encode_single_range: "0 \<le> c \<Longrightarrow> c < 64 \<Longrightarrow> 43 \<le> mg_base64_encode_single c \<and> mg_base64_encode_single c \<le> 122"
  by (auto simp: mg_base64_encode_single_def)

lemma decode_encode_single: "0 \<le> c \<Longrightarrow> c < 64 \<Longrightarrow> mg_base64_decode_single (mg_base64_encode_single c) = c"
  by (auto simp: mg_base64_encode_single_def mg_base64_decode_single_def)

lemma uint_sx: "x < 64 \<Longrightarrow> uint (sx x) = mg_base64_encode_single (uint x)"
proof -
  assume "x < 64"
  then have "uint x < 64" by (simp add: word_less_def)
  then have "43 \<le> mg_base64_encode_single (uint x) \<and> mg_base64_encode_single (uint x) \<le> 122"
    by (intro encode_single_range) auto
  then show ?thesis by (simp add: sx_def uint_word_of_int)
qed

lemma dec1_sx: "x < 64 \<Longrightarrow> b64_dec1 (sx x) = uint x"
  by (simp add: b64_dec1_def uint_sx decode_encode_single word_less_def)

lemma less_64_bits:
  assumes "\<not> bit x 6" "\<not> bit x 7" shows "(x :: byte) < 64"
proof -
  have "x = take_bit 6 x" using assms by (simp add: byte_eq_bits bit_take_bit_iff)
  then have "uint x = take_bit 6 (uint x)" by (metis unsigned_take_bit_eq)
  then have "uint x < 2 ^ 6" by (metis take_bit_int_less_exp)
  then show ?thesis by (simp add: word_less_def)
qed
lemma sextet_small: "sext0 a < 64" "sext1 a b < 64" "sext2 b c < 64" "sext3 c < 64"
  by (rule less_64_bits; simp add: bit_simps sext0_def sext1_def sext2_def sext3_def)+

lemma dec_combine:
  fixes x y :: byte
  shows "(word_of_int (push_bit k (uint x) OR drop_bit m (uint y)) :: byte) = push_bit k x OR drop_bit m y"
    "(word_of_int (push_bit k (uint x) OR uint y) :: byte) = push_bit k x OR y"
  by (rule bit_word_eqI; auto simp: bit_simps bit_uint_iff)+

lemma recombine:
  "push_bit 2 (sext0 a) OR drop_bit 4 (sext1 a b) = a"
  "push_bit 4 (sext1 a b) OR drop_bit 2 (sext2 b c) = b"
  "push_bit 6 (sext2 b c) OR sext3 c = c"
  by (simp add: byte_eq_bits bit_simps sext0_def sext1_def sext2_def sext3_def)+

lemma encode_single_not_pad: "0 \<le> c \<Longrightarrow> c < 64 \<Longrightarrow> mg_base64_encode_single c \<noteq> 61"
  by (auto simp: mg_base64_encode_single_def)

lemma sx_not_pad: "x < 64 \<Longrightarrow> sx x \<noteq> 0x3D"
proof
  assume "x < 64" and "sx x = 0x3D"
  then have "mg_base64_encode_single (uint x) = uint (0x3D :: byte)" using uint_sx by metis
  then show False using encode_single_not_pad [of "uint x"] \<open>x < 64\<close> by (simp add: word_less_def)
qed

lemma uint_less_64: "x < (64 :: byte) \<Longrightarrow> uint x < 64"
  by (simp add: word_less_def)

lemma uint_dec1: "x < 64 \<Longrightarrow> b64_dec1 (sx x) \<noteq> 64" "x < 64 \<Longrightarrow> \<not> b64_dec1 (sx x) < 0"
  using uint_less_64 [of x] by (simp_all add: dec1_sx)

lemmas sextets = sextet_small [THEN dec1_sx] sextet_small [THEN sx_not_pad]
  sextet_small [THEN uint_dec1(1), unfolded sextet_small [THEN dec1_sx]] recombine dec_combine

subsection \<open>The decoder inverts the reference encoding\<close>

lemma dec1_pad: "b64_dec1 0x3D = 64"
  by (simp add: b64_dec1_def mg_base64_decode_single_def)

lemma b64_dec_loop_b64:
  "len + length p < length dst \<Longrightarrow>
     b64_dec_loop (b64 p) dst dl len = Some (take len dst @ p @ [0] @ drop (len + length p + 1) dst, len + length p)"
proof (induction p arbitrary: dst len rule: b64.induct)
  case 1
  then show ?case by (simp add: upd_conv_take_nth_drop)
next
  case (2 a)
  then show ?case by (simp add: sextets dec1_pad Let_def b64_dec_put_def b64_bad_def upd2)
next
  case (3 a b)
  then show ?case by (simp add: sextets dec1_pad Let_def b64_dec_put_def b64_bad_def upd3)
next
  case (4 a b c p)
  then show ?case
    by (simp add: sextets dec1_pad Let_def b64_dec_put_def b64_bad_def upd3 add.commute [of len])
qed

subsection \<open>The encoder writes the reference encoding\<close>

lemma b64_update0: "n mod 4 = 0 \<Longrightarrow> n + 1 < length to \<Longrightarrow>
   mg_base64_update a to n = Some (to[n := sx (sext0 a), Suc n := push_bit 4 (a AND 3)], Suc n)"
  by (simp add: mg_base64_update_def sx_def sext0_def)

lemma b64_update1: "n mod 4 = 1 \<Longrightarrow> n + 1 < length to \<Longrightarrow> to ! n = push_bit 4 (a AND 3) \<Longrightarrow>
   mg_base64_update b to n = Some (to[n := sx (sext1 a b), Suc n := push_bit 2 (b AND 15)], Suc n)"
  by (simp add: mg_base64_update_def sx_def sext1_def)

lemma b64_update2: "n mod 4 = 2 \<Longrightarrow> n + 1 < length to \<Longrightarrow> to ! n = push_bit 2 (b AND 15) \<Longrightarrow>
   mg_base64_update c to n = Some (to[n := sx (sext2 b c), Suc n := sx (sext3 c)], Suc (Suc n))"
  by (simp add: mg_base64_update_def sx_def sext2_def sext3_def)


lemma mod4_Suc: "n mod 4 = 0 \<Longrightarrow> Suc n mod 4 = (1::nat)" "n mod 4 = 0 \<Longrightarrow> Suc (Suc n) mod 4 = (2::nat)"
  "n mod 4 = 0 \<Longrightarrow> Suc (Suc (Suc n)) mod 4 = (3::nat)" "n mod 4 = 0 \<Longrightarrow> Suc (Suc (Suc (Suc n))) mod 4 = (0::nat)"
  "n mod 4 = 0 \<Longrightarrow> (3 + n) mod 4 = (3::nat)" "n mod 4 = 0 \<Longrightarrow> (4 + n) mod 4 = (0::nat)"
  by presburger+

lemma b64_pad_steps: "n mod 4 = 0 \<Longrightarrow> b64_pad to n = Some (to, n)"
  "n mod 4 = 3 \<Longrightarrow> n < length to \<Longrightarrow> b64_pad to n = Some (to[n := 0x3D], Suc n)"
  "n mod 4 = 2 \<Longrightarrow> Suc n < length to \<Longrightarrow> b64_pad to n = Some (to[n := 0x3D, Suc n := 0x3D], Suc (Suc n))"
  by (simp_all add: b64_pad.simps mod_Suc)

lemma b64_encode_from:
  "n mod 4 = 0 \<Longrightarrow> n + length (b64 p) < length to \<Longrightarrow>
     b64_loop p to n \<bind> (\<lambda>(to, len). mg_base64_final to len) =
       Some (take n to @ b64 p @ [0] @ drop (n + length (b64 p) + 1) to, n + length (b64 p))"
proof (induction p arbitrary: to n rule: b64.induct)
  case 1
  then show ?case by (simp add: mg_base64_final_def b64_pad_steps upd1)
next
  case (2 a)
  then show ?case
    by (simp add: b64_update0 mg_base64_final_def mod4_Suc b64_update1 b64_pad_steps upd5)
next
  case (3 a b)
  then show ?case
    by (simp add: b64_update0 mg_base64_final_def mod4_Suc b64_update1 b64_update2 b64_pad_steps upd5)
next
  case (4 a b c p)
  then show ?case
    by (simp add: b64_update0 mg_base64_final_def mod4_Suc b64_update1 b64_update2 b64_pad_steps upd4 add.commute [of n])
qed


lemma mg_base64_encode_correct_aux:
  assumes "length (b64 p) < dl" "dl \<le> length to"
  shows "mg_base64_encode p to dl =
    Some (b64 p @ [0] @ drop (length (b64 p) + 1) to, length (b64 p))"
proof -
  have to: "0 < length to" and dl: "dl > 0" using assms by auto
  have "length (b64 p) + 1 \<le> dl" using assms by simp
  then have "\<not> dl < (length p div 3 + (if length p mod 3 \<noteq> 0 then 1 else 0)) * 4 + 1"
    by (simp add: length_b64)
  moreover have "length (b64 p) < length (to[0 := 0])" using assms by simp
  ultimately show ?thesis using b64_encode_from [of 0 p "to[0 := 0]"] to dl
    by (simp add: mg_base64_encode_def)
qed

text \<open>
  The base64 encoder, given a buffer with room for the encoding and its NUL, writes exactly
  the RFC 4648 encoding of the input at the front of the buffer, then a NUL, leaves the rest of
  the buffer alone and returns the encoded length; no access is out of bounds.
\<close>

lemma mg_base64_encode_correct:
  assumes "length (b64 p) < dl" "dl \<le> length to"
  shows "mg_base64_encode p to dl =
    Some (b64 p @ [0] @ drop (length (b64 p) + 1) to, length (b64 p))"
  using assms by (rule mg_base64_encode_correct_aux)

lemma b64_hi: "b64 (cstr ''hi'') = cstr ''aGk=''"
  by code_simp

lemma mg_base64_encode_correct_example:
  "mg_base64_encode (cstr ''hi'') [1, 1, 1, 1, 1, 1] 5 = Some (cstr ''aGk='' @ [0, 1], 4)"
  using mg_base64_encode_correct [of "cstr ''hi''" 5 "[1, 1, 1, 1, 1, 1]", unfolded b64_hi] by simp

lemma mg_base64_encode_too_small:
  assumes "dl \<le> length (b64 p)" "dl \<le> length to"
  shows "mg_base64_encode p to dl = Some (if dl > 0 then to[0 := 0] else to, 0)"
  using assms by (auto simp: mg_base64_encode_def length_b64 wr_def)

lemma b64_tab_eq: "x < 64 \<Longrightarrow> b64_tab x = sx x"
proof -
  assume "x < 64"
  then have "unat x < 64" by (simp add: word_less_nat_alt)
  moreover have "list_all (\<lambda>k. b64_table ! k = sx (of_nat k)) [0..<64]" by code_simp
  ultimately have "b64_table ! unat x = sx (of_nat (unat x))"
    using all_below [of "\<lambda>k. b64_table ! k = sx (of_nat k)" 64 "unat x"] by blast
  then show ?thesis by (simp add: b64_tab_def)
qed

lemma sx_nonzero: "x < 64 \<Longrightarrow> sx x \<noteq> 0"
  using uint_sx [of x] encode_single_range [of "uint x"] by (auto simp: word_less_def)

lemmas tabs = sextet_small [THEN b64_tab_eq] sextet_small [THEN sx_nonzero]

lemma bcpy_quads:
  "bcpy_quad a None None = [sx (sext0 a), sx (sext1 a 0), 0x3D, 0x3D]"
  "bcpy_quad a (Some b) None = [sx (sext0 a), sx (sext1 a b), sx (sext2 b 0), 0x3D]"
  "bcpy_quad a (Some b) (Some c) = [sx (sext0 a), sx (sext1 a b), sx (sext2 b c), sx (sext3 c)]"
  unfolding bcpy_quad_def Let_def option.case id_apply sext0_def [symmetric] sext1_def [symmetric]
    sext2_def [symmetric] sext3_def [symmetric]
  by (simp_all add: tabs)

text \<open>
  The table-driven base64 printer of the formatter and the arithmetic streaming encoder
  compute the same encoding of every byte string.
\<close>

lemma bcpy_eq_b64: "bcpy buf = b64 buf"
  by (induction buf rule: b64.induct) (simp_all add: bcpy_quads)

lemma b64_fail_safe: "dl \<le> length dst \<Longrightarrow> \<exists>dst'. b64_fail dst dl = Some (dst', 0) \<and> length dst' = length dst"
  by (auto simp: b64_fail_def wr_def)

lemma b64_dec_loop_short: "length src < 4 \<Longrightarrow> b64_dec_loop src dst dl len = do { dst \<leftarrow> wr dst len 0; Some (dst, len) }"
  by (cases "(src, dst, dl, len)" rule: b64_dec_loop.cases) auto

lemma b64_dec_put_safe: "len + 3 \<le> length dst \<Longrightarrow>
   \<exists>d n. b64_dec_put s0 s1 s2 s3 dst len = Some (d, n) \<and> len \<le> n \<and> n \<le> len + 3 \<and> length d = length dst"
  by (simp add: b64_dec_put_def Let_def wr_def)

lemma b64_dec_loop_safe:
  "len + length src div 4 * 3 < length dst \<Longrightarrow> dl \<le> length dst \<Longrightarrow>
   \<exists>dst' n. b64_dec_loop src dst dl len = Some (dst', n) \<and> n \<le> len + length src div 4 * 3 \<and> length dst' = length dst"
proof (induction src arbitrary: dst len rule: length_induct)
  case (1 src)
  show ?case
  proof (cases "length src < 4")
    case True
    then show ?thesis using 1(2) by (simp add: b64_dec_loop_short)
  next
    case False
    then obtain s0 s1 s2 s3 r where src: "src = s0 # s1 # s2 # s3 # r"
      using length_ge_4E [of src] by (metis not_less)
    have q: "length src div 4 = Suc (length r div 4)" by (simp add: src)
    have step: "\<exists>dst' n. b64_dec_loop r d dl m = Some (dst', n) \<and> n \<le> len + length src div 4 * 3 \<and> length dst' = length dst"
      if m: "m \<le> len + 3" "length d = length dst" for m d
    proof -
      have "m + length r div 4 * 3 < length d" using m 1(2) q by simp
      then obtain dst' n where "b64_dec_loop r d dl m = Some (dst', n)"
        "n \<le> m + length r div 4 * 3" "length dst' = length d"
        using 1(1) [rule_format, of r m d] 1(3) m by (auto simp: src)
      then show ?thesis using m q by auto
    qed
    have fail: "\<exists>dst' n. b64_fail dst dl = Some (dst', n) \<and> n \<le> len + length src div 4 * 3 \<and> length dst' = length dst"
      using b64_fail_safe [OF 1(3)] by auto
    have "len + 3 \<le> length dst" using 1(2) q by simp
    from b64_dec_put_safe [OF this] obtain d n
      where put: "b64_dec_put s0 s1 s2 s3 dst len = Some (d, n)" "n \<le> len + 3" "length d = length dst"
      by blast
    show ?thesis using fail step [OF put(2,3)] put(1) by (simp add: src)
  qed
qed

lemma mg_base64_decode_ex:
  "dl \<le> length dst \<Longrightarrow> \<exists>dst' n. mg_base64_decode src dst dl = Some (dst', n) \<and>
     n \<le> length src div 4 * 3 \<and> length dst' = length dst"
  using b64_dec_loop_safe [of 0 src dst dl] b64_fail_safe [of dl dst]
  by (auto simp: mg_base64_decode_def)

text \<open>
  C34: The base64 decoder is memory safe on every input: given a destination of at least the
  declared size, it never reads or writes out of bounds, returns a length of at most three bytes
  per complete quadruple of characters, and keeps the size of the destination.
\<close>

theorem mg_base64_decode_safe:
  "dl \<le> length dst \<Longrightarrow> \<exists>dst' n. mg_base64_decode src dst dl = Some (dst', n) \<and>
     n \<le> length src div 4 * 3 \<and> length dst' = length dst"
  by (rule mg_base64_decode_ex)

theorem mg_base64_decode_safe_witness:
  "\<exists>dst' n. mg_base64_decode (cstr ''!!!!'') [7, 7] 2 = Some (dst', n) \<and>
     n \<le> length (cstr ''!!!!'') div 4 * 3 \<and> length dst' = length [7 :: byte, 7]"
  by (rule mg_base64_decode_safe) simp

lemma mg_base64_decode_b64:
  assumes "length (b64 p) div 4 * 3 < dl" "dl \<le> length dst"
  shows "mg_base64_decode (b64 p) dst dl = Some (p @ [0] @ drop (length p + 1) dst, length p)"
proof -
  have "length p \<le> length (b64 p) div 4 * 3"
    by (simp add: length_b64) presburger
  then show ?thesis using assms b64_dec_loop_b64 [of 0 p dst dl] by (simp add: mg_base64_decode_def)
qed

text \<open>
  C31: Decoding what the encoder wrote gives the input back: encode any bytes into a large enough
  buffer, decode the encoded characters into a large enough buffer, and the result is the input
  followed by a NUL.
\<close>

theorem mg_base64_roundtrip:
  assumes "length (b64 p) < dl" "dl \<le> length to"
    and "length (b64 p) div 4 * 3 < dl'" "dl' \<le> length dst"
  shows "\<exists>to' n. mg_base64_encode p to dl = Some (to', n) \<and>
    mg_base64_decode (take n to') dst dl' = Some (p @ [0] @ drop (length p + 1) dst, length p)"
  using mg_base64_encode_correct_aux [OF assms(1,2)] mg_base64_decode_b64 [OF assms(3,4)] by simp

theorem mg_base64_roundtrip_witness:
  "\<exists>to' n. mg_base64_encode (cstr ''hi'') [0, 0, 0, 0, 0] 5 = Some (to', n) \<and>
    mg_base64_decode (take n to') [9, 9, 9, 9] 4 = Some (cstr ''hi'' @ [0, 9], 2)"
  using mg_base64_roundtrip [of "cstr ''hi''" 5 "[0, 0, 0, 0, 0]" 4 "[9, 9, 9, 9]", unfolded b64_hi]
  by (simp add: numeral_2_eq_2)

subsection \<open>The codec interface\<close>

text \<open>The decoded bytes, with a destination of the size the decoder asks for.\<close>

definition b64_bytes :: "byte list \<Rightarrow> byte list option" where
  "b64_bytes src = map_option (\<lambda>(dst, n). take n dst)
     (mg_base64_decode src (replicate (length src div 4 * 3 + 1) 0) (length src div 4 * 3 + 1))"

interpretation base64: codec b64 b64_bytes "\<lambda>_. True"
  by unfold_locales (simp add: b64_bytes_def mg_base64_decode_b64)

lemma b64_inj: "b64 p = b64 q \<Longrightarrow> p = q"
  by (rule base64.enc_inj) simp_all

end
