(* ===== verification/Mg_Str.thy ===== *)
theory Mg_Str
  imports Prelude
begin

text \<open>
  The string layer of mongoose (\<^verbatim>\<open>src/str.c\<close>, and \<open>mg_ncasecmp\<close> and \<open>mg_to_size_t\<close> of
  \<^verbatim>\<open>src/http.c\<close>). A \<^verbatim>\<open>struct mg_str\<close> is the list of its bytes; the NULL string is \<open>None\<close>
  where a function can return it. Comparison results depend on the signedness \<open>sg\<close> of \<open>char\<close>.
\<close>

subsection \<open>Comparison\<close>

definition mg_tolc :: "bool \<Rightarrow> byte \<Rightarrow> int" where
  "mg_tolc sg c = (if is_upper c then cint sg c + 0x61 - 0x41 else cint sg c)"

fun mg_strcmp :: "bool \<Rightarrow> byte list \<Rightarrow> byte list \<Rightarrow> int" where
  "mg_strcmp sg (c1 # s1) (c2 # s2) =
     (if cint sg c1 < cint sg c2 then -1
      else if cint sg c1 > cint sg c2 then 1
      else mg_strcmp sg s1 s2)"
| "mg_strcmp sg (c1 # s1) [] = 1"
| "mg_strcmp sg [] (c2 # s2) = -1"
| "mg_strcmp sg [] [] = 0"

fun mg_strcasecmp :: "bool \<Rightarrow> byte list \<Rightarrow> byte list \<Rightarrow> int" where
  "mg_strcasecmp sg (c1 # s1) (c2 # s2) =
     (if mg_tolc sg c1 < mg_tolc sg c2 then -1
      else if mg_tolc sg c1 > mg_tolc sg c2 then 1
      else mg_strcasecmp sg s1 s2)"
| "mg_strcasecmp sg (c1 # s1) [] = 1"
| "mg_strcasecmp sg [] (c2 # s2) = -1"
| "mg_strcasecmp sg [] [] = 0"

text \<open>
  \<open>mg_casecmp\<close> runs over two NUL-terminated strings, \<open>mg_ncasecmp\<close> over at most \<open>len\<close> bytes of two
  arrays; both stop at a difference or at a NUL of the first. The arrays are lists that start at
  the pointers, and running off their end is \<open>None\<close>.
\<close>

fun mg_casecmp :: "bool \<Rightarrow> byte list \<Rightarrow> byte list \<Rightarrow> int option" where
  "mg_casecmp sg (c # s1) (d # s2) =
     (let diff = mg_tolc sg c - mg_tolc sg d in
      if diff = 0 \<and> c \<noteq> 0 then mg_casecmp sg s1 s2 else Some diff)"
| "mg_casecmp sg _ _ = None"

fun mg_ncasecmp :: "bool \<Rightarrow> byte list \<Rightarrow> byte list \<Rightarrow> nat \<Rightarrow> int option" where
  "mg_ncasecmp sg s1 s2 0 = Some 0"
| "mg_ncasecmp sg (c # s1) (d # s2) (Suc len) =
     (let diff = mg_tolc sg c - mg_tolc sg d in
      if diff = 0 \<and> c \<noteq> 0 \<and> len > 0 then mg_ncasecmp sg s1 s2 len else Some diff)"
| "mg_ncasecmp sg _ _ (Suc len) = None"

text \<open>\<open>mg_strdup\<close>: a copy, or the NULL string for an empty one or when \<open>calloc\<close> fails.\<close>

definition mg_strdup :: "bool \<Rightarrow> byte list \<Rightarrow> byte list option" where
  "mg_strdup calloc_ok s = (if s \<noteq> [] \<and> calloc_ok then Some s else None)"

subsection \<open>Splitting\<close>

text \<open>The index of the first separator, or the length.\<close>

fun span_len :: "byte list \<Rightarrow> byte \<Rightarrow> nat" where
  "span_len [] sep = 0"
| "span_len (c # s) sep = (if c \<noteq> sep then Suc (span_len s sep) else 0)"

definition mg_span :: "byte list \<Rightarrow> byte \<Rightarrow> (byte list \<times> byte list) option" where
  "mg_span s sep =
     (if s = [] then None
      else let len = span_len s sep; a = take len s; b = drop len s in
        Some (a, if len < length s then drop 1 b else b))"

subsection \<open>Numbers\<close>

definition digit10 :: "byte \<Rightarrow> nat option" where
  "digit10 c = (if is_digit c then Some (unat (c - 0x30)) else None)"

definition digit2 :: "byte \<Rightarrow> nat option" where
  "digit2 c = (if c = 0x30 \<or> c = 0x31 then Some (unat (c - 0x30)) else None)"

definition digit16 :: "byte \<Rightarrow> nat option" where
  "digit16 c =
     (if is_digit c then Some (unat (c - 0x30))
      else if 0x41 \<le> c \<and> c \<le> 0x46 then Some (unat (c - 0x37))
      else if 0x61 \<le> c \<and> c \<le> 0x66 then Some (unat (c - 0x57))
      else None)"

text \<open>
  One digit loop: \<open>None\<close> is the overflow return; otherwise the result, the number of digits and
  what is left of the string.
\<close>

fun num_loop :: "(byte \<Rightarrow> nat option) \<Rightarrow> nat \<Rightarrow> nat \<Rightarrow> byte list \<Rightarrow> nat \<Rightarrow> nat \<Rightarrow>
    (nat \<times> nat \<times> byte list) option" where
  "num_loop dig base mx [] result nd = Some (result, nd, [])"
| "num_loop dig base mx (c # s) result nd =
     (case dig c of
        None \<Rightarrow> Some (result, nd, c # s)
      | Some digit \<Rightarrow>
          if result > mx div base then None
          else if result * base > mx - digit then None
          else num_loop dig base mx s (result * base + digit) (Suc nd))"

definition num_max :: "nat \<Rightarrow> nat" where
  "num_max val_len = (if val_len = 1 then 0xFF else if val_len = 2 then 0xFFFF
     else if val_len = 4 then 0xFFFFFFFF else 2 ^ 64 - 1)"

text \<open>
  \<open>mg_str_to_num\<close>: the value to store, or \<open>None\<close> for \<open>false\<close>. The prefix step of base 0 returns the
  base that is used and the string after the prefix.
\<close>

definition num_prefix :: "byte list \<Rightarrow> nat \<Rightarrow> nat \<times> byte list" where
  "num_prefix str base =
     (if base = 0 \<and> 2 \<le> length str then
        (if str ! 0 = 0x30 then
           let base = (if str ! 1 = 0x62 then 2 else if str ! 1 = 0x78 then 16 else 10) in
           (base, drop (if base \<noteq> 10 then 2 else 1) str)
         else (10, str))
      else (base, str))"

definition mg_str_to_num :: "byte list \<Rightarrow> nat \<Rightarrow> nat \<Rightarrow> nat option" where
  "mg_str_to_num str base val_len =
     (let mx = num_max val_len in
      if mx = 2 ^ 64 - 1 \<and> val_len \<noteq> 8 then None
      else let (base, str) = num_prefix str base in
        if base \<noteq> 2 \<and> base \<noteq> 10 \<and> base \<noteq> 16 then None
        else (case num_loop (if base = 2 then digit2 else if base = 10 then digit10 else digit16)
                     base mx str 0 0 of
                None \<Rightarrow> None
              | Some (result, ndigits, rest) \<Rightarrow>
                  if ndigits = 0 then None else if rest \<noteq> [] then None else Some result))"

definition is_blank :: "byte \<Rightarrow> bool" where
  "is_blank c \<longleftrightarrow> c = 0x20 \<or> c = 0x09"

definition mg_to_size_t :: "byte list \<Rightarrow> nat option" where
  "mg_to_size_t str =
     (let s = dropWhile is_blank str in
      if s \<noteq> [] \<and> hd s = 0x2D then None
      else case num_loop digit10 10 (2 ^ 64 - 1) s 0 0 of
        None \<Rightarrow> None
      | Some (result, ndigits, s) \<Rightarrow>
          if ndigits = 0 then None
          else if dropWhile is_blank s \<noteq> [] then None
          else Some result)"

subsection \<open>Glob matching\<close>

text \<open>
  \<open>mg_match\<close> with \<open>caps == NULL\<close>, the form of the calls of the web server; the array of captures
  that the PEM parser of the TLS layer passes is not modelled. The loop keeps the
  position of the last wildcard \<open>ni\<close> and the next string position \<open>nj\<close> to retry it from. Its
  third branch reads \<open>s.buf[j]\<close> also where \<open>j = s.len\<close>; the byte found there is the parameter \<open>z\<close>.
\<close>

definition is_wild :: "byte \<Rightarrow> bool" where
  "is_wild c \<longleftrightarrow> c = 0x2A \<or> c = 0x23"

partial_function (option) mg_match_loop ::
    "byte \<Rightarrow> byte list \<Rightarrow> byte list \<Rightarrow> nat \<Rightarrow> nat \<Rightarrow> nat \<Rightarrow> nat \<Rightarrow> bool option" where
  "mg_match_loop z s p i j ni nj =
     (if i < length p \<or> j < length s then
        (if i < length p \<and> j < length s \<and>
            (p ! i = 0x3F \<or> (p ! i \<noteq> 0x2A \<and> p ! i \<noteq> 0x23 \<and> s ! j = p ! i))
         then mg_match_loop z s p (i + 1) (j + 1) ni nj
         else if i < length p \<and> (p ! i = 0x2A \<or> p ! i = 0x23)
         then mg_match_loop z s p (i + 1) j i (j + 1)
         else if nj > 0 \<and> nj \<le> length s \<and> (p ! ni = 0x23 \<or> (s @ [z]) ! j \<noteq> 0x2F)
         then mg_match_loop z s p ni nj ni nj
         else Some False)
      else Some True)"

definition mg_match :: "byte \<Rightarrow> byte list \<Rightarrow> byte list \<Rightarrow> bool option" where
  "mg_match z s p = mg_match_loop z s p 0 0 0 0"

subsection \<open>Comparison is a total preorder\<close>

locale bytewise =
  fixes key :: "byte \<Rightarrow> int" and cmp :: "byte list \<Rightarrow> byte list \<Rightarrow> int"
  assumes cmp_Nil_Nil: "cmp [] [] = 0"
    and cmp_Cons_Nil: "cmp (c # s) [] = 1"
    and cmp_Nil_Cons: "cmp [] (d # t) = -1"
    and cmp_Cons_Cons: "cmp (c # s) (d # t) =
      (if key c < key d then -1 else if key c > key d then 1 else cmp s t)"
begin

lemmas cmp_rules = cmp_Nil_Nil cmp_Cons_Nil cmp_Nil_Cons cmp_Cons_Cons

lemma cmp_eq_0_iff: "cmp s t = 0 \<longleftrightarrow> map key s = map key t"
  by (induction s t rule: list_induct2') (auto simp: cmp_rules)

lemma cmp_swap: "cmp t s = - cmp s t"
  by (induction s t rule: list_induct2') (auto simp: cmp_rules)

lemma cmp_range: "cmp s t \<in> {-1, 0, 1}"
  by (induction s t rule: list_induct2') (auto simp: cmp_rules)

lemma cmp_trans: "cmp s t \<le> 0 \<Longrightarrow> cmp t u \<le> 0 \<Longrightarrow> cmp s u \<le> 0"
proof (induction s arbitrary: t u)
  case Nil
  then show ?case by (cases u) (auto simp: cmp_rules)
next
  case (Cons c s)
  then show ?case
    by (cases t; cases u) (auto simp: cmp_rules split: if_splits)
qed

lemma cmp_append: "cmp (p @ s) (p @ t) = cmp s t"
  by (induction p) (auto simp: cmp_rules)

end

interpretation strcmp: bytewise "cint sg" "mg_strcmp sg" for sg
  by unfold_locales auto

interpretation strcasecmp: bytewise "mg_tolc sg" "mg_strcasecmp sg" for sg
  by unfold_locales auto

definition lower :: "byte \<Rightarrow> byte" where
  "lower c = (if is_upper c then c + 0x20 else c)"

lemma upper_nat: "is_upper c \<Longrightarrow> 65 \<le> unat c \<and> unat c \<le> 90"
  by (simp add: is_upper_def word_le_nat_alt)

lemma unat_upper_add: "is_upper c \<Longrightarrow> unat (c + 0x20) = unat c + 32"
  using upper_nat [of c] by (simp add: unat_word_ariths)

lemma mg_tolc_lower: "mg_tolc sg c = cint sg (lower c)"
proof (cases "is_upper c")
  case True
  then have "cint sg c = int (unat c)" and "cint sg (c + 0x20) = int (unat c + 32)"
    using upper_nat [OF True] by (simp_all add: cint_small unat_upper_add)
  then show ?thesis using True by (simp add: mg_tolc_def lower_def)
qed (simp add: mg_tolc_def lower_def)

lemma lower_eq_0_iff: "lower c = 0 \<longleftrightarrow> c = 0"
proof (cases "is_upper c")
  case True
  then have "unat (c + 0x20) \<noteq> 0" and "unat c \<noteq> 0"
    using upper_nat [OF True] unat_upper_add [OF True] by linarith+
  then show ?thesis using True by (auto simp: lower_def)
qed (simp add: lower_def)

lemma mg_tolc_eq_iff: "mg_tolc sg c = mg_tolc sg d \<longleftrightarrow> lower c = lower d"
  by (simp add: mg_tolc_lower)

lemma map_tolc_eq_iff: "map (mg_tolc sg) s = map (mg_tolc sg) t \<longleftrightarrow> map lower s = map lower t"
  by (induction s t rule: list_induct2') (auto simp: mg_tolc_eq_iff)

lemma mg_strcmp_order:
  "(mg_strcmp sg s t = 0 \<longleftrightarrow> s = t) \<and> mg_strcmp sg t s = - mg_strcmp sg s t \<and>
   (mg_strcmp sg s t \<le> 0 \<and> mg_strcmp sg t u \<le> 0 \<longrightarrow> mg_strcmp sg s u \<le> 0)"
  using strcmp.cmp_eq_0_iff [of sg s t] strcmp.cmp_swap [of sg t s] strcmp.cmp_trans [of sg s t u]
  by (auto simp: inj_map_eq_map inj_def)

lemma mg_strcasecmp_eq_0_iff: "mg_strcasecmp sg s t = 0 \<longleftrightarrow> map lower s = map lower t"
  by (simp add: strcasecmp.cmp_eq_0_iff map_tolc_eq_iff)

text \<open>A comparison of \<open>len\<close> bytes succeeds on arrays that are long enough.\<close>

lemma mg_ncasecmp_Some: "len \<le> length s \<Longrightarrow> len \<le> length t \<Longrightarrow> \<exists>d. mg_ncasecmp sg s t len = Some d"
  by (induction sg s t len rule: mg_ncasecmp.induct) (auto simp: Let_def)

lemma mg_ncasecmp_eq_0:
  "len \<le> length s \<Longrightarrow> len \<le> length t \<Longrightarrow> 0 \<notin> set (take len t) \<Longrightarrow>
   mg_ncasecmp sg s t len = Some 0 \<longleftrightarrow> map lower (take len s) = map lower (take len t)"
proof (induction sg s t len rule: mg_ncasecmp.induct)
  case (2 sg c s1 d s2 len)
  show ?case using 2 lower_eq_0_iff [of c] lower_eq_0_iff [of d]
    by (auto simp: Let_def mg_tolc_eq_iff)
qed auto

subsection \<open>Splitting\<close>

lemma span_len_takeWhile: "span_len s sep = length (takeWhile (\<lambda>c. c \<noteq> sep) s)"
  by (induction s) auto

lemma mg_span_eq:
  "mg_span s sep = (if s = [] then None
     else Some (takeWhile (\<lambda>c. c \<noteq> sep) s, drop 1 (dropWhile (\<lambda>c. c \<noteq> sep) s)))"
proof -
  let ?P = "\<lambda>c. c \<noteq> sep"
  have t: "take (span_len s sep) s = takeWhile ?P s" and d: "drop (span_len s sep) s = dropWhile ?P s"
    by (metis span_len_takeWhile takeWhile_eq_take, metis span_len_takeWhile dropWhile_eq_drop)
  have "span_len s sep < length s \<or> dropWhile ?P s = []"
    using d by (metis drop_all not_le)
  then show ?thesis unfolding mg_span_def Let_def t d by (auto simp del: dropWhile_eq_Nil_conv)
qed

lemma mg_span_shorter: "mg_span s sep = Some (a, b) \<Longrightarrow> length b < length s"
  using length_dropWhile_le [of "\<lambda>c. c \<noteq> sep" s]
  by (cases s) (auto simp: mg_span_eq simp del: length_dropWhile_le split: if_splits)

lemma mg_span_join:
  "mg_span s sep = Some (a, b) \<Longrightarrow> sep \<notin> set a \<and> (s = a \<and> b = [] \<or> s = a @ sep # b)"
proof -
  assume "mg_span s sep = Some (a, b)"
  then have a: "a = takeWhile (\<lambda>c. c \<noteq> sep) s" and b: "b = drop 1 (dropWhile (\<lambda>c. c \<noteq> sep) s)"
    by (auto simp: mg_span_eq split: if_splits)
  have "sep \<notin> set a" unfolding a by (auto dest: set_takeWhileD)
  moreover have "s = a \<and> b = [] \<or> s = a @ sep # b"
  proof (cases "dropWhile (\<lambda>c. c \<noteq> sep) s")
    case Nil
    then show ?thesis using takeWhile_dropWhile_id [of "\<lambda>c. c \<noteq> sep" s] by (metis a b append_Nil2 drop_Nil)
  next
    case (Cons x xs)
    then have "x = sep" by (metis (mono_tags, lifting) hd_dropWhile list.distinct(1) list.sel(1))
    then show ?thesis using takeWhile_dropWhile_id [of "\<lambda>c. c \<noteq> sep" s] Cons by (metis a b drop0 drop_Suc_Cons One_nat_def)
  qed
  ultimately show ?thesis by blast
qed

subsection \<open>Number parsing\<close>

definition num_value :: "(byte \<Rightarrow> nat option) \<Rightarrow> nat \<Rightarrow> nat \<Rightarrow> byte list \<Rightarrow> nat" where
  "num_value dig base = foldl (\<lambda>a c. a * base + the (dig c))"

lemma num_value_mono: "base > 0 \<Longrightarrow> a \<le> num_value dig base a s"
proof (induction s arbitrary: a)
  case (Cons c s)
  have "a \<le> a * base + the (dig c)" using Cons.prems by (cases base) auto
  also have "\<dots> \<le> num_value dig base (a * base + the (dig c)) s" using Cons by blast
  finally show ?case by (simp add: num_value_def)
qed (simp add: num_value_def)

lemma num_step_ok:
  fixes r mx base d :: nat
  assumes "base > 0" "d \<le> mx"
  shows "r > mx div base \<or> r * base > mx - d \<longleftrightarrow> mx < r * base + d"
proof -
  have "r > mx div base \<Longrightarrow> mx < r * base"
    using assms(1) by (simp add: div_less_iff_less_mult)
  then show ?thesis using assms(2) by auto
qed

lemma num_loop_eq:
  assumes base: "base > 0" and dig: "\<And>c d. dig c = Some d \<Longrightarrow> d \<le> mx"
  shows "r \<le> mx \<Longrightarrow> num_loop dig base mx s r nd =
    (let ds = takeWhile (\<lambda>c. dig c \<noteq> None) s; v = num_value dig base r ds in
     if v \<le> mx then Some (v, nd + length ds, dropWhile (\<lambda>c. dig c \<noteq> None) s) else None)"
proof (induction s arbitrary: r nd)
  case Nil
  then show ?case by (simp add: num_value_def)
next
  case (Cons c s)
  show ?case
  proof (cases "dig c")
    case None
    then show ?thesis using Cons.prems by (simp add: num_value_def)
  next
    case (Some d)
    have val: "num_value dig base r (c # ds) = num_value dig base (r * base + d) ds" for ds
      using Some by (simp add: num_value_def)
    show ?thesis
    proof (cases "r * base + d \<le> mx")
      case True
      then have ok: "\<not> (r > mx div base)" "\<not> (r * base > mx - d)"
        using num_step_ok [OF base dig [OF Some], of r] by auto
      then show ?thesis using Cons.IH [OF True] Some by (simp add: Let_def val)
    next
      case False
      then have "r > mx div base \<or> r * base > mx - d"
        using num_step_ok [OF base dig [OF Some], of r] by auto
      moreover have "mx < num_value dig base (r * base + d) (takeWhile (\<lambda>c. dig c \<noteq> None) s)"
        using num_value_mono [OF base, of "r * base + d" dig] False
        by (meson leD le_trans not_le_imp_less)
      ultimately show ?thesis using Some by (auto simp: Let_def val)
    qed
  qed
qed

lemma digit2_bound: "digit2 c = Some d \<Longrightarrow> d < 2"
  by (auto simp: digit2_def split: if_splits)

lemma digit10_bound: "digit10 c = Some d \<Longrightarrow> d < 10"
  by (auto simp: digit10_def is_digit_def split: if_splits) unat_arith

lemma digit16_bound: "digit16 c = Some d \<Longrightarrow> d < 16"
  by (auto simp: digit16_def is_digit_def split: if_splits) unat_arith+

lemmas digit_bounds = digit2_bound digit10_bound digit16_bound

lemma num_max_ge: "15 \<le> num_max w"
  by (simp add: num_max_def)

lemma digit_le: "digit2 c = Some d \<Longrightarrow> d \<le> 15" "digit10 c = Some d \<Longrightarrow> d \<le> 15"
  "digit16 c = Some d \<Longrightarrow> d \<le> 15"
  using digit_bounds [of c d] by auto

text \<open>The digit function that the parser uses in each base.\<close>

definition base_digit :: "nat \<Rightarrow> byte \<Rightarrow> nat option" where
  "base_digit base = (if base = 2 then digit2 else if base = 10 then digit10 else digit16)"

lemma base_digit_le: "base_digit base c = Some d \<Longrightarrow> d \<le> num_max w"
  using digit_le [of c d] num_max_ge [of w] by (auto simp: base_digit_def split: if_splits)

lemma num_loop_base:
  "base > 0 \<Longrightarrow> num_loop (base_digit base) base (num_max w) s 0 0 =
    (let ds = takeWhile (\<lambda>c. base_digit base c \<noteq> None) s; v = num_value (base_digit base) base 0 ds in
     if v \<le> num_max w then Some (v, length ds, dropWhile (\<lambda>c. base_digit base c \<noteq> None) s) else None)"
  using num_loop_eq [of base "base_digit base" "num_max w" 0 s 0] base_digit_le by (simp add: Let_def)

lemma takeWhile_nonempty_iff: "dropWhile P s = [] \<Longrightarrow> takeWhile P s = s"
  using takeWhile_dropWhile_id [of P s] by simp

lemma mg_str_to_num_iff_aux:
  assumes "base \<in> {2, 10, 16}" "w \<in> {1, 2, 4, 8}"
  shows "mg_str_to_num s base w = Some v \<longleftrightarrow>
    s \<noteq> [] \<and> (\<forall>c \<in> set s. base_digit base c \<noteq> None) \<and>
    v = num_value (base_digit base) base 0 s \<and> v \<le> num_max w"
proof -
  have pre: "num_prefix s base = (base, s)" using assms by (auto simp: num_prefix_def)
  have w: "\<not> (num_max w = 2 ^ 64 - 1 \<and> w \<noteq> 8)" using assms by (auto simp: num_max_def)
  have b: "\<not> (base \<noteq> 2 \<and> base \<noteq> 10 \<and> base \<noteq> 16)" "base > 0" using assms by auto
  have "mg_str_to_num s base w =
    (case num_loop (base_digit base) base (num_max w) s 0 0 of None \<Rightarrow> None
     | Some (result, ndigits, rest) \<Rightarrow>
         if ndigits = 0 then None else if rest \<noteq> [] then None else Some result)"
    using w b(1) by (simp only: mg_str_to_num_def Let_def pre if_False prod.case base_digit_def)
  also have "\<dots> = Some v \<longleftrightarrow>
    (let ds = takeWhile (\<lambda>c. base_digit base c \<noteq> None) s in
     num_value (base_digit base) base 0 ds \<le> num_max w \<and> ds \<noteq> [] \<and>
     dropWhile (\<lambda>c. base_digit base c \<noteq> None) s = [] \<and> v = num_value (base_digit base) base 0 ds)"
    unfolding num_loop_base [OF b(2)] Let_def by (auto split: if_splits simp del: dropWhile_eq_Nil_conv)
  also have "\<dots> \<longleftrightarrow> s \<noteq> [] \<and> (\<forall>c \<in> set s. base_digit base c \<noteq> None) \<and>
    v = num_value (base_digit base) base 0 s \<and> v \<le> num_max w"
    unfolding Let_def dropWhile_eq_Nil_conv
    by (auto simp: takeWhile_eq_all_conv [THEN iffD2] simp del: takeWhile_eq_Nil_iff)
  finally show ?thesis .
qed

lemma mg_to_size_t_loop:
  "num_loop digit10 10 (2 ^ 64 - 1) s 0 0 =
    (let ds = takeWhile (\<lambda>c. digit10 c \<noteq> None) s; v = num_value digit10 10 0 ds in
     if v < 2 ^ 64 then Some (v, length ds, dropWhile (\<lambda>c. digit10 c \<noteq> None) s) else None)"
proof -
  have "d \<le> 2 ^ 64 - 1" if "digit10 c = Some d" for c d
    using digit10_bound [OF that] by simp
  then show ?thesis using num_loop_eq [of 10 digit10 "2 ^ 64 - 1" 0 s 0] by (auto simp: Let_def)
qed

lemma blank_not_digit: "is_blank c \<Longrightarrow> digit10 c = None"
  by (auto simp: is_blank_def digit10_def is_digit_def)

lemma minus_not_digit: "digit10 0x2D = None"
  by (simp add: digit10_def is_digit_def)

lemma mg_to_size_t_SomeD:
  assumes "mg_to_size_t str = Some v"
  shows "\<exists>pre ds post. str = pre @ ds @ post \<and> (\<forall>c \<in> set pre. is_blank c) \<and> (\<forall>c \<in> set post. is_blank c) \<and>
    ds \<noteq> [] \<and> (\<forall>c \<in> set ds. is_digit c) \<and> v = num_value digit10 10 0 ds \<and> v < 2 ^ 64"
proof -
  define s where "s = dropWhile is_blank str"
  define ds where "ds = takeWhile (\<lambda>c. digit10 c \<noteq> None) s"
  define post where "post = dropWhile (\<lambda>c. digit10 c \<noteq> None) s"
  have v: "v = num_value digit10 10 0 ds" "v < 2 ^ 64" "ds \<noteq> []" "dropWhile is_blank post = []"
    using assms unfolding mg_to_size_t_def mg_to_size_t_loop Let_def s_def [symmetric] ds_def [symmetric] post_def [symmetric]
    by (auto split: if_splits simp del: dropWhile_eq_Nil_conv)
  have "str = takeWhile is_blank str @ ds @ post"
    by (simp add: ds_def post_def s_def)
  moreover have "\<forall>c \<in> set (takeWhile is_blank str). is_blank c" by (auto dest: set_takeWhileD)
  moreover have "\<forall>c \<in> set post. is_blank c" using v(4) by simp
  moreover have "\<forall>c \<in> set ds. is_digit c"
    by (auto simp: ds_def digit10_def dest!: set_takeWhileD split: if_splits)
  ultimately show ?thesis using v by blast
qed

lemma mg_to_size_t_SomeI:
  assumes "\<forall>c \<in> set pre. is_blank c" "\<forall>c \<in> set post. is_blank c" "ds \<noteq> []" "\<forall>c \<in> set ds. is_digit c"
    "num_value digit10 10 0 ds < 2 ^ 64"
  shows "mg_to_size_t (pre @ ds @ post) = Some (num_value digit10 10 0 ds)"
proof -
  obtain d r where ds: "ds = d # r" "is_digit d" using assms(3,4) by (cases ds) auto
  have nb: "\<not> is_blank d" "d \<noteq> 0x2D"
    using ds(2) blank_not_digit [of d] minus_not_digit by (auto simp: digit10_def)
  have s: "dropWhile is_blank (pre @ ds @ post) = ds @ post"
    using assms(1) nb ds by (simp add: dropWhile_append2)
  have t: "takeWhile (\<lambda>c. digit10 c \<noteq> None) (ds @ post) = ds" "dropWhile (\<lambda>c. digit10 c \<noteq> None) (ds @ post) = post"
  proof -
    have "\<forall>c \<in> set ds. digit10 c \<noteq> None" using assms(4) by (simp add: digit10_def)
    moreover have "takeWhile (\<lambda>c. digit10 c \<noteq> None) post = []" "dropWhile (\<lambda>c. digit10 c \<noteq> None) post = post"
      using assms(2) blank_not_digit by (cases post; simp)+
    ultimately show "takeWhile (\<lambda>c. digit10 c \<noteq> None) (ds @ post) = ds" "dropWhile (\<lambda>c. digit10 c \<noteq> None) (ds @ post) = post"
      by (simp_all add: takeWhile_append2 dropWhile_append2)
  qed
  show ?thesis unfolding mg_to_size_t_def mg_to_size_t_loop Let_def s t
    using assms nb ds by simp
qed

subsection \<open>Glob matching: the specification\<close>

text \<open>
  A pattern as documented: \<open>?\<close> is any character, \<open>*\<close> any string without a slash, \<open>#\<close> any
  string, every other character itself.
\<close>

fun glob :: "byte list \<Rightarrow> byte list \<Rightarrow> bool" where
  "glob [] s = (s = [])"
| "glob (c # p) s =
     (if is_wild c then glob p s \<or>
        (case s of [] \<Rightarrow> False | x # t \<Rightarrow> (c = 0x23 \<or> x \<noteq> 0x2F) \<and> glob (c # p) t)
      else (case s of [] \<Rightarrow> False | x # t \<Rightarrow> (c = 0x3F \<or> x = c) \<and> glob p t))"

text \<open>On a string without slashes a wildcard absorbs any prefix.\<close>

lemma glob_wild:
  "is_wild c \<Longrightarrow> 0x2F \<notin> set s \<Longrightarrow> glob (c # p) s \<longleftrightarrow> (\<exists>k \<le> length s. glob p (drop k s))"
proof (induction s)
  case Nil
  then show ?case by simp
next
  case (Cons x t)
  have "glob (c # p) (x # t) \<longleftrightarrow> glob p (x # t) \<or> (\<exists>k \<le> length t. glob p (drop k t))"
    using Cons by auto
  also have "\<dots> \<longleftrightarrow> (\<exists>k \<le> length (x # t). glob p (drop k (x # t)))"
    by (metis (no_types, lifting) Suc_le_mono drop0 drop_Suc_Cons le0 length_Cons not0_implies_Suc)
  finally show ?case .
qed

text \<open>A literal stretch of the pattern.\<close>

fun lit :: "byte list \<Rightarrow> byte list \<Rightarrow> bool" where
  "lit [] s = (s = [])"
| "lit (c # w) [] = False"
| "lit (c # w) (x # s) = ((c = 0x3F \<or> x = c) \<and> lit w s)"

lemma glob_lit:
  "\<forall>c \<in> set w. \<not> is_wild c \<Longrightarrow>
   glob (w @ q) s \<longleftrightarrow> length w \<le> length s \<and> lit w (take (length w) s) \<and> glob q (drop (length w) s)"
proof (induction w arbitrary: s)
  case (Cons c w)
  then show ?case by (cases s) auto
qed simp

lemma lit_append: "length w = length s \<Longrightarrow> lit (w @ [c]) (s @ [x]) \<longleftrightarrow> lit w s \<and> (c = 0x3F \<or> x = c)"
  by (induction w s rule: list_induct2) auto

lemma lit_length: "lit w s \<Longrightarrow> length s = length w"
  by (induction w s rule: lit.induct) auto

text \<open>A wildcard in front of \<open>q\<close> lets a match of \<open>q\<close> further right count.\<close>

lemma glob_wild_back:
  assumes "q = c # q'" "is_wild c" "0x2F \<notin> set s" "j \<le> k" "k \<le> length s" "glob q (drop k s)"
  shows "glob q (drop j s)"
proof -
  have ns: "0x2F \<notin> set (drop m s)" for m using assms(3) by (auto dest: in_set_dropD)
  obtain m where "m \<le> length (drop k s)" "glob q' (drop m (drop k s))"
    using assms(1,2,6) glob_wild ns by auto
  then have "m + (k - j) \<le> length (drop j s)" "glob q' (drop (m + (k - j)) (drop j s))"
    using assms(4,5) by (auto simp: algebra_simps)
  then show ?thesis using assms(1,2) glob_wild ns by blast
qed

subsection \<open>The matching loop on slash-free strings\<close>

text \<open>
  Between the last wildcard \<open>p ! ni\<close> and the position \<open>i\<close> the pattern is literal and has matched
  the string from \<open>nj - 1\<close> up to \<open>j\<close>.
\<close>

definition match_inv :: "byte list \<Rightarrow> byte list \<Rightarrow> nat \<Rightarrow> nat \<Rightarrow> nat \<Rightarrow> nat \<Rightarrow> bool" where
  "match_inv s p i j ni nj \<longleftrightarrow> i \<le> length p \<and> j \<le> length s \<and>
     (nj > 0 \<longrightarrow> ni < length p \<and> is_wild (p ! ni) \<and>
        (i = ni \<and> j = nj \<or>
         ni < i \<and> j + ni + 2 = i + nj \<and>
         (\<forall>c \<in> set (take (i - Suc ni) (drop (Suc ni) p)). \<not> is_wild c) \<and>
         lit (take (i - Suc ni) (drop (Suc ni) p)) (take (j - (nj - 1)) (drop (nj - 1) s))))"

definition match_result :: "byte list \<Rightarrow> byte list \<Rightarrow> nat \<Rightarrow> nat \<Rightarrow> nat \<Rightarrow> nat \<Rightarrow> bool" where
  "match_result s p i j ni nj \<longleftrightarrow> glob (drop i p) (drop j s) \<or>
     nj > 0 \<and> nj \<le> length s \<and> glob (drop ni p) (drop nj s)"

definition match_measure :: "byte list \<Rightarrow> byte list \<Rightarrow> nat \<Rightarrow> nat \<Rightarrow> nat \<Rightarrow> nat \<Rightarrow> nat \<times> nat \<times> nat" where
  "match_measure s p i j ni nj =
     (length p - (if nj = 0 then 0 else Suc ni),  length s + 2 - nj,
      if nj > 0 \<and> i = ni then 0 else Suc (length p - i))"


text \<open>The stretch between the last wildcard and the current position.\<close>

definition stretch :: "byte list \<Rightarrow> nat \<Rightarrow> nat \<Rightarrow> byte list" where
  "stretch p ni i = take (i - Suc ni) (drop (Suc ni) p)"

lemma drop_stretch:
  assumes "ni < i" "i \<le> length p"
  shows "drop ni p = p ! ni # stretch p ni i @ drop i p"
proof -
  have "drop (Suc ni) p = stretch p ni i @ drop (i - Suc ni) (drop (Suc ni) p)"
    by (simp only: stretch_def append_take_drop_id)
  moreover have "drop (i - Suc ni) (drop (Suc ni) p) = drop i p" using assms by simp
  moreover have "drop ni p = p ! ni # drop (Suc ni) p" using assms by (intro drop_eq_Cons) simp
  ultimately show ?thesis by metis
qed

lemma length_stretch: "ni < i \<Longrightarrow> i \<le> length p \<Longrightarrow> length (stretch p ni i) = i - Suc ni"
  by (simp add: stretch_def)

text \<open>Retrying from the last wildcard can only match with the literal stretch further right.\<close>

lemma backtrack_stretch:
  assumes "ni < i" "i \<le> length p" "is_wild (p ! ni)" "\<forall>c \<in> set (stretch p ni i). \<not> is_wild c"
    "0x2F \<notin> set s" "glob (drop ni p) (drop nj s)"
  shows "\<exists>k. nj + k + (i - Suc ni) \<le> max nj (length s) \<and> glob (drop i p) (drop (nj + k + (i - Suc ni)) s)"
proof -
  have "0x2F \<notin> set (drop nj s)" using assms(5) by (auto dest: in_set_dropD)
  then obtain k where k: "k \<le> length (drop nj s)" "glob (stretch p ni i @ drop i p) (drop k (drop nj s))"
    using assms(1-3,6) glob_wild drop_stretch by metis
  then have len: "i - Suc ni \<le> length (drop k (drop nj s))"
    and g: "glob (drop i p) (drop (i - Suc ni) (drop k (drop nj s)))"
    using glob_lit [OF assms(4)] length_stretch assms(1,2) by auto
  show ?thesis using len g k(1) by (intro exI [of _ k]) (auto simp: algebra_simps)
qed

lemma match_inv_stretch:
  "match_inv s p i j ni nj \<Longrightarrow> nj > 0 \<Longrightarrow> ni < length p \<and> is_wild (p ! ni) \<and> i \<le> length p \<and> j \<le> length s \<and>
     (i = ni \<and> j = nj \<or>
      ni < i \<and> j + ni + 2 = i + nj \<and> (\<forall>c \<in> set (stretch p ni i). \<not> is_wild c) \<and>
      lit (stretch p ni i) (take (j - (nj - 1)) (drop (nj - 1) s)))"
  by (auto simp: match_inv_def stretch_def)

lemma match_inv_literal:
  assumes inv: "match_inv s p i j ni nj" and i: "i < length p" and j: "j < length s"
    and c: "\<not> is_wild (p ! i)" "p ! i = 0x3F \<or> s ! j = p ! i"
  shows "match_inv s p (Suc i) (Suc j) ni nj"
proof (cases "nj > 0")
  case True
  from match_inv_stretch [OF inv True] c(1)
  have h: "ni < length p" "is_wild (p ! ni)" "ni < i" "j + ni + 2 = i + nj"
    "\<forall>c \<in> set (stretch p ni i). \<not> is_wild c"
    "lit (stretch p ni i) (take (j - (nj - 1)) (drop (nj - 1) s))" by auto
  have "i - Suc ni < length (drop (Suc ni) p)" using h i by simp
  then have st: "stretch p ni (Suc i) = stretch p ni i @ [p ! i]"
  proof -
    have "Suc i - Suc ni = Suc (i - Suc ni)" and "drop (Suc ni) p ! (i - Suc ni) = p ! i"
      using h(3) i by simp_all
    then show ?thesis using \<open>i - Suc ni < length (drop (Suc ni) p)\<close>
      by (simp only: stretch_def take_Suc_conv_app_nth)
  qed
  have "j - (nj - 1) < length (drop (nj - 1) s)" using h True j by simp
  moreover have "drop (nj - 1) s ! (j - (nj - 1)) = s ! j" using h True j by simp
  moreover have "Suc j - (nj - 1) = Suc (j - (nj - 1))" using h True by simp
  ultimately have tk: "take (Suc j - (nj - 1)) (drop (nj - 1) s) = take (j - (nj - 1)) (drop (nj - 1) s) @ [s ! j]"
    by (simp add: take_Suc_conv_app_nth)
  have "lit (stretch p ni (Suc i)) (take (Suc j - (nj - 1)) (drop (nj - 1) s))"
    unfolding st tk using h(6) c(2) lit_length [OF h(6)] by (subst lit_append) auto
  then show ?thesis using h i j c st unfolding match_inv_def stretch_def [symmetric] by auto
qed (use i j in \<open>simp add: match_inv_def\<close>)

text \<open>A new wildcard makes the old backtracking point redundant.\<close>

lemma match_inv_backtrack:
  assumes inv: "match_inv s p i j ni nj" and slash: "0x2F \<notin> set s"
    and wild: "i < length p" "is_wild (p ! i)"
    and bt: "nj > 0" "nj \<le> length s" "glob (drop ni p) (drop nj s)"
  shows "glob (drop i p) (drop j s)"
proof -
  note h = match_inv_stretch [OF inv bt(1)]
  show ?thesis
  proof (cases "i = ni \<and> j = nj")
    case False
    then have h': "ni < i" "j + ni + 2 = i + nj" "\<forall>c \<in> set (stretch p ni i). \<not> is_wild c"
      using h by auto
    obtain k where k: "nj + k + (i - Suc ni) \<le> length s" "glob (drop i p) (drop (nj + k + (i - Suc ni)) s)"
      using backtrack_stretch [OF h'(1) _ _ h'(3) slash bt(3)] h bt(2) by auto
    have "drop i p = p ! i # drop (Suc i) p" using wild(1) by (rule drop_eq_Cons)
    then show ?thesis using glob_wild_back [OF _ wild(2) slash _ k] h' by simp
  qed (use bt in simp)
qed

text \<open>At the end of the string no retry can succeed.\<close>

lemma match_inv_overrun:
  assumes inv: "match_inv s p i (length s) ni nj" and slash: "0x2F \<notin> set s"
    and i: "i < length p" "\<not> is_wild (p ! i)" and bt: "nj > 0" "nj \<le> length s"
  shows "\<not> glob (drop ni p) (drop nj s)"
proof
  assume g: "glob (drop ni p) (drop nj s)"
  from match_inv_stretch [OF inv bt(1)] i(2)
  have h: "ni < i" "length s + ni + 2 = i + nj" "\<forall>c \<in> set (stretch p ni i). \<not> is_wild c"
    "is_wild (p ! ni)" by auto
  from backtrack_stretch [OF h(1) _ h(4,3) slash g] i(1) bt(2) h(1,2) show False by auto
qed

text \<open>Each step of the loop keeps the invariant and decreases the measure.\<close>

definition match_less :: "((nat \<times> nat \<times> nat) \<times> (nat \<times> nat \<times> nat)) set" where
  "match_less = less_than <*lex*> less_than <*lex*> less_than"

lemma wf_match_less: "wf match_less"
  by (simp add: match_less_def wf_lex_prod)

lemma match_literal_step:
  assumes "match_inv s p i j ni nj" "i < length p" "\<not> is_wild (p ! i)"
  shows "(match_measure s p (Suc i) (Suc j) ni nj, match_measure s p i j ni nj) \<in> match_less"
  using assms match_inv_stretch [OF assms(1)] by (auto simp: match_measure_def match_less_def)

lemma match_wild_step:
  assumes "match_inv s p i j ni nj" "i < length p" "is_wild (p ! i)"
  shows "match_inv s p (Suc i) j i (Suc j)"
    "(match_measure s p (Suc i) j i (Suc j), match_measure s p i j ni nj) \<in> match_less"
  using assms match_inv_stretch [OF assms(1)]
  by (auto simp: match_measure_def match_less_def match_inv_def)

lemma match_retry_step:
  assumes "match_inv s p i j ni nj" "nj > 0" "nj \<le> length s" "i < length p \<longrightarrow> \<not> is_wild (p ! i)"
  shows "match_inv s p ni nj ni nj"
    "(match_measure s p ni nj ni nj, match_measure s p i j ni nj) \<in> match_less"
  using assms match_inv_stretch [OF assms(1,2)]
  by (auto simp: match_measure_def match_less_def match_inv_def)

lemma match_cases:
  assumes "match_inv s p i j ni nj"
  obtains (finished) "i = length p" "j = length s"
    | (literal) "i < length p" "j < length s" "\<not> is_wild (p ! i)" "p ! i = 0x3F \<or> s ! j = p ! i"
    | (wild) "i < length p" "is_wild (p ! i)"
    | (stuck) "i < length p \<or> j < length s"
      "i < length p \<longrightarrow> \<not> is_wild (p ! i) \<and> (j < length s \<longrightarrow> p ! i \<noteq> 0x3F \<and> s ! j \<noteq> p ! i)"
  using assms unfolding match_inv_def by fastforce

text \<open>The loop ends on every string and pattern.\<close>

lemma mg_match_loop_total:
  "match_inv s p i j ni nj \<Longrightarrow> \<exists>b. mg_match_loop z s p i j ni nj = Some b"
proof (induction "match_measure s p i j ni nj" arbitrary: i j ni nj rule: wf_induct_rule [OF wf_match_less])
  case (1 i j ni nj)
  note IH = "1.hyps" and inv = "1.prems"
  from inv show ?case
  proof (cases rule: match_cases)
    case finished
    then have "mg_match_loop z s p i j ni nj = Some True" by (simp add: mg_match_loop.simps)
    then show ?thesis by blast
  next
    case literal
    obtain b where "mg_match_loop z s p (Suc i) (Suc j) ni nj = Some b"
      using IH [OF match_literal_step [OF inv literal(1,3)] match_inv_literal [OF inv literal]] by blast
    then show ?thesis using literal
      by (subst mg_match_loop.simps) (auto simp: is_wild_def)
  next
    case wild
    obtain b where "mg_match_loop z s p (Suc i) j i (Suc j) = Some b"
      using IH [OF match_wild_step(2,1) [OF inv wild]] by blast
    then show ?thesis using wild
      by (subst mg_match_loop.simps) (auto simp: is_wild_def)
  next
    case stuck
    show ?thesis
    proof (cases "nj > 0 \<and> nj \<le> length s")
      case True
      obtain b where "mg_match_loop z s p ni nj ni nj = Some b"
        using IH [OF match_retry_step(2,1) [OF inv]] True stuck by blast
      then show ?thesis using stuck
        by (subst mg_match_loop.simps) (auto simp: is_wild_def)
    qed (use stuck in \<open>subst mg_match_loop.simps, auto simp: is_wild_def\<close>)
  qed
qed

lemma mg_match_loop_glob:
  assumes "0x2F \<notin> set s"
  shows "match_inv s p i j ni nj \<Longrightarrow> mg_match_loop z s p i j ni nj = Some (match_result s p i j ni nj)"
proof (induction "match_measure s p i j ni nj" arbitrary: i j ni nj rule: wf_induct_rule [OF wf_match_less])
  case (1 i j ni nj)
  note IH = "1.hyps" and inv = "1.prems"
  have ij: "i \<le> length p" "j \<le> length s" using inv by (auto simp: match_inv_def)
  have sl: "s ! j \<noteq> 0x2F" if "j < length s" using that assms by (metis nth_mem)
  from inv show ?case
  proof (cases rule: match_cases)
    case finished
    then show ?thesis by (simp add: mg_match_loop.simps match_result_def)
  next
    case literal
    have "mg_match_loop z s p (Suc i) (Suc j) ni nj = Some (match_result s p (Suc i) (Suc j) ni nj)"
      by (rule IH [OF match_literal_step [OF inv literal(1,3)] match_inv_literal [OF inv literal]])
    moreover have "glob (drop i p) (drop j s) = glob (drop (Suc i) p) (drop (Suc j) s)"
      using literal by (simp add: drop_eq_Cons)
    ultimately show ?thesis using literal
      by (subst mg_match_loop.simps) (auto simp: match_result_def is_wild_def)
  next
    case wild
    have rest: "mg_match_loop z s p (Suc i) j i (Suc j) = Some (match_result s p (Suc i) j i (Suc j))"
      by (rule IH [OF match_wild_step(2,1) [OF inv wild]])
    have "match_result s p (Suc i) j i (Suc j) = glob (drop i p) (drop j s)"
      using wild ij sl by (cases "j < length s") (auto simp: match_result_def drop_eq_Cons)
    moreover have "match_result s p i j ni nj = glob (drop i p) (drop j s)"
      using match_inv_backtrack [OF inv assms wild] by (auto simp: match_result_def)
    ultimately show ?thesis using wild rest
      by (subst mg_match_loop.simps) (auto simp: is_wild_def)
  next
    case stuck
    have no: "\<not> glob (drop i p) (drop j s)"
      using stuck ij by (cases "i < length p"; cases "j < length s") (auto simp: drop_eq_Cons)
    show ?thesis
    proof (cases "nj > 0 \<and> nj \<le> length s \<and> (p ! ni = 0x23 \<or> (s @ [z]) ! j \<noteq> 0x2F)")
      case True
      have "mg_match_loop z s p ni nj ni nj = Some (match_result s p ni nj ni nj)"
        using IH [OF match_retry_step(2,1) [OF inv]] True stuck by blast
      moreover have "match_result s p ni nj ni nj = match_result s p i j ni nj"
        using no True by (auto simp: match_result_def)
      ultimately show ?thesis using stuck True
        by (subst mg_match_loop.simps) (auto simp: is_wild_def)
    next
      case False
      have "\<not> match_result s p i j ni nj"
      proof (cases "j < length s")
        case True
        then have "(s @ [z]) ! j \<noteq> 0x2F" using sl by (simp add: nth_append)
        then show ?thesis using no False by (auto simp: match_result_def)
      next
        case False
        then have "j = length s" using ij by simp
        then show ?thesis using match_inv_overrun [of s p i ni nj] inv assms no stuck
          by (auto simp: match_result_def)
      qed
      then show ?thesis using stuck False
        by (subst mg_match_loop.simps) (auto simp: is_wild_def)
    qed
  qed
qed

subsection \<open>Properties\<close>

text \<open>
  \<open>mg_strcmp\<close> is zero exactly on equal strings and \<open>mg_strcasecmp\<close> exactly on strings that are
  equal up to ASCII case, and both are antisymmetric, whatever the signedness of \<open>char\<close>.
\<close>

lemma mg_strcmp_equality:
  "(mg_strcmp sg s t = 0 \<longleftrightarrow> s = t) \<and> mg_strcmp sg t s = - mg_strcmp sg s t \<and>
   (mg_strcasecmp sg s t = 0 \<longleftrightarrow> map lower s = map lower t) \<and>
   mg_strcasecmp sg t s = - mg_strcasecmp sg s t"
  using mg_strcmp_order [of sg s t s] mg_strcasecmp_eq_0_iff [of sg s t] strcasecmp.cmp_swap [of sg t s]
  by blast

text \<open>
  C36: \<open>mg_str_to_num\<close> in base 2, 10 or 16 accepts exactly the non-empty strings of digits of that
  base whose value fits the destination width, and stores that value: no overflow is missed and
  no representable number is refused.
\<close>

theorem mg_str_to_num_iff:
  assumes "base \<in> {2, 10, 16}" "w \<in> {1, 2, 4, 8}"
  shows "mg_str_to_num s base w = Some v \<longleftrightarrow>
    s \<noteq> [] \<and> (\<forall>c \<in> set s. base_digit base c \<noteq> None) \<and>
    v = num_value (base_digit base) base 0 s \<and> v \<le> num_max w"
  using assms by (rule mg_str_to_num_iff_aux)

theorem mg_str_to_num_iff_witness:
  "mg_str_to_num (cstr ''ff'') 16 1 = Some 255 \<and> mg_str_to_num (cstr ''100'') 16 1 \<noteq> Some 256"
  using mg_str_to_num_iff [of 16 1 "cstr ''ff''" 255] mg_str_to_num_iff [of 16 1 "cstr ''100''" 256]
  by (simp add: base_digit_def digit16_def is_digit_def num_value_def num_max_def)

text \<open>
  \<open>mg_to_size_t\<close> accepts exactly blanks, a non-empty run of decimal digits and blanks, and
  returns the value of the digits, provided it is below 2 to the 64; in particular a sign, an
  inner blank or trailing garbage in a Content-Length is refused.
\<close>

lemma mg_to_size_t_iff:
  "mg_to_size_t str = Some v \<longleftrightarrow>
     (\<exists>pre ds post. str = pre @ ds @ post \<and> list_all is_blank pre \<and> list_all is_blank post \<and>
        ds \<noteq> [] \<and> list_all is_digit ds \<and> v = num_value digit10 10 0 ds \<and> v < 2 ^ 64)"
  unfolding list_all_iff
proof
  assume "mg_to_size_t str = Some v"
  from mg_to_size_t_SomeD [OF this]
  show "\<exists>pre ds post. str = pre @ ds @ post \<and> (\<forall>c \<in> set pre. is_blank c) \<and> (\<forall>c \<in> set post. is_blank c) \<and>
    ds \<noteq> [] \<and> (\<forall>c \<in> set ds. is_digit c) \<and> v = num_value digit10 10 0 ds \<and> v < 2 ^ 64" .
qed (elim exE conjE, hypsubst, rule mg_to_size_t_SomeI, simp_all)

text \<open>
  \<open>mg_match\<close> terminates on every pattern and string, whatever byte follows the string in
  memory.
\<close>

lemma mg_match_total: "\<exists>b. mg_match z s p = Some b"
  unfolding mg_match_def by (rule mg_match_loop_total) (simp add: match_inv_def)

text \<open>
  C35: On strings without a slash the greedy one-level backtracking of \<open>mg_match\<close> decides glob
  matching exactly, and the byte it reads past the end of the string never changes the answer.
\<close>

theorem mg_match_glob:
  assumes "0x2F \<notin> set s"
  shows "mg_match z s p = Some (glob p s)"
  using mg_match_loop_glob [OF assms, of p 0 0 0 0 z]
  by (simp add: mg_match_def match_inv_def match_result_def)

theorem mg_match_glob_witness:
  "mg_match 0x2F (cstr ''br, gzip'') (cstr ''*gzip*'') = Some (glob (cstr ''*gzip*'') (cstr ''br, gzip''))"
  by (rule mg_match_glob) simp

text \<open>
  With slashes the answer can be wrong: the retry tests the character at the mismatch instead of
  the one the star is about to absorb, so a star can swallow a slash.
\<close>

lemma mg_match_star_swallows_slash:
  "mg_match 0 (cstr ''x/aa/ab'') (cstr ''*/ab'') = Some True \<and>
   \<not> glob (cstr ''*/ab'') (cstr ''x/aa/ab'')"
proof
  show "mg_match 0 (cstr ''x/aa/ab'') (cstr ''*/ab'') = Some True"
    by (simp add: mg_match_def mg_match_loop.simps)
  show "\<not> glob (cstr ''*/ab'') (cstr ''x/aa/ab'')" by (simp add: is_wild_def)
qed

end
