(* ===== verification/Mg_Iobuf.thy ===== *)
theory Mg_Iobuf
  imports Prelude
begin

text \<open>
  The growable IO buffers of mongoose (\<^verbatim>\<open>src/iobuf.c\<close> in \<^verbatim>\<open>mongoose.c\<close>), which hold the bytes a
  connection has received and those it is to send.

  A buffer is its allocation (\<open>None\<close> is \<^verbatim>\<open>NULL\<close>) with the three sizes. The allocator is a parameter:
  \<open>ok n\<close> says that \<^verbatim>\<open>mg_calloc(1, n)\<close> succeeds. Sizes are \<^verbatim>\<open>size_t\<close> values of an LP64 target, as
  natural numbers with the wrap-around written out by \<open>szt\<close>.
\<close>

subsection \<open>Code\<close>

definition szt :: "nat \<Rightarrow> nat" where
  "szt n = n mod 2 ^ 64"

record mg_iobuf =
  buf :: "byte list option"
  size :: nat
  len :: nat
  align :: nat

definition roundup :: "nat \<Rightarrow> nat \<Rightarrow> nat" where
  "roundup n a = (if a = 0 then n else szt (n + a - 1) div a * a)"

text \<open>
  \<open>mg_iobuf_resize\<close> with its result, \<open>None\<close> when \<open>memmove\<close> reads outside of the old allocation.
\<close>

definition mg_iobuf_resize :: "(nat \<Rightarrow> bool) \<Rightarrow> mg_iobuf \<Rightarrow> nat \<Rightarrow> (mg_iobuf \<times> bool) option" where
  "mg_iobuf_resize ok io n =
     (let n = roundup n (align io) in
      if n = 0 then Some (io\<lparr>buf := None, size := 0, len := 0\<rparr>, True)
      else if n \<noteq> size io then
        (if ok n then
           (let l = min n (len io) in
            case buf io of
              None \<Rightarrow> Some (io\<lparr>buf := Some (replicate n 0), size := n\<rparr>, True)
            | Some b \<Rightarrow> do {
                old \<leftarrow> rd_bytes b 0 l;
                p \<leftarrow> wr_bytes (replicate n 0) 0 old;
                Some (io\<lparr>buf := Some p, size := n\<rparr>, True) })
         else Some (io, False))
      else Some (io, True))"

definition mg_iobuf_init :: "(nat \<Rightarrow> bool) \<Rightarrow> nat \<Rightarrow> nat \<Rightarrow> (mg_iobuf \<times> bool) option" where
  "mg_iobuf_init ok n a = mg_iobuf_resize ok \<lparr>buf = None, size = 0, len = 0, align = a\<rparr> n"

text \<open>\<open>memmove\<close> inside the buffer; moving nothing is defined for any pointer.\<close>

definition io_move :: "byte list option \<Rightarrow> nat \<Rightarrow> nat \<Rightarrow> nat \<Rightarrow> byte list option option" where
  "io_move b dst src n = (if n = 0 then Some b else do {
     xs \<leftarrow> b; vs \<leftarrow> rd_bytes xs src n; ys \<leftarrow> wr_bytes xs dst vs; Some (Some ys) })"

definition io_write :: "byte list option \<Rightarrow> nat \<Rightarrow> byte list \<Rightarrow> byte list option option" where
  "io_write b dst vs = (if vs = [] then Some b else do {
     xs \<leftarrow> b; ys \<leftarrow> wr_bytes xs dst vs; Some (Some ys) })"

text \<open>
  \<open>mg_iobuf_add\<close>; \<open>data\<close> is the caller's memory, \<open>None\<close> for \<^verbatim>\<open>NULL\<close>. The steps follow the code: resize,
  make room at \<open>ofs\<close>, copy, account.
\<close>

definition io_shift :: "mg_iobuf \<Rightarrow> nat \<Rightarrow> nat \<Rightarrow> byte list option option" where
  "io_shift io ofs n =
     (if ofs < len io then io_move (buf io) (ofs + n) ofs (len io - ofs) else Some (buf io))"

definition io_copy :: "byte list option \<Rightarrow> nat \<Rightarrow> byte list option \<Rightarrow> nat \<Rightarrow> byte list option option" where
  "io_copy b ofs data n = (case data of
     None \<Rightarrow> Some b
   | Some d \<Rightarrow> (case rd_bytes d 0 n of None \<Rightarrow> None | Some vs \<Rightarrow> io_write b ofs vs))"

definition mg_iobuf_add ::
  "(nat \<Rightarrow> bool) \<Rightarrow> mg_iobuf \<Rightarrow> nat \<Rightarrow> byte list option \<Rightarrow> nat \<Rightarrow> (mg_iobuf \<times> nat) option" where
  "mg_iobuf_add ok io ofs data n = do {
     let new_size = roundup (szt (len io + n)) (align io);
     (io1, _) \<leftarrow> mg_iobuf_resize ok io new_size;
     let n1 = (if new_size \<noteq> size io1 then 0 else n);
     b2 \<leftarrow> io_shift io1 ofs n1;
     b3 \<leftarrow> io_copy b2 ofs data n1;
     let l = (if ofs > len io1 then ofs else len io1);
     Some (io1\<lparr>buf := b3, len := szt (l + n1)\<rparr>, n1) }"

text \<open>\<open>mg_iobuf_del\<close>: its guards, then \<open>memmove\<close> and \<open>mg_bzero\<close>.\<close>

definition mg_iobuf_del :: "mg_iobuf \<Rightarrow> nat \<Rightarrow> nat \<Rightarrow> (mg_iobuf \<times> nat) option" where
  "mg_iobuf_del io ofs n = do {
     let ofs = (if ofs > len io then len io else ofs);
     let n = (if szt (ofs + n) > len io then len io - ofs else n);
     b1 \<leftarrow> (case buf io of None \<Rightarrow> Some None
            | Some b \<Rightarrow> io_move (Some b) ofs (szt (ofs + n)) (szt (2 ^ 64 + len io - ofs - n)));
     b2 \<leftarrow> (case b1 of None \<Rightarrow> Some None
            | Some b \<Rightarrow> io_write (Some b) (len io - n) (replicate n 0));
     Some (io\<lparr>buf := b2, len := szt (2 ^ 64 + len io - n)\<rparr>, n) }"

definition mg_iobuf_free :: "(nat \<Rightarrow> bool) \<Rightarrow> mg_iobuf \<Rightarrow> mg_iobuf option" where
  "mg_iobuf_free ok io = map_option fst (mg_iobuf_resize ok io 0)"

text \<open>\<open>mg_pfn_iobuf_private\<close>, which the printf family appends characters with.\<close>

definition mg_pfn_iobuf_private :: "(nat \<Rightarrow> bool) \<Rightarrow> byte \<Rightarrow> mg_iobuf \<Rightarrow> bool \<Rightarrow> mg_iobuf option" where
  "mg_pfn_iobuf_private ok ch io0 expand = do {
     io \<leftarrow> (if expand \<and> szt (len io0 + 2) > size io0
            then map_option fst (mg_iobuf_resize ok io0 (szt (len io0 + 2))) else Some io0);
     if szt (len io + 2) \<le> size io then do {
       b \<leftarrow> buf io; b1 \<leftarrow> wr b (len io) ch; b2 \<leftarrow> wr b1 (len io + 1) 0;
       Some (io\<lparr>buf := Some b2, len := len io + 1\<rparr>) }
     else if len io < size io then do {
       b \<leftarrow> buf io; b1 \<leftarrow> wr b (len io) 0;
       Some (io\<lparr>buf := Some b1, len := len io + 1\<rparr>) }
     else Some io }"

subsection \<open>Invariant and contents\<close>

text \<open>
  The allocation has \<open>size\<close> bytes, the first \<open>len\<close> of them are the contents. \<open>fits\<close>: rounding \<open>n\<close>
  up to the alignment does not wrap around.
\<close>

definition iobuf_ok :: "mg_iobuf \<Rightarrow> bool" where
  "iobuf_ok io \<longleftrightarrow> len io \<le> size io \<and> size io < 2 ^ 64 \<and>
     (case buf io of None \<Rightarrow> size io = 0 | Some b \<Rightarrow> length b = size io)"

definition bytes_of :: "mg_iobuf \<Rightarrow> byte list" where
  "bytes_of io = (case buf io of None \<Rightarrow> [] | Some b \<Rightarrow> take (len io) b)"

definition fits :: "nat \<Rightarrow> mg_iobuf \<Rightarrow> bool" where
  "fits n io \<longleftrightarrow> n + 3 * align io < 2 ^ 64"

lemma szt_small [simp]: "n < 18446744073709551616 \<Longrightarrow> szt n = n"
  by (simp add: szt_def)

lemma iobuf_okD:
  assumes "iobuf_ok io"
  shows "len io \<le> size io" "size io < 18446744073709551616" "length (bytes_of io) = len io"
    "buf io = None \<Longrightarrow> size io = 0" "buf io = Some b \<Longrightarrow> length b = size io"
  using assms by (auto simp: iobuf_ok_def bytes_of_def split: option.splits)

lemma roundup_div:
  fixes a n :: nat
  assumes "a > 0"
  shows "n \<le> (n + a - 1) div a * a" "(n + a - 1) div a * a < n + a"
    "((n + a - 1) div a * a + a - 1) div a = (n + a - 1) div a"
proof -
  have "(n + a - 1) mod a < a" using assms by simp
  moreover have "(n + a - 1) div a * a + (n + a - 1) mod a = n + a - 1" by simp
  ultimately show "n \<le> (n + a - 1) div a * a" "(n + a - 1) div a * a < n + a"
    using assms by linarith+
  have "(q * a + a - 1) div a = q" for q
    by (rule div_nat_eqI) (use assms in \<open>simp_all add: algebra_simps\<close>)
  then show "((n + a - 1) div a * a + a - 1) div a = (n + a - 1) div a" by blast
qed

lemma roundup_props:
  assumes "n + 2 * a < 2 ^ 64"
  shows "n \<le> roundup n a" "roundup n a \<le> n + a" "roundup (roundup n a) a = roundup n a"
    "roundup n a = 0 \<longleftrightarrow> n = 0"
proof -
  consider "a = 0" | "a > 0" by blast
  then have "n \<le> roundup n a \<and> roundup n a \<le> n + a \<and> roundup (roundup n a) a = roundup n a
    \<and> (n = 0 \<longrightarrow> roundup n a = 0)"
  proof cases
    case 2
    then have e: "roundup n a = (n + a - 1) div a * a" using assms by (simp add: roundup_def)
    have "roundup n a + a - 1 < 2 ^ 64" using roundup_div(2) [OF 2, of n] assms e by simp
    then have "roundup (roundup n a) a = (roundup n a + a - 1) div a * a"
      using 2 by (simp add: roundup_def [of "roundup n a"])
    moreover have "n = 0 \<longrightarrow> roundup n a = 0" using 2 unfolding e by simp
    ultimately show ?thesis using roundup_div [OF 2, of n] by (simp add: e)
  qed (simp add: roundup_def)
  then show "n \<le> roundup n a" "roundup n a \<le> n + a" "roundup (roundup n a) a = roundup n a"
    and "roundup n a = 0 \<longleftrightarrow> n = 0"
    by auto
qed

subsection \<open>Resizing\<close>

text \<open>
  Growing keeps the contents; when the allocator fails nothing changes.
\<close>

lemma mg_iobuf_resize_grow:
  assumes io: "iobuf_ok io" and fits: "n + 2 * align io < 2 ^ 64" and n: "len io \<le> n"
  shows "\<exists>io' b. mg_iobuf_resize ok io n = Some (io', b) \<and> iobuf_ok io' \<and> bytes_of io' = bytes_of io
    \<and> align io' = align io \<and> len io' = len io \<and> (if b then size io' = roundup n (align io) else io' = io)
    \<and> (ok (roundup n (align io)) \<longrightarrow> b)"
proof -
  define m where "m = roundup n (align io)"
  have m: "n \<le> m" "m < 2 ^ 64" "m = 0 \<longleftrightarrow> n = 0"
    using roundup_props [of n "align io"] fits by (auto simp: m_def)
  note okD = iobuf_okD [OF io]
  consider "m = 0" | "m \<noteq> 0" "m = size io \<or> \<not> ok m" | "m \<noteq> 0" "m \<noteq> size io" "ok m" by blast
  then show ?thesis
  proof cases
    case 1
    then have z: "n = 0" "len io = 0" "roundup 0 (align io) = 0" using n m by (auto simp: m_def)
    then show ?thesis
      by (auto simp: mg_iobuf_resize_def Let_def iobuf_ok_def bytes_of_def split: option.split)
  next
    case 2
    then show ?thesis using io
      by (auto simp: mg_iobuf_resize_def Let_def simp flip: m_def)
  next
    case 3
    have l: "min m (len io) = len io" using n m by simp
    show ?thesis
    proof (cases "buf io")
      case None
      then have "len io = 0" using okD by simp
      then show ?thesis using 3 None m
        by (auto simp: mg_iobuf_resize_def Let_def iobuf_ok_def bytes_of_def simp flip: m_def)
    next
      case (Some b)
      then have "len io \<le> length b" using okD by simp
      then show ?thesis using 3 Some m n l
        by (auto simp: mg_iobuf_resize_def Let_def iobuf_ok_def bytes_of_def min_def simp flip: m_def)
    qed
  qed
qed

subsection \<open>Inserting and deleting\<close>

text \<open>The two memory writes of \<open>mg_iobuf_add\<close> when the room is there.\<close>

lemma io_insert_None:
  assumes "iobuf_ok io" "buf io = None" "ofs \<le> len io" "len io + n \<le> size io"
  shows "io_shift io ofs n = Some None \<and> io_copy None ofs (Some d) n = Some None \<and> n = 0 \<and> len io = 0"
proof -
  have "size io = 0" using iobuf_okD(4) [OF assms(1,2)] .
  then have "n = 0" "len io = 0" "ofs = 0" using assms by simp_all
  then show ?thesis by (simp add: io_shift_def io_copy_def io_write_def assms(2))
qed

lemma io_shift_Some:
  assumes b: "buf io = Some b" "len io \<le> length b" and room: "ofs \<le> len io" "len io + n \<le> length b"
  shows "\<exists>b2. io_shift io ofs n = Some (Some b2) \<and> length b2 = length b \<and> take ofs b2 = take ofs b \<and>
    take (len io - ofs) (drop (ofs + n) b2) = take (len io - ofs) (drop ofs b)"
proof (cases "ofs < len io")
  case True
  define xs where "xs = take (len io - ofs) (drop ofs b)"
  have xs: "length xs = len io - ofs" using b room by (simp add: xs_def)
  have "io_shift io ofs n = Some (Some (take (ofs + n) b @ xs @ drop (len io + n) b))"
    using True b room xs by (simp add: io_shift_def io_move_def add.commute flip: xs_def)
  moreover have "min ofs (ofs + n) = ofs" by simp
  ultimately show ?thesis using b room xs by (auto simp: min_def simp flip: xs_def)
next
  case False
  then show ?thesis using assms by (simp add: io_shift_def)
qed

lemma io_copy_Some:
  assumes "n \<le> length d" "ofs + n \<le> length b"
  shows "io_copy (Some b) ofs (Some d) n = Some (Some (take ofs b @ take n d @ drop (ofs + n) b))"
  using assms by (cases n) (auto simp: io_copy_def io_write_def min_def)

lemma take_mid:
  "length xs = k \<Longrightarrow> length ys = n \<Longrightarrow> k \<le> l \<Longrightarrow> take (l + n) (xs @ ys @ zs) = xs @ ys @ take (l - k) zs"
  by auto

lemma io_insert_ok:
  assumes io: "iobuf_ok io" and ofs: "ofs \<le> len io" and room: "len io + n \<le> size io" and d: "n \<le> length d"
  shows "\<exists>b2 b3. io_shift io ofs n = Some b2 \<and> io_copy b2 ofs (Some d) n = Some b3 \<and>
    iobuf_ok (io\<lparr>buf := b3, len := len io + n\<rparr>) \<and>
    bytes_of (io\<lparr>buf := b3, len := len io + n\<rparr>) = take ofs (bytes_of io) @ take n d @ drop ofs (bytes_of io)"
proof (cases "buf io")
  case None
  then have n: "io_shift io ofs n = Some None" "io_copy None ofs (Some d) n = Some None" "n = 0" "len io = 0"
    using io_insert_None [OF io None ofs room] by blast+
  show ?thesis
    by (rule exI [of _ None], rule exI [of _ None])
      (use n io None in \<open>simp add: bytes_of_def iobuf_ok_def\<close>)
next
  case (Some b)
  then have b: "length b = size io" "len io \<le> length b" using iobuf_okD [OF io] by simp_all
  obtain b2 where b2: "io_shift io ofs n = Some (Some b2)" "length b2 = length b" "take ofs b2 = take ofs b"
      "take (len io - ofs) (drop (ofs + n) b2) = take (len io - ofs) (drop ofs b)"
    using io_shift_Some [OF Some b(2) ofs] room b by auto
  define b3 where "b3 = take ofs b2 @ take n d @ drop (ofs + n) b2"
  have c: "io_copy (Some b2) ofs (Some d) n = Some (Some b3)"
    unfolding b3_def by (rule io_copy_Some) (use d b b2 ofs room in simp_all)
  have l: "length b3 = size io" using b b2 ofs room d by (simp add: b3_def)
  have "take (len io + n) b3 = take ofs b2 @ take n d @ take (len io - ofs) (drop (ofs + n) b2)"
    unfolding b3_def by (rule take_mid) (use b b2 ofs room d in simp_all)
  also have "\<dots> = take ofs (take (len io) b) @ take n d @ drop ofs (take (len io) b)"
    using b2 ofs by (simp add: drop_take min_def)
  finally have "iobuf_ok (io\<lparr>buf := Some b3, len := len io + n\<rparr>) \<and>
      bytes_of (io\<lparr>buf := Some b3, len := len io + n\<rparr>) = take ofs (bytes_of io) @ take n d @ drop ofs (bytes_of io)"
    using io room l Some by (simp add: iobuf_ok_def bytes_of_def)
  then show ?thesis using b2(1) c by blast
qed

text \<open>The resize at the head of \<open>mg_iobuf_add\<close>: \<open>k\<close> is the room it made.\<close>

lemma mg_iobuf_add_resize:
  assumes io: "iobuf_ok io" and fits: "fits (len io + n) io" and m: "m = roundup (len io + n) (align io)"
  shows "\<exists>io1 r k. mg_iobuf_resize ok io m = Some (io1, r) \<and>
    iobuf_ok io1 \<and> bytes_of io1 = bytes_of io \<and> align io1 = align io \<and> len io1 = len io \<and>
    (if m \<noteq> size io1 then 0 else n) = k \<and> len io + k \<le> size io1 \<and> (k = n \<or> k = 0 \<and> \<not> ok m)"
proof -
  have f: "len io + n + 3 * align io < 2 ^ 64" using fits unfolding fits_def .
  then have "len io + n + 2 * align io < 2 ^ 64" by linarith
  note p = roundup_props [OF this, folded m]
  have m: "len io + n \<le> m" "m + 2 * align io < 2 ^ 64" "roundup m (align io) = m"
    using p(1) f p(2) p(3) by linarith+
  obtain io1 r where r: "mg_iobuf_resize ok io m = Some (io1, r)" "iobuf_ok io1" "bytes_of io1 = bytes_of io"
      "align io1 = align io" "len io1 = len io" "if r then size io1 = m else io1 = io" "ok m \<longrightarrow> r"
    using mg_iobuf_resize_grow [OF io m(2) le_trans [OF le_add1 m(1)], of ok, unfolded m(3)]
    by (elim exE conjE) (rule that)
  have "len io + (if m \<noteq> size io1 then 0 else n) \<le> size io1"
    using m(1) r(5) iobuf_okD(1) [OF r(2)] by auto
  moreover have "(if m \<noteq> size io1 then 0 else n) = n \<or> (if m \<noteq> size io1 then 0 else n) = 0 \<and> \<not> ok m"
  proof (cases r)
    case True then show ?thesis using r(6) by simp
  next
    case False then have "\<not> ok m" using r(7) by blast
    then show ?thesis by simp
  qed
  ultimately show ?thesis using r(1-5) by (intro exI conjI) (assumption | rule refl)+
qed

lemma mg_iobuf_add_ok:
  assumes "iobuf_ok io" "fits (len io + length d) io" "ofs \<le> len io"
  shows "\<exists>io' k. mg_iobuf_add ok io ofs (Some d) (length d) = Some (io', k) \<and> iobuf_ok io' \<and>
    align io' = align io \<and>
    bytes_of io' = (if k = 0 then bytes_of io else take ofs (bytes_of io) @ d @ drop ofs (bytes_of io)) \<and>
    (k = length d \<or> k = 0 \<and> \<not> ok (roundup (len io + length d) (align io)))"
proof -
  define m where m: "m = roundup (len io + length d) (align io)"
  obtain io1 r k where s: "mg_iobuf_resize ok io m = Some (io1, r)"
    "iobuf_ok io1" "bytes_of io1 = bytes_of io" "align io1 = align io" "len io1 = len io"
    "(if m \<noteq> size io1 then 0 else length d) = k" "len io + k \<le> size io1"
    "k = length d \<or> k = 0 \<and> \<not> ok m"
    using mg_iobuf_add_resize [OF assms(1,2) m] by blast
  have lt: "len io + length d < 18446744073709551616" "k \<le> length d" using assms(2) s(8) by (auto simp: fits_def)
  obtain b2 b3 where b: "io_shift io1 ofs k = Some b2" "io_copy b2 ofs (Some d) k = Some b3"
      "iobuf_ok (io1\<lparr>buf := b3, len := len io + k\<rparr>)"
      "bytes_of (io1\<lparr>buf := b3, len := len io + k\<rparr>) = take ofs (bytes_of io) @ take k d @ drop ofs (bytes_of io)"
    using io_insert_ok [OF s(2), of ofs k d] assms(3) s lt by auto
  have "mg_iobuf_add ok io ofs (Some d) (length d) = Some (io1\<lparr>buf := b3, len := len io + k\<rparr>, k)"
    using lt s(5) assms(3) b(1,2) by (simp add: mg_iobuf_add_def Let_def s(1) s(6) flip: m)
  moreover have "take ofs (bytes_of io) @ take k d @ drop ofs (bytes_of io) =
      (if k = 0 then bytes_of io else take ofs (bytes_of io) @ d @ drop ofs (bytes_of io))"
    using s(8) by auto
  ultimately show ?thesis using b(3,4) s(4,8) unfolding m by (intro exI conjI) (assumption | simp)+
qed

text \<open>
  \<open>mg_iobuf_add\<close> at an offset inside the contents inserts all the data there, growing the buffer,
  or changes nothing and returns 0 when the allocator fails; it never writes outside of the
  allocation.
\<close>

lemma mg_iobuf_add_inserts:
  assumes "iobuf_ok io" "fits (len io + length d) io" "ofs \<le> len io"
  shows "\<exists>io' k. mg_iobuf_add ok io ofs (Some d) (length d) = Some (io', k) \<and> iobuf_ok io' \<and>
    align io' = align io \<and>
    bytes_of io' = (if k = 0 then bytes_of io else take ofs (bytes_of io) @ d @ drop ofs (bytes_of io)) \<and>
    (k = length d \<or> k = 0 \<and> \<not> ok (roundup (len io + length d) (align io)))"
  using assms by (rule mg_iobuf_add_ok)

lemma mg_iobuf_add_inserts_example:
  "\<exists>io' k. mg_iobuf_add (\<lambda>n. True) \<lparr>buf = Some [97, 99, 0, 0], size = 4, len = 2, align = 4\<rparr> 1
      (Some [98, 98, 98]) (length [98, 98, 98 :: byte]) = Some (io', k) \<and> bytes_of io' = [97, 98, 98, 98, 99]"
proof -
  let ?io = "\<lparr>buf = Some [97, 99, 0, 0], size = 4, len = 2, align = 4\<rparr>"
  have "iobuf_ok ?io" "fits (len ?io + length [98, 98, 98 :: byte]) ?io" "1 \<le> len ?io"
    by (simp_all add: iobuf_ok_def fits_def)
  then obtain io' k where "mg_iobuf_add (\<lambda>n. True) ?io 1 (Some [98, 98, 98]) (length [98, 98, 98 :: byte]) = Some (io', k)"
      "bytes_of io' = (if k = 0 then bytes_of ?io else take 1 (bytes_of ?io) @ [98, 98, 98] @ drop 1 (bytes_of ?io))"
      "k = 3"
    using mg_iobuf_add_inserts [of ?io "[98, 98, 98]" 1 "\<lambda>n. True"] by force
  then show ?thesis by (simp add: bytes_of_def)
qed

lemma mg_iobuf_del_guards:
  fixes l ofs n :: nat
  assumes l: "l < 2 ^ 64" and "ofs + n < 2 ^ 64" and o': "o' = min ofs l" and k: "k = min n (l - o')"
  shows "(if ofs > l then l else ofs) = o'" "(if szt (o' + n) > l then l - o' else n) = k"
    "szt (o' + k) = o' + k" "szt (2 ^ 64 + l - o' - k) = l - o' - k"
    "szt (2 ^ 64 + l - k) = l - k" "o' + k \<le> l"
proof -
  show "(if ofs > l then l else ofs) = o'" by (simp add: o')
  have le: "o' \<le> l" "o' \<le> ofs" "k \<le> l - o'" by (simp_all add: o' k)
  then show kl: "o' + k \<le> l" by linarith
  have "o' + n < 2 ^ 64" using assms(2) le by linarith
  then have "szt (o' + n) = o' + n" by (simp add: szt_def)
  moreover have "(if o' + n > l then l - o' else n) = k" using le(1) by (auto simp: k min_def)
  ultimately show "(if szt (o' + n) > l then l - o' else n) = k" by (simp only:)
  have w: "szt (2 ^ 64 + d) = d" if "d \<le> l" for d using l that by (simp add: szt_def)
  have "2 ^ 64 + l - o' - k = 2 ^ 64 + (l - o' - k)" "2 ^ 64 + l - k = 2 ^ 64 + (l - k)"
    using kl by linarith+
  then show "szt (2 ^ 64 + l - o' - k) = l - o' - k" "szt (2 ^ 64 + l - k) = l - k"
    using w by (metis diff_le_self le_trans)+
  have "o' + k < 2 ^ 64" using kl l by linarith
  then show "szt (o' + k) = o' + k" by (simp add: szt_def)
qed

lemma mg_iobuf_del_ok:
  assumes "iobuf_ok io" "ofs + n < 2 ^ 64"
  shows "\<exists>io'. mg_iobuf_del io ofs n = Some (io', length (bytes_of io) - length (bytes_of io')) \<and> iobuf_ok io' \<and>
    align io' = align io \<and> bytes_of io' = take ofs (bytes_of io) @ drop (ofs + n) (bytes_of io)"
proof -
  note okD = iobuf_okD [OF assms(1)]
  define o' where "o' = min ofs (len io)"
  define k where "k = min n (len io - o')"
  have "len io < 2 ^ 64" using okD(1,2) by simp
  note g = mg_iobuf_del_guards [OF this assms(2) o'_def k_def]
  show ?thesis
  proof (cases "buf io")
    case None
    then have "len io = 0" using okD by simp
    moreover then have "o' = 0" "k = 0" by (simp_all add: o'_def k_def)
    ultimately show ?thesis using None assms(1) g(1,2)
      by (auto simp: mg_iobuf_del_def Let_def bytes_of_def iobuf_ok_def szt_def)
  next
    case (Some b)
    then have b: "length b = size io" "len io \<le> length b" using okD by simp_all
    define xs where "xs = take (len io - o' - k) (drop (o' + k) b)"
    define b1 where "b1 = take o' b @ xs @ drop (len io - k) b"
    have xs: "length xs = len io - o' - k" using b g(6) by (simp add: xs_def)
    have e: "o' + (len io - o' - k) = len io - k" using g(6) by linarith
    have m: "io_move (Some b) o' (o' + k) (len io - o' - k) = Some (Some b1)"
    proof (cases "len io - o' - k = 0")
      case True
      then have "o' = len io - k" using g(6) by linarith
      then show ?thesis using True xs by (simp add: io_move_def b1_def)
    next
      case False
      then show ?thesis using b g(6) xs by (simp add: io_move_def b1_def e xs_def)
    qed
    have b1: "length b1 = length b" using b g(6) xs by (simp add: b1_def)
    define b2 where "b2 = take (len io - k) b1 @ replicate k 0 @ drop (len io) b1"
    have w: "io_write (Some b1) (len io - k) (replicate k 0) = Some (Some b2)"
      using b b1 g(6) by (auto simp: io_write_def b2_def)
    have "mg_iobuf_del io ofs n = Some (io\<lparr>buf := Some b2, len := len io - k\<rparr>, k)"
      by (simp only: mg_iobuf_del_def Let_def g(1-5) Some option.case m w bind.bind_lunit)
    moreover have "take (len io - k) b2 = take o' b @ xs"
      using b b1 g(6) xs by (simp add: b2_def b1_def)
    moreover have "take o' b @ xs = take ofs (take (len io) b) @ drop (ofs + n) (take (len io) b)"
    proof -
      have "take o' b = take ofs (take (len io) b)" by (simp add: o'_def)
      moreover have "xs = drop (ofs + n) (take (len io) b)"
        by (auto simp: xs_def drop_take o'_def k_def min_def)
      ultimately show ?thesis by simp
    qed
    moreover have "length b2 = size io" using b b1 g(6) by (simp add: b2_def)
    moreover define io' where "io' = io\<lparr>buf := Some b2, len := len io - k\<rparr>"
    ultimately have r: "mg_iobuf_del io ofs n = Some (io', k)" "iobuf_ok io'" "align io' = align io"
        "bytes_of io' = take ofs (bytes_of io) @ drop (ofs + n) (bytes_of io)"
      using okD(1,2) Some by (simp_all add: iobuf_ok_def bytes_of_def)
    have "length (bytes_of io) - length (bytes_of io') = k"
      using okD(3) iobuf_okD(3) [OF r(2)] g(6) by (simp add: io'_def)
    then show ?thesis using r by blast
  qed
qed

text \<open>
  \<open>mg_iobuf_del\<close> removes exactly the part of the given range that lies in the contents, keeps
  the bytes around it, and stays inside the allocation.
\<close>

lemma mg_iobuf_del_removes:
  assumes "iobuf_ok io" "ofs + n < 2 ^ 64"
  shows "\<exists>io'. mg_iobuf_del io ofs n = Some (io', length (bytes_of io) - length (bytes_of io')) \<and> iobuf_ok io' \<and>
    align io' = align io \<and> bytes_of io' = take ofs (bytes_of io) @ drop (ofs + n) (bytes_of io)"
  using assms by (rule mg_iobuf_del_ok)

lemma mg_iobuf_del_removes_example:
  "\<exists>io' k. mg_iobuf_del \<lparr>buf = Some [97, 98, 99, 0], size = 4, len = 3, align = 4\<rparr> 0 2 = Some (io', k)
     \<and> bytes_of io' = [99]"
proof -
  let ?io = "\<lparr>buf = Some [97, 98, 99, 0], size = 4, len = 3, align = 4\<rparr>"
  have "iobuf_ok ?io" by (simp add: iobuf_ok_def)
  then obtain io' where "mg_iobuf_del ?io 0 2 = Some (io', length (bytes_of ?io) - length (bytes_of io'))"
      "bytes_of io' = take 0 (bytes_of ?io) @ drop (0 + 2) (bytes_of ?io)"
    using mg_iobuf_del_removes [of ?io 0 2] by auto
  then show ?thesis by (simp add: bytes_of_def)
qed

subsection \<open>The interface the connection code uses\<close>

text \<open>
  A connection appends to the end of its buffers (\<open>mg_send\<close>, \<open>read_conn\<close>) and consumes from their
  front (\<open>write_conn\<close>, the protocol handlers). \<open>byte_stream\<close> is that contract: \<open>put\<close> may fail, then
  the buffer is as before.
\<close>

locale byte_stream =
  fixes wf :: "'s \<Rightarrow> bool" and contents :: "'s \<Rightarrow> byte list"
    and put :: "'s \<Rightarrow> byte list \<Rightarrow> 's option" and cut :: "'s \<Rightarrow> nat \<Rightarrow> 's option"
  assumes put_ok: "wf s \<Longrightarrow> put s xs = Some s' \<Longrightarrow> wf s' \<and> contents s' = contents s @ xs"
    and cut_ok: "wf s \<Longrightarrow> n \<le> length (contents s) \<Longrightarrow>
      \<exists>s'. cut s n = Some s' \<and> wf s' \<and> contents s' = drop n (contents s)"
begin

text \<open>Several writes, then reads: the reader sees the bytes in the order they were written.\<close>

fun puts :: "'s \<Rightarrow> byte list list \<Rightarrow> 's option" where
  "puts s [] = Some s"
| "puts s (xs # xss) = (case put s xs of None \<Rightarrow> None | Some s' \<Rightarrow> puts s' xss)"

lemma puts_contents:
  "wf s \<Longrightarrow> puts s xss = Some s' \<Longrightarrow> wf s' \<and> contents s' = contents s @ concat xss"
proof (induction xss arbitrary: s)
  case (Cons xs xss)
  then obtain s1 where "put s xs = Some s1" "puts s1 xss = Some s'" by (auto split: option.splits)
  then show ?case using Cons.IH [of s1] put_ok [OF Cons.prems(1)] by auto
qed simp

lemma fifo:
  assumes "wf s" "contents s = []" "puts s xss = Some s'" "concat xss = ys @ zs"
  shows "take (length ys) (contents s') = ys \<and>
    (\<exists>s2. cut s' (length ys) = Some s2 \<and> wf s2 \<and> contents s2 = zs)"
proof -
  have "wf s'" "contents s' = ys @ zs" using puts_contents [OF assms(1,3)] assms(2,4) by simp_all
  then show ?thesis using cut_ok [of s' "length ys"] by auto
qed

end

text \<open>
  \<open>iobuf_put\<close> is \<open>mg_iobuf_add(io, io->len, xs, n)\<close> with its result checked against \<open>n\<close>, as \<open>mg_send\<close>
  and \<open>mg_recv\<close>'s callers do; \<open>iobuf_cut\<close> is \<open>mg_iobuf_del(io, 0, n)\<close>. The sizes stay below half of
  the address space, so that no rounding wraps around.
\<close>

definition iobuf_wf :: "mg_iobuf \<Rightarrow> bool" where
  "iobuf_wf io \<longleftrightarrow> iobuf_ok io"

definition iobuf_put :: "(nat \<Rightarrow> bool) \<Rightarrow> mg_iobuf \<Rightarrow> byte list \<Rightarrow> mg_iobuf option" where
  "iobuf_put ok io xs =
     (if \<not> fits (len io + length xs) io then None
      else case mg_iobuf_add ok io (len io) (Some xs) (length xs) of
        None \<Rightarrow> None | Some (io', k) \<Rightarrow> if k = length xs then Some io' else None)"

definition iobuf_cut :: "mg_iobuf \<Rightarrow> nat \<Rightarrow> mg_iobuf option" where
  "iobuf_cut io n = map_option fst (mg_iobuf_del io 0 n)"

interpretation iobuf: byte_stream iobuf_wf bytes_of "iobuf_put ok" iobuf_cut for ok
proof unfold_locales
  fix s xs s' assume wf: "iobuf_wf s" and put: "iobuf_put ok s xs = Some s'"
  then have io: "iobuf_ok s" and f: "fits (len s + length xs) s"
    by (simp_all add: iobuf_wf_def iobuf_put_def split: if_splits)
  obtain io' k where a: "mg_iobuf_add ok s (len s) (Some xs) (length xs) = Some (io', k)" "iobuf_ok io'"
      "bytes_of io' = (if k = 0 then bytes_of s else take (len s) (bytes_of s) @ xs @ drop (len s) (bytes_of s))"
    using mg_iobuf_add_ok [OF io f order_refl, of ok] by blast
  then have "s' = io'" "k = length xs" using put f by (auto simp: iobuf_put_def split: if_splits)
  then show "iobuf_wf s' \<and> bytes_of s' = bytes_of s @ xs"
    using a iobuf_okD(3) [OF io] by (auto simp: iobuf_wf_def split: if_splits)
next
  fix s n assume wf: "iobuf_wf s" and n: "n \<le> length (bytes_of s)"
  then have io: "iobuf_ok s" by (simp add: iobuf_wf_def)
  then have "0 + n < 2 ^ 64" using n iobuf_okD(1-3) [OF io] by simp
  then show "\<exists>s'. iobuf_cut s n = Some s' \<and> iobuf_wf s' \<and> bytes_of s' = drop n (bytes_of s)"
    using mg_iobuf_del_ok [OF io, of 0 n] by (auto simp: iobuf_cut_def iobuf_wf_def)
qed


definition empty_io :: mg_iobuf where
  "empty_io = \<lparr>buf = None, size = 0, len = 0, align = 4\<rparr>"


subsection \<open>Characters of the printf family\<close>

lemma mg_pfn_iobuf_private_appends:
  assumes io: "iobuf_ok io" and f: "len io + 2 + 2 * align io < 2 ^ 64"
    and ok: "ok (roundup (len io + 2) (align io))"
  shows "\<exists>io'. mg_pfn_iobuf_private ok ch io True = Some io' \<and> iobuf_ok io' \<and> bytes_of io' = bytes_of io @ [ch]"
proof -
  have s: "szt (len io + 2) = len io + 2" using f by (simp add: szt_def)
  obtain io1 where r: "(if True \<and> szt (len io + 2) > size io
            then map_option fst (mg_iobuf_resize ok io (szt (len io + 2))) else Some io) = Some io1"
      and io1: "iobuf_ok io1" "bytes_of io1 = bytes_of io" "len io1 = len io" "len io + 2 \<le> size io1"
  proof (cases "len io + 2 > size io")
    case True
    have n: "len io \<le> len io + 2" by simp
    obtain io' b where "mg_iobuf_resize ok io (len io + 2) = Some (io', b)" "iobuf_ok io'"
        "bytes_of io' = bytes_of io" "len io' = len io" "size io' = roundup (len io + 2) (align io)"
      using mg_iobuf_resize_grow [OF io f n, of ok] ok by auto
    moreover have "len io + 2 \<le> roundup (len io + 2) (align io)" using roundup_props(1) [OF f] .
    ultimately show thesis using that [of io'] True s by simp
  next
    case False
    then show thesis using that [of io] s io by simp
  qed
  obtain b where b: "buf io1 = Some b" using io1 iobuf_okD(4) [OF io1(1)] by (cases "buf io1") auto
  then have l: "length b = size io1" "len io1 + 2 \<le> length b" using io1 iobuf_okD(5) [OF io1(1)] by simp_all
  have "mg_pfn_iobuf_private ok ch io True =
      Some (io1\<lparr>buf := Some (b[len io1 := ch, len io1 + 1 := 0]), len := len io1 + 1\<rparr>)"
    by (simp only: mg_pfn_iobuf_private_def r bind.bind_lunit)
      (use b l io1(3) s in \<open>simp add: s [simplified]\<close>)
  moreover have "take (len io1 + 1) (b[len io1 := ch, len io1 + 1 := 0]) = take (len io1) b @ [ch]"
    using l by (simp add: take_Suc_snoc)
  ultimately show ?thesis using io1 b l by (simp add: iobuf_ok_def bytes_of_def)
qed

subsection \<open>Outside of the contract\<close>

text \<open>
  \<open>mg_iobuf_add\<close> handles an offset behind the contents (it extends \<open>len\<close> to it) but does not allocate
  for it: the copy goes outside of the allocation. And a resize below the contents leaves \<open>len\<close>
  larger than \<open>size\<close>, so that \<open>mg_iobuf_del\<close> then writes behind the allocation.
\<close>

lemma mg_iobuf_add_behind_end:
  "mg_iobuf_add (\<lambda>n. True) \<lparr>buf = None, size = 0, len = 0, align = 0\<rparr> 10 (Some [65]) 1 = None"
  by (simp add: mg_iobuf_add_def mg_iobuf_resize_def roundup_def Let_def io_shift_def io_copy_def io_write_def
      wr_bytes_def)

lemma mg_iobuf_shrink_keeps_len:
  defines "io \<equiv> \<lparr>buf = Some [1, 2], size = 2, len = 4, align = 0\<rparr>"
  shows "mg_iobuf_resize (\<lambda>n. True) \<lparr>buf = Some [1, 2, 3, 4], size = 4, len = 4, align = 0\<rparr> 2 = Some (io, True)"
    and "mg_iobuf_del io 0 1 = None"
proof -
  show "mg_iobuf_resize (\<lambda>n. True) \<lparr>buf = Some [1, 2, 3, 4], size = 4, len = 4, align = 0\<rparr> 2 = Some (io, True)"
    by (simp add: mg_iobuf_resize_def roundup_def Let_def io_def rd_bytes_def wr_bytes_def)
  have "szt (2 ^ 64 + 4 - 0 - 1) = 3" by (simp add: szt_def)
  then show "mg_iobuf_del io 0 1 = None"
    by (simp add: mg_iobuf_del_def Let_def io_def io_move_def rd_bytes_def)
qed

end
