(* ===== verification/Fmt.thy ===== *)
theory Fmt
  imports Prelude
begin

text \<open>
  The conversions of C's printf family that the modelled code uses, and how long their output is:
  decimal and hexadecimal numbers, padding, and the truncation of \<^verbatim>\<open>snprintf\<close>.
\<close>

fun dec_nat :: "nat \<Rightarrow> string" where
  "dec_nat n = (if n < 10 then [char_of (48 + n)] else dec_nat (n div 10) @ [char_of (48 + n mod 10)])"

definition hex_digit :: "nat \<Rightarrow> char" where
  "hex_digit d = (if d < 10 then char_of (48 + d) else char_of (87 + d))"

fun hex_nat :: "nat \<Rightarrow> string" where
  "hex_nat n = (if n < 16 then [hex_digit n] else hex_nat (n div 16) @ [hex_digit (n mod 16)])"

declare dec_nat.simps [simp del] hex_nat.simps [simp del]

definition dec_int :: "int \<Rightarrow> string" where
  "dec_int i = (if i < 0 then CHR ''-'' # dec_nat (nat (- i)) else dec_nat (nat i))"

text \<open>\<open>%03d\<close> of a non-negative number, and \<open>%-ns\<close>.\<close>

definition pad0 :: "nat \<Rightarrow> string \<Rightarrow> string" where
  "pad0 w s = replicate (w - length s) (CHR ''0'') @ s"

definition padr :: "nat \<Rightarrow> string \<Rightarrow> string" where
  "padr w s = s @ replicate (w - length s) (CHR '' '')"

text \<open>\<open>snprintf\<close> into \<open>sz\<close> bytes keeps \<open>sz - 1\<close> characters.\<close>

definition snprintf :: "nat \<Rightarrow> string \<Rightarrow> string" where
  "snprintf sz s = take (sz - 1) s"

text \<open>The lengths of the printed numbers.\<close>

lemma length_dec_nat: "n < 10 ^ d \<Longrightarrow> 0 < d \<Longrightarrow> length (dec_nat n) \<le> d"
proof (induction n arbitrary: d rule: dec_nat.induct)
  case (1 n)
  show ?case
  proof (cases "n < 10")
    case False
    with 1(2) have "d \<noteq> 1" by auto
    then have "1 < d" using 1(3) by simp
    then obtain d' where d: "d = Suc d'" "0 < d'" by (cases d) auto
    then have "n div 10 < 10 ^ d'" using 1(2) by (simp add: less_mult_imp_div_less mult.commute)
    then have "length (dec_nat (n div 10)) \<le> d'" using 1(1) False d by blast
    then show ?thesis using False d by (simp add: dec_nat.simps [of n])
  qed (use 1 in \<open>simp add: dec_nat.simps [of n]\<close>)
qed

lemma length_hex_nat: "n < 16 ^ d \<Longrightarrow> 0 < d \<Longrightarrow> length (hex_nat n) \<le> d"
proof (induction n arbitrary: d rule: hex_nat.induct)
  case (1 n)
  show ?case
  proof (cases "n < 16")
    case False
    with 1(2) have "d \<noteq> 1" by auto
    then have "1 < d" using 1(3) by simp
    then obtain d' where d: "d = Suc d'" "0 < d'" by (cases d) auto
    then have "n div 16 < 16 ^ d'" using 1(2) by (simp add: less_mult_imp_div_less mult.commute)
    then have "length (hex_nat (n div 16)) \<le> d'" using 1(1) False d by blast
    then show ?thesis using False d by (simp add: hex_nat.simps [of n])
  qed (use 1 in \<open>simp add: hex_nat.simps [of n]\<close>)
qed

lemma length_dec_int: "\<bar>i\<bar> < 10 ^ 10 \<Longrightarrow> length (dec_int i) \<le> 11"
proof -
  assume "\<bar>i\<bar> < 10 ^ 10"
  then have "nat i < 10 ^ 10" "nat (- i) < 10 ^ 10" by auto
  then have "length (dec_nat (nat i)) \<le> 10" "length (dec_nat (nat (- i))) \<le> 10"
    using length_dec_nat by (metis zero_less_numeral)+
  then show ?thesis by (simp add: dec_int_def)
qed

lemma length_pads: "length (pad0 w s) = max w (length s)" "length (padr w s) = max w (length s)"
  by (simp_all add: pad0_def padr_def max_def)

end
