(* ===== verification/Mg_Http_Parse.thy ===== *)
theory Mg_Http_Parse
  imports Mg_Str
begin

text \<open>
  The HTTP message parser of mongoose (\<^verbatim>\<open>src/http.c\<close> in \<^verbatim>\<open>mongoose.c\<close>): \<open>mg_http_get_request_len\<close>,
  \<open>mg_http_parse\<close> with its scanners, and \<open>mg_http_get_header\<close>.

  The parser works in place: pointers are offsets into the bytes \<open>b\<close> received so far, a
  \<^verbatim>\<open>struct mg_str\<close> is an offset with a length, and every byte is read with \<open>rd\<close>, so that a read
  outside of the received bytes makes the whole result \<open>None\<close>. Lengths are \<^verbatim>\<open>size_t\<close> values; a
  message is far shorter than 2 to the 31 (\<open>MG_MAX_RECV_SIZE\<close> is 3 MB), so that \<^verbatim>\<open>int\<close> results are
  exact.
\<close>

subsection \<open>Messages\<close>

record mg_slice =
  sbuf :: nat
  slen :: nat

definition slice :: "nat \<Rightarrow> nat \<Rightarrow> mg_slice" where
  "slice s e = \<lparr>sbuf = s, slen = e - s\<rparr>"

definition text_of :: "byte list \<Rightarrow> mg_slice \<Rightarrow> byte list" where
  "text_of b v = take (slen v) (drop (sbuf v) b)"

abbreviation no_slice :: mg_slice where
  "no_slice \<equiv> \<lparr>sbuf = 0, slen = 0\<rparr>"

text \<open>The filled prefix of the \<open>headers\<close> array is the list of its entries.\<close>

record mg_http_message =
  http_method :: mg_slice
  uri :: mg_slice
  query :: mg_slice
  proto :: mg_slice
  headers :: "(mg_slice \<times> mg_slice) list"
  body :: mg_slice
  head :: mg_slice
  message :: mg_slice

abbreviation MG_MAX_HTTP_HEADERS :: nat where "MG_MAX_HTTP_HEADERS \<equiv> 30"
abbreviation SIZE_MAX :: nat where "SIZE_MAX \<equiv> 18446744073709551615"

definition hm_zero :: mg_http_message where
  "hm_zero = \<lparr>http_method = no_slice, uri = no_slice, query = no_slice, proto = no_slice, headers = [],
     body = no_slice, head = no_slice, message = no_slice\<rparr>"

subsection \<open>Scanners\<close>

definition isok :: "byte \<Rightarrow> bool" where
  "isok c \<longleftrightarrow> c = 0x0A \<or> c = 0x0D \<or> c = 0x09 \<or> c \<ge> 0x20"

text \<open>The byte \<open>i\<close> ends an empty line.\<close>

definition head_end :: "byte list \<Rightarrow> nat \<Rightarrow> bool" where
  "head_end buf i \<longleftrightarrow>
     (i > 0 \<and> buf ! i = 0x0A \<and> buf ! (i - 1) = 0x0A) \<or>
     (i > 3 \<and> buf ! i = 0x0A \<and> buf ! (i - 1) = 0x0D \<and> buf ! (i - 2) = 0x0A)"

function req_len_loop :: "byte list \<Rightarrow> nat \<Rightarrow> int" where
  "req_len_loop buf i =
     (if i < length buf then
        (if \<not> isok (buf ! i) then -1
         else if head_end buf i then int i + 1
         else req_len_loop buf (i + 1))
      else 0)"
  by pat_completeness auto
termination by (relation "measure (\<lambda>(buf, i). length buf - i)") auto

declare req_len_loop.simps [simp del]

definition mg_http_get_request_len :: "byte list \<Rightarrow> int" where
  "mg_http_get_request_len buf = req_len_loop buf 0"

definition vcb :: "byte \<Rightarrow> bool" where
  "vcb c \<longleftrightarrow> c AND 0xc0 = 0x80"

text \<open>\<open>vcbs b s k\<close>: the \<open>k\<close> bytes at \<open>s\<close> are continuation bytes, read one after the other.\<close>

fun vcbs :: "byte list \<Rightarrow> nat \<Rightarrow> nat \<Rightarrow> bool option" where
  "vcbs b s 0 = Some True"
| "vcbs b s (Suc k) = do { u \<leftarrow> rd b s; if vcb u then vcbs b (s + 1) k else Some False }"

definition clen :: "byte list \<Rightarrow> nat \<Rightarrow> nat \<Rightarrow> nat option" where
  "clen b s e = do {
     c \<leftarrow> rd b s;
     let n = e - s;
     if c > 0x20 \<and> c \<le> 0x7e then Some 1 else do {
     u2 \<leftarrow> (if c AND 0xe0 = 0xc0 \<and> n > 1 then vcbs b (s + 1) 1 else Some False);
     if u2 then Some 2 else do {
     u3 \<leftarrow> (if c AND 0xf0 = 0xe0 \<and> n > 2 then vcbs b (s + 1) 2 else Some False);
     if u3 then Some 3 else do {
     u4 \<leftarrow> (if c AND 0xf8 = 0xf0 \<and> n > 3 then vcbs b (s + 1) 3 else Some False);
     Some (if u4 then 4 else 0) }}}}"

text \<open>
  \<^verbatim>\<open>while (s < end && s[0] != stop && (n = clen(s, end)) > 0) s += n\<close>; the loops of the request
  line have no \<open>stop\<close> character.
\<close>

function tok :: "byte list \<Rightarrow> byte option \<Rightarrow> nat \<Rightarrow> nat \<Rightarrow> nat option" where
  "tok b stop s e =
     (if s < e then
        (case rd b s of None \<Rightarrow> None
         | Some c \<Rightarrow> if Some c = stop then Some s
             else (case clen b s e of None \<Rightarrow> None
                   | Some n \<Rightarrow> if n > 0 then tok b stop (s + n) e else Some s))
      else Some s)"
  by pat_completeness auto
termination by (relation "measure (\<lambda>(b, stop, s, e). e - s)") auto

text \<open>\<^verbatim>\<open>while (s < end && P(s[0])) s++\<close>\<close>

function skip :: "(byte \<Rightarrow> bool) \<Rightarrow> byte list \<Rightarrow> nat \<Rightarrow> nat \<Rightarrow> nat option" where
  "skip P b s e =
     (if s < e then
        (case rd b s of None \<Rightarrow> None | Some c \<Rightarrow> if P c then skip P b (s + 1) e else Some s)
      else Some s)"
  by pat_completeness auto
termination by (relation "measure (\<lambda>(P, b, s, e). e - s)") auto

declare tok.simps [simp del] skip.simps [simp del]

text \<open>\<open>skiptorn\<close>: the line \<open>v\<close> and the position behind its newline; \<open>Some None\<close> is its \<^verbatim>\<open>NULL\<close>.\<close>

definition skiptorn :: "byte list \<Rightarrow> nat \<Rightarrow> nat \<Rightarrow> (nat \<times> mg_slice) option option" where
  "skiptorn b s e = do {
     s1 \<leftarrow> skip (\<lambda>c. c \<noteq> 0x0A \<and> c \<noteq> 0x0D) b s e;
     let v = slice s s1;
     if s1 \<ge> e then Some None else do {
     c \<leftarrow> rd b s1;
     stray \<leftarrow> (if c = 0x0D then do { d \<leftarrow> rd b (s1 + 1); Some (d \<noteq> 0x0A) } else Some False);
     if stray then Some None else do {
     let s2 = (if c = 0x0D then s1 + 1 else s1);
     if s2 \<ge> e then Some None else do {
     d \<leftarrow> rd b s2;
     Some (if d \<noteq> 0x0A then None else Some (s2 + 1, v)) }}}}"

text \<open>The loop that trims blanks off the end of a header value.\<close>

fun trim_len :: "byte list \<Rightarrow> nat \<Rightarrow> nat \<Rightarrow> nat option" where
  "trim_len b s 0 = Some 0"
| "trim_len b s (Suc l) = do { c \<leftarrow> rd b (s + l); if is_blank c then trim_len b s l else Some (Suc l) }"

text \<open>The end of the header section at \<open>s\<close>: an empty line.\<close>

definition at_eol :: "byte list \<Rightarrow> nat \<Rightarrow> bool option" where
  "at_eol b s = do {
     c \<leftarrow> rd b s;
     if c = 0x0A then Some True
     else if c = 0x0D then do { d \<leftarrow> rd b (s + 1); Some (d = 0x0A) }
     else Some False }"

text \<open>One header line: name, value, and where the next line starts.\<close>

definition parse_header ::
  "byte list \<Rightarrow> nat \<Rightarrow> nat \<Rightarrow> ((mg_slice \<times> mg_slice) \<times> nat) option option" where
  "parse_header b s e = do {
     s1 \<leftarrow> tok b (Some 0x3A) s e;
     if s1 - s = 0 then Some None
     else if s1 \<ge> e then Some None else do {
     n \<leftarrow> clen b s1 e;
     if n = 0 then Some None else do {
     c \<leftarrow> rd b s1;
     if c \<noteq> 0x3A then Some None else do {
     s2 \<leftarrow> skip is_blank b (s1 + 1) e;
     r \<leftarrow> skiptorn b s2 e;
     case r of None \<Rightarrow> Some None
     | Some (s3, v) \<Rightarrow> do {
         l \<leftarrow> trim_len b (sbuf v) (slen v);
         Some (Some ((slice s s1, v\<lparr>slen := l\<rparr>), s3)) } }}}}"

fun mg_http_parse_headers ::
  "byte list \<Rightarrow> nat \<Rightarrow> nat \<Rightarrow> nat \<Rightarrow> (mg_slice \<times> mg_slice) list option option" where
  "mg_http_parse_headers b s e 0 = Some (Some [])"
| "mg_http_parse_headers b s e (Suc m) =
     (if s \<ge> e then Some None else do {
        stop \<leftarrow> at_eol b s;
        if stop then Some (Some []) else do {
        r \<leftarrow> parse_header b s e;
        case r of None \<Rightarrow> Some None
        | Some (h, s') \<Rightarrow> do {
            hs \<leftarrow> mg_http_parse_headers b s' e m;
            Some (map_option ((#) h) hs) } } })"

subsection \<open>Header lookup\<close>

fun mg_http_get_header ::
  "bool \<Rightarrow> byte list \<Rightarrow> (mg_slice \<times> mg_slice) list \<Rightarrow> byte list \<Rightarrow> mg_slice option option" where
  "mg_http_get_header sg b [] name = Some None"
| "mg_http_get_header sg b ((k, v) # hs) name =
     (if slen k = 0 then Some None
      else if length name = slen k then do {
        d \<leftarrow> mg_ncasecmp sg (drop (sbuf k) b) name (length name);
        if d = 0 then Some (Some v) else mg_http_get_header sg b hs name }
      else mg_http_get_header sg b hs name)"

subsection \<open>The parser\<close>

text \<open>\<open>slice v\<close> starts with \<open>HTTP/\<close>, as the response test and the version test ask.\<close>

definition http_prefix :: "bool \<Rightarrow> byte list \<Rightarrow> mg_slice \<Rightarrow> bool option" where
  "http_prefix sg b v = (if slen v > 5
     then map_option (\<lambda>d. d = 0) (mg_ncasecmp sg (drop (sbuf v) b) (cstr ''HTTP/'') 5) else Some False)"

text \<open>The version check: \<open>True\<close> when the request is refused.\<close>

definition bad_proto :: "bool \<Rightarrow> byte list \<Rightarrow> bool \<Rightarrow> mg_slice \<Rightarrow> bool option" where
  "bad_proto sg b is_response v = do {
     valid \<leftarrow> http_prefix sg b v;
     if \<not> is_response \<and> slen v > 0 then
       (if \<not> valid \<or> slen v \<noteq> 8 then Some True else do {
          c5 \<leftarrow> rd b (sbuf v + 5);
          if c5 < 0x30 \<or> c5 > 0x39 then Some True else do {
          c6 \<leftarrow> rd b (sbuf v + 6);
          if c6 \<noteq> 0x2E then Some True else do {
          c7 \<leftarrow> rd b (sbuf v + 7);
          Some (c7 < 0x30 \<or> c7 > 0x39) }}})
     else Some False }"

text \<open>Splitting the query string off the URI.\<close>

definition split_query :: "byte list \<Rightarrow> mg_slice \<Rightarrow> mg_slice \<times> mg_slice" where
  "split_query b u =
     (let i = span_len (text_of b u) 0x3F in
      if i < slen u
      then (u\<lparr>slen := i\<rparr>, \<lparr>sbuf = sbuf u + i + 1, slen = slen u - (i + 1)\<rparr>)
      else (u, no_slice))"

text \<open>
  The request line: method, URI, query, protocol, whether it is a status line, and where the headers
  start. The inner \<open>Inl r\<close> is an early return of \<open>r\<close>.
\<close>

definition parse_request_line ::
  "bool \<Rightarrow> byte list \<Rightarrow> nat \<Rightarrow> (int + mg_slice \<times> mg_slice \<times> mg_slice \<times> mg_slice \<times> bool \<times> nat) option" where
  "parse_request_line sg b e = do {
     s1 \<leftarrow> tok b None 0 e;
     let meth = slice 0 s1;
     s2 \<leftarrow> skip (\<lambda>c. c = 0x20) b s1 e;
     s3 \<leftarrow> tok b None s2 e;
     let u = slice s2 s3;
     s4 \<leftarrow> skip (\<lambda>c. c = 0x20) b s3 e;
     is_response \<leftarrow> http_prefix sg b meth;
     r \<leftarrow> skiptorn b s4 e;
     case r of None \<Rightarrow> Some (Inl 0)
     | Some (s5, p) \<Rightarrow> do {
         bad \<leftarrow> bad_proto sg b is_response p;
         if bad then Some (Inl (-1))
         else (let (u', q) = split_query b u in
           Some (if slen meth = 0 \<or> slen u' = 0 then Inl (-1)
                 else Inr (meth, u', q, p, is_response, s5))) } }"

text \<open>
  What the body and the message length become: from \<open>Content-Length\<close> (\<open>cl\<close>), then the rules for
  requests without a body and for 204 responses. \<open>None\<close> is the return of -1.
\<close>

definition body_length ::
  "bool \<Rightarrow> nat \<Rightarrow> byte list option \<Rightarrow> bool \<Rightarrow> byte list \<Rightarrow> byte list \<Rightarrow> (nat \<times> nat) option" where
  "body_length sg req_len cl is_response meth u = do {
     (bl, ml) \<leftarrow> (case cl of None \<Rightarrow> Some (SIZE_MAX, SIZE_MAX)
       | Some t \<Rightarrow> do { n \<leftarrow> mg_to_size_t t; Some (n, (req_len + n) mod 2 ^ 64) });
     let (bl, ml) = (if bl = SIZE_MAX \<and> \<not> is_response \<and>
           mg_strcasecmp sg meth (cstr ''PUT'') \<noteq> 0 \<and> mg_strcasecmp sg meth (cstr ''POST'') \<noteq> 0
         then (0, req_len) else (bl, ml));
     let (bl, ml) = (if bl = SIZE_MAX \<and> is_response \<and> mg_strcasecmp sg u (cstr ''204'') = 0
         then (0, req_len) else (bl, ml));
     if ml < req_len then None else Some (bl, ml) }"

definition mg_http_parse :: "bool \<Rightarrow> byte list \<Rightarrow> (int \<times> mg_http_message) option" where
  "mg_http_parse sg b =
     (let req_len = mg_http_get_request_len b in
      if req_len \<le> 0 then Some (req_len, hm_zero)
      else let e = nat req_len in do {
        rl \<leftarrow> parse_request_line sg b e;
        case rl of Inl r \<Rightarrow> Some (r, hm_zero)
        | Inr (meth, u, q, p, is_response, s5) \<Rightarrow> do {
            hs \<leftarrow> mg_http_parse_headers b s5 e MG_MAX_HTTP_HEADERS;
            case hs of None \<Rightarrow> Some (-1, hm_zero)
            | Some hs \<Rightarrow> do {
                cl \<leftarrow> mg_http_get_header sg b hs (cstr ''Content-Length'');
                Some (case body_length sg e (map_option (text_of b) cl) is_response (text_of b meth) (text_of b u) of
                  None \<Rightarrow> (-1, hm_zero)
                | Some (bl, ml) \<Rightarrow>
                    (req_len, \<lparr>http_method = meth, uri = u, query = q, proto = p, headers = hs,
                       body = \<lparr>sbuf = e, slen = bl\<rparr>, head = slice 0 e,
                       message = \<lparr>sbuf = 0, slen = ml\<rparr>\<rparr>)) } } })"

subsection \<open>The scanners stay inside the head of the message\<close>

text \<open>
  The head \<open>b[0, e)\<close> ends with a newline: that is what keeps the one-byte lookahead after a carriage
  return inside of it.
\<close>

definition head_ok :: "byte list \<Rightarrow> nat \<Rightarrow> bool" where
  "head_ok b e \<longleftrightarrow> 0 < e \<and> e \<le> length b \<and> b ! (e - 1) = 0x0A"

definition within :: "nat \<Rightarrow> mg_slice \<Rightarrow> bool" where
  "within e v \<longleftrightarrow> sbuf v + slen v \<le> e"

lemma head_okD: "head_ok b e \<Longrightarrow> e \<le> length b" "head_ok b e \<Longrightarrow> 0 < e"
  by (simp_all add: head_ok_def)

lemma head_ok_next: "head_ok b e \<Longrightarrow> s < e \<Longrightarrow> b ! s \<noteq> 0x0A \<Longrightarrow> s + 1 < e"
proof (rule ccontr)
  assume h: "head_ok b e" "s < e" "b ! s \<noteq> 0x0A" "\<not> s + 1 < e"
  then have "s = e - 1" by linarith
  then show False using h by (simp add: head_ok_def)
qed

lemma req_len_loop_pos:
  "req_len_loop b i = r \<Longrightarrow> 0 < r \<Longrightarrow> int i < r \<and> r \<le> int (length b) \<and> b ! (nat r - 1) = 0x0A"
proof (induction b i rule: req_len_loop.induct)
  case (1 buf i)
  consider "\<not> (i < length buf \<and> isok (buf ! i))" | "i < length buf" "isok (buf ! i)" "head_end buf i"
    | "i < length buf" "isok (buf ! i)" "\<not> head_end buf i" by blast
  then show ?case
  proof cases
    case 1
    then show ?thesis using "1.prems" by (auto simp: req_len_loop.simps [of buf i] split: if_splits)
  next
    case 2
    then have "r = int i + 1" "buf ! i = 0x0A"
      using "1.prems" by (auto simp: req_len_loop.simps [of buf i] head_end_def)
    then show ?thesis using 2 by (simp add: nat_add_distrib)
  next
    case 3
    then have "req_len_loop buf (i + 1) = r" using "1.prems" by (simp add: req_len_loop.simps [of buf i])
    then show ?thesis using "1.IH" 3 "1.prems"(2) by force
  qed
qed

lemma request_len_head_ok: "0 < mg_http_get_request_len b \<Longrightarrow> head_ok b (nat (mg_http_get_request_len b))"
  using req_len_loop_pos [of b 0] by (auto simp: mg_http_get_request_len_def head_ok_def)

lemma vcbs_ok: "s + k \<le> length b \<Longrightarrow> \<exists>r. vcbs b s k = Some r"
  by (induction b s k rule: vcbs.induct) auto

lemma cont_ok:
  assumes "s < e" "e \<le> length b"
  shows "\<exists>r. (if p \<and> e - s > k then vcbs b (s + 1) k else Some False) = Some r \<and> (r \<longrightarrow> s + k < e)"
proof (cases "p \<and> e - s > k")
  case True
  then have "s + 1 + k \<le> length b" "s + k < e" using assms by linarith+
  then show ?thesis using vcbs_ok [of "s + 1" k b] True by simp
qed auto

lemma clen_ok:
  assumes "s < e" "e \<le> length b"
  shows "\<exists>n. clen b s e = Some n \<and> s + n \<le> e"
proof -
  let ?c = "b ! s"
  obtain r1 where r1: "(if ?c AND 0xe0 = 0xc0 \<and> e - s > 1 then vcbs b (s + 1) 1 else Some False) = Some r1"
      "r1 \<longrightarrow> s + 1 < e" using cont_ok [OF assms] by blast
  obtain r2 where r2: "(if ?c AND 0xf0 = 0xe0 \<and> e - s > 2 then vcbs b (s + 1) 2 else Some False) = Some r2"
      "r2 \<longrightarrow> s + 2 < e" using cont_ok [OF assms] by blast
  obtain r3 where r3: "(if ?c AND 0xf8 = 0xf0 \<and> e - s > 3 then vcbs b (s + 1) 3 else Some False) = Some r3"
      "r3 \<longrightarrow> s + 3 < e" using cont_ok [OF assms] by blast
  have c: "rd b s = Some ?c" using assms by simp
  have "clen b s e = Some (if ?c > 0x20 \<and> ?c \<le> 0x7e then 1 else if r1 then 2 else if r2 then 3 else if r3 then 4 else 0)"
    unfolding clen_def Let_def c bind.bind_lunit r1(1) r2(1) r3(1) by simp
  then show ?thesis using assms r1(2) r2(2) r3(2) by auto
qed

lemma tok_ok:
  "s \<le> e \<Longrightarrow> e \<le> length b \<Longrightarrow> \<exists>s'. tok b stop s e = Some s' \<and> s \<le> s' \<and> s' \<le> e"
proof (induction b stop s e rule: tok.induct)
  case (1 b stop s e)
  show ?case
  proof (cases "s < e \<and> Some (b ! s) \<noteq> stop")
    case True
    then obtain n where n: "clen b s e = Some n" "s + n \<le> e" using clen_ok [of s e b] 1(3) by auto
    have "rd b s = Some (b ! s)" using True 1(3) by simp
    then show ?thesis using 1(1) [of "b ! s" n] True n 1(3)
      by (cases "n > 0") (auto simp: tok.simps [of b stop s e])
  next
    case False
    then show ?thesis using 1(2,3) by (auto simp: tok.simps [of b stop s e])
  qed
qed

lemma skip_ok:
  "s \<le> e \<Longrightarrow> e \<le> length b \<Longrightarrow> \<exists>s'. skip P b s e = Some s' \<and> s \<le> s' \<and> s' \<le> e"
proof (induction P b s e rule: skip.induct)
  case (1 P b s e)
  show ?case
  proof (cases "s < e \<and> P (b ! s)")
    case True
    then have "rd b s = Some (b ! s)" using 1(3) by simp
    then show ?thesis using 1(1) [of "b ! s"] True 1(3) by (auto simp: skip.simps [of P b s e])
  next
    case False
    then show ?thesis using 1(2,3) by (auto simp: skip.simps [of P b s e])
  qed
qed

lemma skiptorn_ok:
  assumes h: "head_ok b e" and s: "s \<le> e"
  shows "\<exists>r. skiptorn b s e = Some r \<and>
    (\<forall>s' v. r = Some (s', v) \<longrightarrow> s < s' \<and> s' \<le> e \<and> sbuf v = s \<and> within e v)"
proof -
  note e = head_okD(1) [OF h]
  obtain s1 where s1: "skip (\<lambda>c. c \<noteq> 0x0A \<and> c \<noteq> 0x0D) b s e = Some s1" "s \<le> s1" "s1 \<le> e"
    using skip_ok [OF s e] by blast
  show ?thesis
  proof (cases "s1 < e")
    case True
    have nx: "b ! s1 = 0x0D \<Longrightarrow> s1 + 1 < e" using head_ok_next [OF h True] by auto
    then show ?thesis using True s1 e
      by (auto simp: skiptorn_def Let_def slice_def within_def)
  next
    case False
    then show ?thesis using s1 by (simp add: skiptorn_def Let_def)
  qed
qed

lemma at_eol_ok: "head_ok b e \<Longrightarrow> s < e \<Longrightarrow> \<exists>r. at_eol b s = Some r"
  using head_ok_next [of b e s] head_okD(1) [of b e] by (auto simp: at_eol_def)

lemma trim_len_ok: "s + l \<le> length b \<Longrightarrow> \<exists>l'. trim_len b s l = Some l' \<and> l' \<le> l"
proof (induction b s l rule: trim_len.induct)
  case (2 b s l)
  then show ?case by (auto intro: le_SucI)
qed simp

lemma parse_header_ok:
  assumes h: "head_ok b e" and s: "s < e"
  shows "\<exists>r. parse_header b s e = Some r \<and>
    (\<forall>k v s'. r = Some ((k, v), s') \<longrightarrow> s < s' \<and> s' \<le> e \<and> within e k \<and> 0 < slen k \<and> within e v)"
proof -
  note e = head_okD(1) [OF h]
  obtain s1 where s1: "tok b (Some 0x3A) s e = Some s1" "s \<le> s1" "s1 \<le> e"
    using tok_ok [of s e b] s e by auto
  show ?thesis
  proof (cases "s1 - s = 0 \<or> s1 \<ge> e")
    case True
    then show ?thesis using s1 by (auto simp: parse_header_def)
  next
    case False
    then obtain n where n: "clen b s1 e = Some n" using clen_ok [of s1 e b] e by auto
    obtain s2 where s2: "skip is_blank b (s1 + 1) e = Some s2" "s1 + 1 \<le> s2" "s2 \<le> e"
      using skip_ok [of "s1 + 1" e b is_blank] False e by auto
    obtain r where r: "skiptorn b s2 e = Some r"
        "\<forall>s' v. r = Some (s', v) \<longrightarrow> s2 < s' \<and> s' \<le> e \<and> sbuf v = s2 \<and> within e v"
      using skiptorn_ok [OF h s2(3)] by blast
    have c: "rd b s1 = Some (b ! s1)" using False e by simp
    show ?thesis
    proof (cases "n = 0 \<or> b ! s1 \<noteq> 0x3A \<or> r = None")
      case True
      then show ?thesis using s1 False n c s2 r by (auto simp: parse_header_def)
    next
      case ok: False
      then obtain s3 v where rv: "r = Some (s3, v)" by auto
      then have v: "s2 < s3" "s3 \<le> e" "within e v" using r by auto
      then obtain l where l: "trim_len b (sbuf v) (slen v) = Some l" "l \<le> slen v"
        using trim_len_ok [of "sbuf v" "slen v" b] e by (auto simp: within_def)
      have "parse_header b s e = Some (Some ((slice s s1, v\<lparr>slen := l\<rparr>), s3))"
        using s1 False n c s2 r(1) rv l ok by (simp add: parse_header_def)
      then show ?thesis using v l s1 s2 False by (auto simp: slice_def within_def)
    qed
  qed
qed

lemma mg_http_parse_headers_ok:
  assumes h: "head_ok b e"
  shows "s \<le> e \<Longrightarrow> \<exists>r. mg_http_parse_headers b s e m = Some r \<and>
    (\<forall>hs. r = Some hs \<longrightarrow> length hs \<le> m \<and> (\<forall>(k, v) \<in> set hs. within e k \<and> 0 < slen k \<and> within e v))"
proof (induction m arbitrary: s)
  case (Suc m)
  show ?case
  proof (cases "s \<ge> e")
    case False
    then have s: "s < e" by simp
    obtain stop where stop: "at_eol b s = Some stop" using at_eol_ok [OF h s] by blast
    obtain r where r: "parse_header b s e = Some r"
        "\<forall>k v s'. r = Some ((k, v), s') \<longrightarrow> s < s' \<and> s' \<le> e \<and> within e k \<and> 0 < slen k \<and> within e v"
      using parse_header_ok [OF h s] by blast
    show ?thesis
    proof (cases "stop \<or> r = None")
      case True
      then show ?thesis using s stop r by auto
    next
      case no: False
      then obtain k v s' where rv: "r = Some ((k, v), s')" by auto
      then have kv: "s' \<le> e" "within e k" "0 < slen k" "within e v" using r by auto
      obtain q where q: "mg_http_parse_headers b s' e m = Some q"
          "\<forall>hs. q = Some hs \<longrightarrow> length hs \<le> m \<and> (\<forall>(k, v) \<in> set hs. within e k \<and> 0 < slen k \<and> within e v)"
        using Suc.IH [OF kv(1)] by blast
      have "mg_http_parse_headers b s e (Suc m) = Some (map_option ((#) (k, v)) q)"
        using s stop no r(1) rv q(1) by simp
      then show ?thesis using q(2) kv by auto
    qed
  qed simp
qed simp

lemma mg_http_get_header_ok:
  assumes "\<forall>(k, v) \<in> set hs. within e k \<and> within e v" "e \<le> length b"
  shows "\<exists>r. mg_http_get_header sg b hs name = Some r \<and> (\<forall>v. r = Some v \<longrightarrow> within e v)"
  using assms(1)
proof (induction hs)
  case (Cons h hs)
  obtain k v where h: "h = (k, v)" by (cases h)
  have k: "within e k" "within e v" using Cons.prems h by auto
  obtain r where r: "mg_http_get_header sg b hs name = Some r" "\<forall>v. r = Some v \<longrightarrow> within e v"
    using Cons by auto
  show ?case
  proof (cases "slen k \<noteq> 0 \<and> length name = slen k")
    case True
    then have "length name \<le> length (drop (sbuf k) b)" using k assms(2) by (simp add: within_def)
    then obtain d where "mg_ncasecmp sg (drop (sbuf k) b) name (length name) = Some d"
      using mg_ncasecmp_Some [of "length name" "drop (sbuf k) b" name sg] by auto
    then show ?thesis using r k True by (simp add: h)
  next
    case False
    then show ?thesis using r by (auto simp: h)
  qed
qed simp

lemma http_prefix_ok:
  assumes "within e v" "e \<le> length b"
  shows "\<exists>r. http_prefix sg b v = Some r"
proof (cases "slen v > 5")
  case True
  then have "5 \<le> length (drop (sbuf v) b)" using assms by (simp add: within_def)
  then show ?thesis using mg_ncasecmp_Some [of 5 "drop (sbuf v) b" "cstr ''HTTP/''" sg]
    by (auto simp: http_prefix_def)
qed (auto simp: http_prefix_def)

lemma bad_proto_ok:
  assumes "within e v" "e \<le> length b"
  shows "\<exists>r. bad_proto sg b is_response v = Some r"
proof -
  obtain valid where v: "http_prefix sg b v = Some valid" using http_prefix_ok [OF assms] by blast
  show ?thesis
  proof (cases "\<not> is_response \<and> slen v > 0 \<and> valid \<and> slen v = 8")
    case True
    then have "sbuf v + 7 < length b" using assms by (simp add: within_def)
    then show ?thesis using v True by (auto simp: bad_proto_def)
  next
    case False
    then show ?thesis using v by (auto simp: bad_proto_def)
  qed
qed

lemma split_query_ok:
  assumes "within e u" "split_query b u = (u', q)"
  shows "within e u' \<and> within e q"
  using assms by (auto simp: split_query_def within_def Let_def split: if_splits)

lemma parse_request_line_ok:
  assumes h: "head_ok b e"
  shows "\<exists>r. parse_request_line sg b e = Some r \<and>
    (\<forall>x. r = Inl x \<longrightarrow> x \<le> 0) \<and>
    (\<forall>m u q p rsp s. r = Inr (m, u, q, p, rsp, s) \<longrightarrow>
       within e m \<and> within e u \<and> within e q \<and> within e p \<and> 0 < slen m \<and> 0 < slen u \<and> s \<le> e)"
proof -
  note e = head_okD(1) [OF h]
  obtain s1 where s1: "tok b None 0 e = Some s1" "s1 \<le> e" using tok_ok [of 0 e b] e by auto
  obtain s2 where s2: "skip (\<lambda>c. c = 0x20) b s1 e = Some s2" "s2 \<le> e" using skip_ok [OF s1(2) e] by blast
  obtain s3 where s3: "tok b None s2 e = Some s3" "s3 \<le> e" "s2 \<le> s3" using tok_ok [OF s2(2) e] by blast
  obtain s4 where s4: "skip (\<lambda>c. c = 0x20) b s3 e = Some s4" "s4 \<le> e" using skip_ok [OF s3(2) e] by blast
  have w: "within e (slice 0 s1)" "within e (slice s2 s3)" using s1 s3 by (simp_all add: within_def slice_def)
  obtain rsp where rsp: "http_prefix sg b (slice 0 s1) = Some rsp" using http_prefix_ok [OF w(1) e] by blast
  obtain r where r: "skiptorn b s4 e = Some r"
      "\<forall>s' v. r = Some (s', v) \<longrightarrow> s4 < s' \<and> s' \<le> e \<and> sbuf v = s4 \<and> within e v"
    using skiptorn_ok [OF h s4(2)] by blast
  note pre = parse_request_line_def s1(1) s2(1) s3(1) s4(1) rsp r(1) Let_def bind.bind_lunit
  show ?thesis
  proof (cases r)
    case None
    then show ?thesis by (simp add: pre)
  next
    case (Some sp)
    then obtain s5 p where sp: "r = Some (s5, p)" by (cases sp) auto
    then have p: "within e p" "s5 \<le> e" using r(2) by auto
    obtain bad where bad: "bad_proto sg b rsp p = Some bad" using bad_proto_ok [OF p(1) e] by blast
    obtain u q where uq: "split_query b (slice s2 s3) = (u, q)" by fastforce
    have "within e u" "within e q" using split_query_ok [OF w(2) uq] by auto
    then show ?thesis using p w(1) by (auto simp: pre sp bad uq)
  qed
qed

lemma body_length_ge: "body_length sg e cl rsp m u = Some (bl, ml) \<Longrightarrow> e \<le> ml"
  by (auto simp: body_length_def Let_def split: option.splits if_splits Option.bind_splits)

text \<open>What the parser returns, all branches.\<close>

lemma mg_http_parse_spec:
  "\<exists>n hm. mg_http_parse sg b = Some (n, hm) \<and> (n > 0 \<longrightarrow> n = mg_http_get_request_len b \<and>
     (let e = nat n in e \<le> length b \<and>
        list_all (within e) ([http_method hm, uri hm, query hm, proto hm] @ map fst (headers hm) @ map snd (headers hm)) \<and>
        0 < slen (http_method hm) \<and> 0 < slen (uri hm) \<and> length (headers hm) \<le> MG_MAX_HTTP_HEADERS \<and>
        sbuf (body hm) = e \<and> head hm = slice 0 e \<and> sbuf (message hm) = 0 \<and> e \<le> slen (message hm)))"
proof (cases "mg_http_get_request_len b \<le> 0")
  case True
  then show ?thesis by (auto simp: mg_http_parse_def Let_def)
next
  case False
  define e where "e = nat (mg_http_get_request_len b)"
  have h: "head_ok b e" using request_len_head_ok [of b] False by (simp add: e_def)
  note el = head_okD(1) [OF h]
  obtain rl where rl: "parse_request_line sg b e = Some rl" "\<forall>x. rl = Inl x \<longrightarrow> x \<le> 0"
    "\<forall>m u q p rsp s. rl = Inr (m, u, q, p, rsp, s) \<longrightarrow>
       within e m \<and> within e u \<and> within e q \<and> within e p \<and> 0 < slen m \<and> 0 < slen u \<and> s \<le> e"
    using parse_request_line_ok [OF h] by blast
  have r: "mg_http_get_request_len b = int e" using False by (simp add: e_def)
  have eq: "mg_http_parse sg b = (case rl of Inl r \<Rightarrow> Some (r, hm_zero)
        | Inr (meth, u, q, p, is_response, s5) \<Rightarrow> do {
            hs \<leftarrow> mg_http_parse_headers b s5 e MG_MAX_HTTP_HEADERS;
            case hs of None \<Rightarrow> Some (-1, hm_zero)
            | Some hs \<Rightarrow> do {
                cl \<leftarrow> mg_http_get_header sg b hs (cstr ''Content-Length'');
                Some (case body_length sg e (map_option (text_of b) cl) is_response (text_of b meth) (text_of b u) of
                  None \<Rightarrow> (-1, hm_zero)
                | Some (bl, ml) \<Rightarrow>
                    (int e, \<lparr>http_method = meth, uri = u, query = q, proto = p, headers = hs,
                       body = \<lparr>sbuf = e, slen = bl\<rparr>, head = slice 0 e,
                       message = \<lparr>sbuf = 0, slen = ml\<rparr>\<rparr>)) } })"
    unfolding mg_http_parse_def Let_def r nat_int using rl(1) head_okD(2) [OF h] by (simp del: cstr_Cons)
  show ?thesis
  proof (cases rl)
    case (Inl x)
    then show ?thesis using rl(2) by (auto simp: eq)
  next
    case (Inr y)
    then obtain m u q p rsp s where y: "rl = Inr (m, u, q, p, rsp, s)" by (cases y) auto
    then have w: "within e m" "within e u" "within e q" "within e p" "0 < slen m" "0 < slen u" "s \<le> e"
      using rl(3) by blast+
    obtain hs where hs: "mg_http_parse_headers b s e MG_MAX_HTTP_HEADERS = Some hs"
        "\<forall>hs'. hs = Some hs' \<longrightarrow> length hs' \<le> MG_MAX_HTTP_HEADERS \<and>
           (\<forall>(k, v) \<in> set hs'. within e k \<and> 0 < slen k \<and> within e v)"
      using mg_http_parse_headers_ok [OF h w(7)] by blast
    show ?thesis
    proof (cases hs)
      case None
      then show ?thesis using hs(1) by (simp add: eq y del: cstr_Cons)
    next
      case (Some hs')
      then have hw: "\<forall>(k, v) \<in> set hs'. within e k \<and> within e v" "length hs' \<le> MG_MAX_HTTP_HEADERS"
        using hs(2) by auto
      obtain cl where cl: "mg_http_get_header sg b hs' (cstr ''Content-Length'') = Some cl"
        using mg_http_get_header_ok [OF hw(1) el] by blast
      have wh: "list_all (within e) (map fst hs' @ map snd hs')"
        using hw(1) by (auto simp: list_all_iff)
      show ?thesis
      proof (cases "body_length sg e (map_option (text_of b) cl) rsp (text_of b m) (text_of b u)")
        case None
        then show ?thesis by (simp add: eq y hs(1) Some cl del: cstr_Cons)
      next
        case (Some bm)
        then obtain bl ml where bm: "body_length sg e (map_option (text_of b) cl) rsp (text_of b m) (text_of b u) = Some (bl, ml)"
          by (cases bm) auto
        then have "e \<le> ml" by (rule body_length_ge)
        then show ?thesis using w hw wh el
          by (simp add: r eq y hs(1) \<open>hs = Some hs'\<close> cl bm Let_def del: cstr_Cons)
      qed
    qed
  qed
qed

text \<open>
  C11: When the parser accepts a message, its method, URI, query, protocol and every header name and
  value lie inside the head, which is inside the received bytes; method and URI are not empty;
  at most 30 headers are stored; and the body starts right behind the head.
\<close>

theorem mg_http_parse_bounds:
  assumes "mg_http_parse sg b = Some (n, hm)" "n > 0"
  defines "e \<equiv> nat n"
  shows "e \<le> length b \<and>
    list_all (within e) ([http_method hm, uri hm, query hm, proto hm] @ map fst (headers hm) @ map snd (headers hm)) \<and>
    0 < slen (http_method hm) \<and> 0 < slen (uri hm) \<and> length (headers hm) \<le> 30 \<and>
    sbuf (body hm) = e \<and> head hm = \<lparr>sbuf = 0, slen = e\<rparr> \<and> sbuf (message hm) = 0 \<and> e \<le> slen (message hm)"
proof -
  obtain n' hm' where "mg_http_parse sg b = Some (n', hm')" and
    p: "n' > 0 \<longrightarrow> n' = mg_http_get_request_len b \<and>
     (let e = nat n' in e \<le> length b \<and>
        list_all (within e) ([http_method hm', uri hm', query hm', proto hm'] @ map fst (headers hm') @ map snd (headers hm')) \<and>
        0 < slen (http_method hm') \<and> 0 < slen (uri hm') \<and> length (headers hm') \<le> MG_MAX_HTTP_HEADERS \<and>
        sbuf (body hm') = e \<and> head hm' = slice 0 e \<and> sbuf (message hm') = 0 \<and> e \<le> slen (message hm'))"
    using mg_http_parse_spec [of sg b] by blast
  then have "n' = n" "hm' = hm" using assms(1) by simp_all
  moreover have "slice 0 x = \<lparr>sbuf = 0, slen = x\<rparr>" for x by (simp add: slice_def)
  ultimately show ?thesis using p assms(2) unfolding e_def Let_def by (simp only:) blast
qed

text \<open>The shortest request: \<^verbatim>\<open>A B\<close> and an empty line.\<close>

definition get_req :: "byte list" where
  "get_req = [0x41, 0x20, 0x42, 0x0A, 0x0A]"

lemma get_req_parse: "\<exists>hm. mg_http_parse True get_req = Some (5, hm) \<and> slen (http_method hm) = 1"
proof -
  have "mg_http_get_request_len get_req = 5" by code_simp
  moreover have "parse_request_line True get_req 5 =
      Some (Inr (\<lparr>sbuf = 0, slen = 1\<rparr>, \<lparr>sbuf = 2, slen = 1\<rparr>, no_slice, \<lparr>sbuf = 3, slen = 0\<rparr>, False, 4))"
    by code_simp
  moreover have "mg_http_parse_headers get_req 4 5 MG_MAX_HTTP_HEADERS = Some (Some [])"
    by code_simp
  moreover have "body_length True 5 None False (text_of get_req \<lparr>sbuf = 0, slen = 1\<rparr>)
      (text_of get_req \<lparr>sbuf = 2, slen = 1\<rparr>) = Some (0, 5)"
  proof -
    have "text_of get_req \<lparr>sbuf = 0, slen = 1\<rparr> = [0x41]" by code_simp
    moreover have "mg_strcasecmp True [0x41] (cstr ''PUT'') \<noteq> 0" "mg_strcasecmp True [0x41] (cstr ''POST'') \<noteq> 0"
      by code_simp+
    ultimately show ?thesis by (simp add: body_length_def Let_def del: cstr_Cons)
  qed
  ultimately show ?thesis by (simp add: mg_http_parse_def Let_def)
qed

theorem mg_http_parse_bounds_witness:
  "\<exists>hm. mg_http_parse True get_req = Some (5, hm) \<and> head hm = \<lparr>sbuf = 0, slen = 5\<rparr> \<and> within 5 (uri hm)"
proof -
  obtain hm where p: "mg_http_parse True get_req = Some (5, hm)" using get_req_parse by blast
  show ?thesis using mg_http_parse_bounds [OF p] p by simp
qed

subsection \<open>More data does not change a parsed message\<close>

lemma rd_append: "rd b i = Some v \<Longrightarrow> rd (b @ x) i = Some v"
  by (auto simp: rd_def nth_append split: if_splits)

lemma vcbs_append: "vcbs b s k = Some r \<Longrightarrow> vcbs (b @ x) s k = Some r"
  by (induction b s k rule: vcbs.induct) (auto simp: rd_append split: Option.bind_splits)

lemma bind_mono:
  assumes "Option.bind m f = Some r" "\<And>v. m = Some v \<Longrightarrow> m' = Some v" "\<And>v. f v = Some r \<Longrightarrow> f' v = Some r"
  shows "Option.bind m' f' = Some r"
  using assms by (cases m) auto

lemma if_mono:
  "(if c then m else n) = Some r \<Longrightarrow> (m = Some r \<Longrightarrow> m' = Some r) \<Longrightarrow> (n = Some r \<Longrightarrow> n' = Some r) \<Longrightarrow>
   (if c then m' else n') = Some r"
  by (cases c) simp_all

lemma clen_append: "clen b s e = Some n \<Longrightarrow> clen (b @ x) s e = Some n"
  unfolding clen_def Let_def
  apply (erule bind_mono, erule rd_append)
  apply (erule if_mono, assumption)
  apply (erule bind_mono, erule if_mono, erule vcbs_append, assumption)
  apply (erule if_mono, assumption)
  apply (erule bind_mono, erule if_mono, erule vcbs_append, assumption)
  apply (erule if_mono, assumption)
  apply (erule bind_mono, erule if_mono, erule vcbs_append, assumption)
  apply assumption
  done

lemma tok_append: "tok b stop s e = Some r \<Longrightarrow> tok (b @ x) stop s e = Some r"
proof (induction b stop s e rule: tok.induct)
  case (1 b stop s e)
  show ?case
  proof (cases "s < e")
    case True
    then obtain c where c: "rd b s = Some c"
      using 1(2) by (auto simp: tok.simps [of b stop s e] split: option.splits)
    note cx = rd_append [OF c, of x]
    show ?thesis
    proof (cases "stop = Some c")
      case t: True
      then have "r = s" using 1(2) True c by (subst (asm) tok.simps) simp
      then show ?thesis using True cx t by (subst tok.simps) simp
    next
      case f: False
      then have f': "Some c \<noteq> stop" by simp
      then obtain n where n: "clen b s e = Some n"
        using 1(2) True c by (subst (asm) tok.simps) (auto split: option.splits)
      note nx = clen_append [OF n, of x]
      show ?thesis
      proof (cases "n > 0")
        case True
        then have "tok b stop (s + n) e = Some r"
          using 1(2) \<open>s < e\<close> c f' n by (subst (asm) tok.simps) simp
        then show ?thesis using 1(1) [OF \<open>s < e\<close> c f' n True] \<open>s < e\<close> cx f' nx True
          by (subst tok.simps) simp
      next
        case False
        then have "r = s" using 1(2) \<open>s < e\<close> c f' n by (subst (asm) tok.simps) simp
        then show ?thesis using \<open>s < e\<close> cx f' nx False by (subst tok.simps) simp
      qed
    qed
  next
    case False
    then have "r = s" using 1(2) by (subst (asm) tok.simps) simp
    then show ?thesis using False by (subst tok.simps) simp
  qed
qed

lemma skip_append: "skip P b s e = Some r \<Longrightarrow> skip P (b @ x) s e = Some r"
proof (induction P b s e rule: skip.induct)
  case (1 P b s e)
  show ?case
  proof (cases "s < e")
    case True
    then obtain c where c: "rd b s = Some c"
      using 1(2) by (auto simp: skip.simps [of P b s e] split: option.splits)
    note cx = rd_append [OF c, of x]
    show ?thesis
    proof (cases "P c")
      case p: True
      then have "skip P b (s + 1) e = Some r" using 1(2) True c by (subst (asm) skip.simps) simp
      then show ?thesis using 1(1) [OF True c p] True cx p by (subst skip.simps) simp
    next
      case p: False
      then have "r = s" using 1(2) True c by (subst (asm) skip.simps) simp
      then show ?thesis using True cx p by (subst skip.simps) simp
    qed
  next
    case False
    then have "r = s" using 1(2) by (subst (asm) skip.simps) simp
    then show ?thesis using False by (subst skip.simps) simp
  qed
qed

lemma skiptorn_append: "skiptorn b s e = Some r \<Longrightarrow> skiptorn (b @ x) s e = Some r"
  unfolding skiptorn_def Let_def
  by (erule bind_mono, erule skip_append)
    (auto simp: rd_append split: Option.bind_splits if_splits)

lemma trim_len_append: "trim_len b s l = Some r \<Longrightarrow> trim_len (b @ x) s l = Some r"
  by (induction b s l rule: trim_len.induct) (auto simp: rd_append split: Option.bind_splits if_splits)

lemma at_eol_append: "at_eol b s = Some r \<Longrightarrow> at_eol (b @ x) s = Some r"
  by (auto simp: at_eol_def rd_append split: Option.bind_splits if_splits)

lemma parse_header_append: "parse_header b s e = Some r \<Longrightarrow> parse_header (b @ x) s e = Some r"
  unfolding parse_header_def
  apply (erule bind_mono, erule tok_append)
  apply (erule if_mono, assumption)
  apply (erule if_mono, assumption)
  apply (erule bind_mono, erule clen_append)
  apply (erule if_mono, assumption)
  apply (erule bind_mono, erule rd_append)
  apply (erule if_mono, assumption)
  apply (erule bind_mono, erule skip_append)
  apply (erule bind_mono, erule skiptorn_append)
  apply (auto simp: trim_len_append split: option.splits Option.bind_splits)
  done

lemma mg_http_parse_headers_append:
  "mg_http_parse_headers b s e m = Some r \<Longrightarrow> mg_http_parse_headers (b @ x) s e m = Some r"
proof (induction m arbitrary: s r)
  case (Suc m)
  from Suc.prems show ?case
    unfolding mg_http_parse_headers.simps
    apply -
    apply (erule if_mono, assumption)
    apply (erule bind_mono, erule at_eol_append)
    apply (erule if_mono, assumption)
    apply (erule bind_mono, erule parse_header_append)
    apply (auto simp: Suc.IH split: option.splits Option.bind_splits)
    done
qed simp

lemma mg_ncasecmp_append: "mg_ncasecmp sg s t n = Some d \<Longrightarrow> mg_ncasecmp sg (s @ x) t n = Some d"
  by (induction sg s t n rule: mg_ncasecmp.induct) (auto simp: Let_def split: if_splits)

lemma text_of_append: "within e v \<Longrightarrow> e \<le> length b \<Longrightarrow> text_of (b @ x) v = text_of b v"
  by (simp add: text_of_def within_def)

lemma mg_http_get_header_append:
  assumes "\<forall>(k, v) \<in> set hs. within e k \<and> within e v" "e \<le> length b"
  shows "mg_http_get_header sg b hs name = Some r \<Longrightarrow> mg_http_get_header sg (b @ x) hs name = Some r"
  using assms(1)
proof (induction hs)
  case (Cons h hs)
  obtain k v where h: "h = (k, v)" by (cases h)
  then have "sbuf k \<le> length b" using Cons.prems(2) assms(2) by (auto simp: within_def)
  then show ?case using Cons h
    by (auto simp: mg_ncasecmp_append split: if_splits Option.bind_splits)
qed simp

lemma http_prefix_append:
  "within e v \<Longrightarrow> e \<le> length b \<Longrightarrow> http_prefix sg b v = Some r \<Longrightarrow> http_prefix sg (b @ x) v = Some r"
  by (auto simp: http_prefix_def within_def mg_ncasecmp_append split: if_splits)

lemma bad_proto_append:
  "within e v \<Longrightarrow> e \<le> length b \<Longrightarrow> bad_proto sg b rsp v = Some r \<Longrightarrow> bad_proto sg (b @ x) rsp v = Some r"
  unfolding bad_proto_def
  apply (erule bind_mono, erule (2) http_prefix_append)
  apply (erule if_mono)
   apply (erule if_mono, assumption)
   apply (erule bind_mono, erule rd_append)
   apply (erule if_mono, assumption)
   apply (erule bind_mono, erule rd_append)
   apply (erule if_mono, assumption)
   apply (erule bind_mono, erule rd_append)
   apply assumption
  apply assumption
  done

lemma split_query_append: "within e u \<Longrightarrow> e \<le> length b \<Longrightarrow> split_query (b @ x) u = split_query b u"
  by (simp add: split_query_def text_of_append)

lemma req_len_loop_append:
  "0 < req_len_loop b i \<Longrightarrow> req_len_loop (b @ x) i = req_len_loop b i"
proof (induction b i rule: req_len_loop.induct)
  case (1 buf i)
  show ?case
  proof (cases "i < length buf")
    case True
    then have "i < length buf" "i - 1 < length buf" "i - 2 < length buf" by linarith+
    then have "(buf @ x) ! i = buf ! i" "(buf @ x) ! (i - 1) = buf ! (i - 1)" "(buf @ x) ! (i - 2) = buf ! (i - 2)"
      by (simp_all only: nth_append if_True)
    then have h: "head_end (buf @ x) i = head_end buf i" unfolding head_end_def by (simp only:)
    show ?thesis using 1 True h
      by (auto simp: req_len_loop.simps [of buf i] req_len_loop.simps [of "buf @ x" i] nth_append)
  next
    case False
    then show ?thesis using 1(2) by (simp add: req_len_loop.simps [of buf i])
  qed
qed

lemma parse_request_line_append:
  assumes h: "head_ok b e"
  shows "parse_request_line sg (b @ x) e = parse_request_line sg b e"
proof -
  note e = head_okD(1) [OF h]
  obtain s1 where s1: "tok b None 0 e = Some s1" "s1 \<le> e" using tok_ok [of 0 e b] e by auto
  obtain s2 where s2: "skip (\<lambda>c. c = 0x20) b s1 e = Some s2" "s2 \<le> e" using skip_ok [OF s1(2) e] by blast
  obtain s3 where s3: "tok b None s2 e = Some s3" "s3 \<le> e" "s2 \<le> s3" using tok_ok [OF s2(2) e] by blast
  obtain s4 where s4: "skip (\<lambda>c. c = 0x20) b s3 e = Some s4" "s4 \<le> e" using skip_ok [OF s3(2) e] by blast
  have w: "within e (slice 0 s1)" "within e (slice s2 s3)" using s1 s3 by (simp_all add: within_def slice_def)
  obtain rsp where rsp: "http_prefix sg b (slice 0 s1) = Some rsp" using http_prefix_ok [OF w(1) e] by blast
  obtain r where r: "skiptorn b s4 e = Some r"
      "\<forall>s' v. r = Some (s', v) \<longrightarrow> s4 < s' \<and> s' \<le> e \<and> sbuf v = s4 \<and> within e v"
    using skiptorn_ok [OF h s4(2)] by blast
  note pre = parse_request_line_def s1(1) s2(1) s3(1) s4(1) rsp r(1) Let_def bind.bind_lunit
    tok_append [OF s1(1)] skip_append [OF s2(1)] tok_append [OF s3(1)] skip_append [OF s4(1)]
    http_prefix_append [OF w(1) e rsp] skiptorn_append [OF r(1)] split_query_append [OF w(2) e]
  show ?thesis
  proof (cases r)
    case None
    then show ?thesis by (simp add: pre)
  next
    case (Some sp)
    then obtain s5 p where sp: "r = Some (s5, p)" by (cases sp) auto
    then have p: "within e p" using r(2) by auto
    obtain bad where bad: "bad_proto sg b rsp p = Some bad" using bad_proto_ok [OF p e] by blast
    show ?thesis by (simp add: pre sp bad bad_proto_append [OF p e bad])
  qed
qed

lemma mg_http_parse_append:
  assumes "0 < mg_http_get_request_len b"
  shows "mg_http_parse sg (b @ x) = mg_http_parse sg b"
proof -
  define e where "e = nat (mg_http_get_request_len b)"
  have h: "head_ok b e" using request_len_head_ok [OF assms] by (simp add: e_def)
  note el = head_okD(1) [OF h]
  have r: "mg_http_get_request_len b = int e" "mg_http_get_request_len (b @ x) = int e"
    using assms req_len_loop_append [of b 0 x] by (simp_all add: e_def mg_http_get_request_len_def)
  obtain rl where rl: "parse_request_line sg b e = Some rl"
    "\<forall>m u q p rsp s. rl = Inr (m, u, q, p, rsp, s) \<longrightarrow>
       within e m \<and> within e u \<and> within e q \<and> within e p \<and> 0 < slen m \<and> 0 < slen u \<and> s \<le> e"
    using parse_request_line_ok [OF h] by blast
  have ep: "\<not> int e \<le> 0" using head_okD(2) [OF h] by simp
  note pre = mg_http_parse_def r Let_def nat_int parse_request_line_append [OF h] rl(1) if_not_P [OF ep] bind.bind_lunit
  show ?thesis
  proof (cases rl)
    case (Inl y)
    then show ?thesis by (simp add: pre del: cstr_Cons)
  next
    case (Inr y)
    then obtain m u q p rsp s where y: "rl = Inr (m, u, q, p, rsp, s)" by (cases y) auto
    then have w: "within e m" "within e u" "s \<le> e" using rl(2) by blast+
    obtain hs where hs: "mg_http_parse_headers b s e MG_MAX_HTTP_HEADERS = Some hs"
        "\<forall>hs'. hs = Some hs' \<longrightarrow> length hs' \<le> MG_MAX_HTTP_HEADERS \<and>
           (\<forall>(k, v) \<in> set hs'. within e k \<and> 0 < slen k \<and> within e v)"
      using mg_http_parse_headers_ok [OF h w(3)] by blast
    note hsx = mg_http_parse_headers_append [OF hs(1), of x]
    show ?thesis
    proof (cases hs)
      case None
      then show ?thesis using hs(1) hsx by (simp add: pre y del: cstr_Cons mg_http_parse_headers.simps)
    next
      case (Some hs')
      then have hw: "\<forall>(k, v) \<in> set hs'. within e k \<and> within e v" using hs(2) by auto
      obtain cl where cl: "mg_http_get_header sg b hs' (cstr ''Content-Length'') = Some cl"
          "\<forall>v. cl = Some v \<longrightarrow> within e v"
        using mg_http_get_header_ok [OF hw el] by blast
      note clx = mg_http_get_header_append [OF hw el cl(1), of x]
      have t: "map_option (text_of (b @ x)) cl = map_option (text_of b) cl"
        using cl(2) text_of_append [OF _ el] by (cases cl) simp_all
      show ?thesis using hs(1) hsx Some cl(1) clx
        by (simp add: pre y t text_of_append [OF w(1) el] text_of_append [OF w(2) el]
            del: cstr_Cons mg_http_parse_headers.simps)
    qed
  qed
qed

text \<open>
  C26: Once the head of a message is there, the parser's answer does not change with the bytes that
  arrive behind it, so that it does not matter how the network cuts the stream.
\<close>

theorem mg_http_parse_stable:
  assumes "0 < mg_http_get_request_len b"
  shows "mg_http_parse sg (b @ x) = mg_http_parse sg b"
  using assms by (rule mg_http_parse_append)

theorem mg_http_parse_stable_witness:
  "mg_http_parse True (get_req @ cstr ''GET'') = mg_http_parse True get_req"
proof (rule mg_http_parse_stable)
  have "mg_http_get_request_len get_req = 5" by code_simp
  then show "0 < mg_http_get_request_len get_req" by simp
qed

subsection \<open>Parsing what was formatted\<close>

definition printable :: "byte \<Rightarrow> bool" where
  "printable c \<longleftrightarrow> 0x20 < c \<and> c \<le> 0x7e"

definition plain :: "byte \<Rightarrow> bool" where
  "plain c \<longleftrightarrow> isok c \<and> c \<noteq> 0x0A \<and> c \<noteq> 0x0D"

definition fmt_header :: "byte list \<times> byte list \<Rightarrow> byte list" where
  "fmt_header h = fst h @ [0x3A, 0x20] @ snd h @ [0x0D, 0x0A]"

definition fmt_request :: "byte list \<Rightarrow> byte list \<Rightarrow> (byte list \<times> byte list) list \<Rightarrow> byte list" where
  "fmt_request m u hs =
     (m @ [0x20] @ u @ 0x20 # cstr ''HTTP/1.1'') @ [0x0D, 0x0A] @ concat (map fmt_header hs) @ [0x0D, 0x0A]"

text \<open>Method, URI and header names are printable, values have no line break and no outer blanks.\<close>

definition good_token :: "byte list \<Rightarrow> bool" where
  "good_token w \<longleftrightarrow> w \<noteq> [] \<and> list_all printable w"

definition good_header :: "byte list \<times> byte list \<Rightarrow> bool" where
  "good_header h \<longleftrightarrow> good_token (fst h) \<and> 0x3A \<notin> set (fst h) \<and> list_all plain (snd h) \<and>
     (snd h \<noteq> [] \<longrightarrow> \<not> is_blank (hd (snd h)) \<and> \<not> is_blank (last (snd h)))"

lemma printable_plain: "printable c \<Longrightarrow> plain c \<and> c \<noteq> 0x20 \<and> \<not> is_blank c"
  by (auto simp: printable_def plain_def isok_def is_blank_def word_less_nat_alt word_le_nat_alt)

lemma good_token_plain: "good_token w \<Longrightarrow> list_all plain w"
  by (auto simp: good_token_def list_all_iff printable_plain)

lemma nth_mid: "(pre @ w @ rest) ! (length pre + i) = (w @ rest) ! i"
  by simp

lemma req_len_skip1:
  assumes "plain c \<or> c = 0x0D"
  shows "req_len_loop (pre @ c # rest) (length pre) = req_len_loop (pre @ c # rest) (length pre + 1)"
proof -
  have "isok c" "c \<noteq> 0x0A" using assms by (auto simp: plain_def isok_def)
  then show ?thesis by (subst req_len_loop.simps) (simp add: head_end_def)
qed

lemma req_len_skip:
  "list_all plain w \<Longrightarrow> req_len_loop (pre @ w @ rest) (length pre) = req_len_loop (pre @ w @ rest) (length pre + length w)"
proof (induction w arbitrary: pre)
  case (Cons c w)
  have "req_len_loop (pre @ (c # w) @ rest) (length pre) = req_len_loop ((pre @ [c]) @ w @ rest) (length (pre @ [c]))"
    using req_len_skip1 [of c pre "w @ rest"] Cons.prems by simp
  also have "\<dots> = req_len_loop ((pre @ [c]) @ w @ rest) (length (pre @ [c]) + length w)"
    using Cons.IH [of "pre @ [c]"] Cons.prems by simp
  finally show ?case by simp
qed simp

text \<open>A line that is not empty, and the empty line.\<close>

lemma req_len_line:
  assumes "list_all plain w" "w \<noteq> []"
  shows "req_len_loop (pre @ w @ [0x0D, 0x0A] @ rest) (length pre) =
    req_len_loop ((pre @ w @ [0x0D, 0x0A]) @ rest) (length (pre @ w @ [0x0D, 0x0A]))"
proof -
  let ?b = "pre @ w @ [0x0D, 0x0A] @ rest"
  obtain v c where w: "w = v @ [c]" using assms(2) by (metis rev_exhaust)
  then have c: "c \<noteq> 0x0A" using assms(1) by (simp add: plain_def)
  have "req_len_loop ?b (length pre) = req_len_loop ?b (length pre + length w)"
    by (rule req_len_skip [OF assms(1)])
  also have "\<dots> = req_len_loop ?b (length pre + length w + 1)"
    using req_len_skip1 [of "0x0D" "pre @ w" "0x0A # rest"] by simp
  also have "\<dots> = req_len_loop ?b (length pre + length w + 2)"
  proof -
    let ?i = "length pre + length w + 1"
    have "?b ! ?i = 0x0A" "?b ! (?i - 1) = 0x0D" by (simp_all add: nth_append)
    moreover have "?b ! (?i - 2) = c" by (simp add: w nth_append)
    ultimately have "\<not> head_end ?b ?i" using c by (simp add: head_end_def)
    moreover have "?i < length ?b" by simp
    moreover have "isok (?b ! ?i)" using \<open>?b ! ?i = 0x0A\<close> by (simp add: isok_def)
    ultimately show ?thesis by (subst req_len_loop.simps) simp
  qed
  finally show ?thesis by simp
qed

lemma req_len_end:
  assumes "pre = q @ [0x0D, 0x0A]" "2 < length pre"
  shows "req_len_loop (pre @ [0x0D, 0x0A] @ rest) (length pre) = int (length pre) + 2"
proof -
  let ?b = "pre @ [0x0D, 0x0A] @ rest"
  have "req_len_loop ?b (length pre) = req_len_loop ?b (length pre + 1)"
    using req_len_skip1 [of "0x0D" pre "0x0A # rest"] by simp
  also have "\<dots> = int (length pre + 1) + 1"
  proof -
    let ?i = "length pre + 1"
    have n: "?b ! ?i = 0x0A" "?b ! (?i - 1) = 0x0D" by (simp_all add: nth_append)
    moreover have "?b ! (?i - 2) = 0x0A" using assms by (simp add: nth_append)
    ultimately have "head_end ?b ?i" using assms(2) by (simp add: head_end_def)
    moreover have "?i < length ?b" by simp
    moreover have "isok (?b ! ?i)" using n by (simp add: isok_def)
    ultimately show ?thesis by (subst req_len_loop.simps) simp
  qed
  finally show ?thesis by simp
qed

lemma fmt_header_line:
  "good_header h \<Longrightarrow> \<exists>w. fmt_header h = w @ [0x0D, 0x0A] \<and> list_all plain w \<and> w \<noteq> []"
  using good_token_plain [of "fst h"]
  by (intro exI [of _ "fst h @ [0x3A, 0x20] @ snd h"])
    (auto simp: fmt_header_def good_header_def good_token_def plain_def isok_def)

lemma req_len_headers:
  "list_all good_header hs \<Longrightarrow> pre = q @ [0x0D, 0x0A] \<Longrightarrow> 2 < length pre \<Longrightarrow>
   req_len_loop (pre @ concat (map fmt_header hs) @ [0x0D, 0x0A] @ rest) (length pre) =
   int (length pre + length (concat (map fmt_header hs))) + 2"
proof (induction hs arbitrary: pre q)
  case Nil
  then show ?case using req_len_end [OF Nil(2,3)] by simp
next
  case (Cons h hs)
  obtain w where w: "fmt_header h = w @ [0x0D, 0x0A]" "list_all plain w" "w \<noteq> []"
    using fmt_header_line [of h] Cons.prems(1) by auto
  let ?t = "concat (map fmt_header hs) @ [0x0D, 0x0A] @ rest"
  have "req_len_loop (pre @ concat (map fmt_header (h # hs)) @ [0x0D, 0x0A] @ rest) (length pre) =
      req_len_loop ((pre @ w @ [0x0D, 0x0A]) @ ?t) (length (pre @ w @ [0x0D, 0x0A]))"
    using req_len_line [OF w(2,3), of pre ?t] by (simp add: w(1))
  also have "\<dots> = int (length (pre @ w @ [0x0D, 0x0A]) + length (concat (map fmt_header hs))) + 2"
    using Cons.prems by (intro Cons.IH [of _ "pre @ w"]) simp_all
  finally show ?case by (simp add: w(1))
qed

lemma fmt_request_len:
  assumes "good_token m" "good_token u" "list_all good_header hs"
  shows "mg_http_get_request_len (fmt_request m u hs @ rest) = int (length (fmt_request m u hs))"
proof -
  define w where "w = m @ [0x20] @ u @ 0x20 # cstr ''HTTP/1.1''"
  have w: "list_all plain w" "w \<noteq> []" "2 < length w"
    using assms(1,2) good_token_plain by (auto simp: w_def plain_def isok_def)
  have "mg_http_get_request_len (fmt_request m u hs @ rest) =
      req_len_loop ([] @ w @ [0x0D, 0x0A] @ concat (map fmt_header hs) @ [0x0D, 0x0A] @ rest) (length ([] :: byte list))"
    by (simp add: mg_http_get_request_len_def fmt_request_def w_def)
  also have "\<dots> = req_len_loop ((w @ [0x0D, 0x0A]) @ concat (map fmt_header hs) @ [0x0D, 0x0A] @ rest)
      (length (w @ [0x0D, 0x0A]))"
    using req_len_line [OF w(1,2), of "[]"] by simp
  also have "\<dots> = int (length (w @ [0x0D, 0x0A]) + length (concat (map fmt_header hs))) + 2"
    using w by (intro req_len_headers [OF assms(3) refl]) simp
  finally show ?thesis by (simp add: fmt_request_def w_def)
qed

lemma clen_printable: "rd b s = Some c \<Longrightarrow> printable c \<Longrightarrow> clen b s e = Some 1"
  by (simp add: clen_def printable_def)

lemma clen_delim: "rd b s = Some c \<Longrightarrow> c \<in> {0x20, 0x0D, 0x0A} \<Longrightarrow> clen b s e = Some 0"
  by (auto simp: clen_def)

lemma rd_mid: "rd (pre @ c # rest) (length pre) = Some c"
  by simp

lemma tok_run:
  "list_all printable w \<Longrightarrow> stop \<notin> Some ` set w \<Longrightarrow> stop = Some c \<or> c \<in> {0x20, 0x0D, 0x0A} \<Longrightarrow>
   length pre + length w < e \<Longrightarrow>
   tok (pre @ w @ c # rest) stop (length pre) e = Some (length pre + length w)"
proof (induction w arbitrary: pre)
  case Nil
  show ?case
  proof (cases "stop = Some c")
    case True
    then show ?thesis using Nil.prems(4) by (subst tok.simps) simp
  next
    case False
    then have "clen (pre @ c # rest) (length pre) e = Some 0"
      using Nil.prems(3) clen_delim [OF rd_mid] by blast
    then show ?thesis using False Nil.prems(4) by (subst tok.simps) simp
  qed
next
  case (Cons d w)
  let ?b = "pre @ (d # w) @ c # rest"
  have d: "rd ?b (length pre) = Some d" by simp
  have "tok ?b stop (length pre) e = tok ?b stop (length pre + 1) e"
    using Cons.prems clen_printable [OF d] by (subst tok.simps) (auto simp: d)
  then show ?case using Cons.IH [of "pre @ [d]"] Cons.prems by simp
qed

lemma skip_run:
  "list_all P w \<Longrightarrow> \<not> P c \<Longrightarrow> length pre + length w < e \<Longrightarrow>
   skip P (pre @ w @ c # rest) (length pre) e = Some (length pre + length w)"
proof (induction w arbitrary: pre)
  case Nil
  then show ?case by (subst skip.simps) simp
next
  case (Cons d w)
  let ?b = "pre @ (d # w) @ c # rest"
  have "skip P ?b (length pre) e = skip P ?b (length pre + 1) e"
    using Cons.prems by (subst skip.simps) simp
  then show ?case using Cons.IH [of "pre @ [d]"] Cons.prems by simp
qed

lemma skiptorn_run:
  assumes "list_all plain w" "length pre + length w + 2 \<le> e"
  shows "skiptorn (pre @ w @ [0x0D, 0x0A] @ rest) (length pre) e =
    Some (Some (length pre + length w + 2, \<lparr>sbuf = length pre, slen = length w\<rparr>))"
proof -
  let ?b = "pre @ w @ 0x0D # 0x0A # rest"
  have "list_all (\<lambda>c. c \<noteq> 0x0A \<and> c \<noteq> 0x0D) w" using assms(1) by (auto simp: list_all_iff plain_def)
  then have "skip (\<lambda>c. c \<noteq> 0x0A \<and> c \<noteq> 0x0D) ?b (length pre) e = Some (length pre + length w)"
    by (rule skip_run) (use assms(2) in simp_all)
  moreover have "rd ?b (length pre + length w) = Some 0x0D" "rd ?b (length pre + length w + 1) = Some 0x0A"
    by (simp_all add: nth_append)
  ultimately show ?thesis using assms(2) by (simp add: skiptorn_def Let_def slice_def)
qed

lemma trim_run:
  assumes "w \<noteq> [] \<longrightarrow> \<not> is_blank (last w)"
  shows "trim_len (pre @ w @ rest) (length pre) (length w) = Some (length w)"
proof (cases w rule: rev_cases)
  case (snoc v c)
  then have "rd (pre @ w @ rest) (length pre + length v) = Some c" by (simp add: nth_append)
  then show ?thesis using assms snoc by simp
qed simp

lemma parse_header_run:
  assumes h: "good_header (k, v)" and e: "length pre + length (fmt_header (k, v)) \<le> e"
  shows "parse_header (pre @ fmt_header (k, v) @ rest) (length pre) e =
    Some (Some ((\<lparr>sbuf = length pre, slen = length k\<rparr>, \<lparr>sbuf = length pre + length k + 2, slen = length v\<rparr>),
      length pre + length (fmt_header (k, v))))"
proof -
  let ?b = "pre @ fmt_header (k, v) @ rest"
  have kv: "k \<noteq> []" "list_all printable k" "0x3A \<notin> set k" "list_all plain v"
      "v \<noteq> [] \<longrightarrow> \<not> is_blank (hd v) \<and> \<not> is_blank (last v)"
    using h by (simp_all add: good_header_def good_token_def)
  have l: "length (fmt_header (k, v)) = length k + length v + 4" by (simp add: fmt_header_def)
  have b1: "?b = pre @ k @ 0x3A # (0x20 # v @ [0x0D, 0x0A] @ rest)" by (simp add: fmt_header_def)
  have t: "tok ?b (Some 0x3A) (length pre) e = Some (length pre + length k)"
    unfolding b1 by (rule tok_run) (use kv e l in auto)
  have c: "rd ?b (length pre + length k) = Some 0x3A" by (simp add: b1 nth_append)
  then have n: "clen ?b (length pre + length k) e = Some 1" by (rule clen_printable) (simp add: printable_def)
  obtain d ds where d: "v @ [0x0D, 0x0A] @ rest = d # ds" "\<not> is_blank d"
    using kv(5) by (cases v) (auto simp: is_blank_def)
  have b2: "?b = (pre @ k @ [0x3A]) @ [0x20] @ d # ds" using d(1) by (simp add: fmt_header_def)
  have s: "skip is_blank ?b (length pre + length k + 1) e = Some (length pre + length k + 2)"
    using skip_run [of is_blank "[0x20]" d "pre @ k @ [0x3A]" e ds] d(2) e l
    unfolding b2 by (simp add: is_blank_def)
  have b3: "?b = (pre @ k @ [0x3A, 0x20]) @ v @ [0x0D, 0x0A] @ rest" by (simp add: fmt_header_def)
  have r: "skiptorn ?b (length pre + length k + 2) e =
      Some (Some (length pre + length k + 2 + length v + 2, \<lparr>sbuf = length pre + length k + 2, slen = length v\<rparr>))"
    using skiptorn_run [OF kv(4), of "pre @ k @ [0x3A, 0x20]" e rest] e l unfolding b3 by simp
  have m: "trim_len ?b (length pre + length k + 2) (length v) = Some (length v)"
    using trim_run [of v "pre @ k @ [0x3A, 0x20]" "[0x0D, 0x0A] @ rest"] kv(5) unfolding b3 by simp
  have "\<not> length pre + length k \<ge> e" "length k \<noteq> 0" using e l kv(1) by simp_all
  then show ?thesis using t n c s r m
    by (simp add: parse_header_def slice_def l del: append_assoc)
qed

lemma text_of_mid: "text_of (pre @ w @ rest) \<lparr>sbuf = length pre, slen = length w\<rparr> = w"
  by (simp add: text_of_def)

lemma text_of_mid2:
  "b = pre @ w @ rest \<Longrightarrow> n = length pre \<Longrightarrow> l = length w \<Longrightarrow> text_of b \<lparr>sbuf = n, slen = l\<rparr> = w"
  by (simp add: text_of_mid)

lemma parse_headers_run:
  "list_all good_header hs \<Longrightarrow> length hs \<le> m \<Longrightarrow> 0 < m \<Longrightarrow>
   b = pre @ concat (map fmt_header hs) @ [0x0D, 0x0A] @ rest \<Longrightarrow>
   e = length pre + length (concat (map fmt_header hs)) + 2 \<Longrightarrow>
   \<exists>sl. mg_http_parse_headers b (length pre) e m = Some (Some sl) \<and>
     map (\<lambda>(k, v). (text_of b k, text_of b v)) sl = hs \<and> list_all (\<lambda>(k, v). 0 < slen k \<and> within e k \<and> within e v) sl"
proof (induction hs arbitrary: pre m)
  case Nil
  then obtain m' where m: "m = Suc m'" by (cases m) auto
  have "at_eol b (length pre) = Some True" by (simp add: at_eol_def Nil nth_append)
  then show ?case using m Nil(5) by simp
next
  case (Cons h hs)
  obtain k v where h: "h = (k, v)" by (cases h)
  obtain m' where m: "m = Suc m'" using Cons.prems(3) by (cases m) auto
  let ?t = "concat (map fmt_header hs) @ [0x0D, 0x0A] @ rest"
  have b: "b = pre @ fmt_header (k, v) @ ?t" using Cons.prems(4) h by simp
  have kv: "good_header (k, v)" "list_all good_header hs" using Cons.prems(1) h by simp_all
  then obtain c k' where k: "k = c # k'" "printable c"
    by (cases k) (auto simp: good_header_def good_token_def)
  then have "c \<noteq> 0x0A" "c \<noteq> 0x0D" using printable_plain by (auto simp: plain_def)
  then have eol: "at_eol b (length pre) = Some False"
    by (simp add: at_eol_def b k fmt_header_def)
  have ph: "parse_header b (length pre) e =
    Some (Some ((\<lparr>sbuf = length pre, slen = length k\<rparr>, \<lparr>sbuf = length pre + length k + 2, slen = length v\<rparr>),
      length pre + length (fmt_header (k, v))))"
    unfolding b by (rule parse_header_run [OF kv(1)]) (simp add: Cons.prems(5) h)
  have "\<exists>sl. mg_http_parse_headers b (length (pre @ fmt_header (k, v))) e m' = Some (Some sl) \<and>
     map (\<lambda>(k, v). (text_of b k, text_of b v)) sl = hs \<and> list_all (\<lambda>(k, v). 0 < slen k \<and> within e k \<and> within e v) sl"
  proof (cases m')
    case 0
    then have "hs = []" using Cons.prems(2) m by simp
    then show ?thesis using 0 by simp
  next
    case (Suc m'')
    then show ?thesis using Cons.prems(2,5) m h by (intro Cons.IH [OF kv(2)]) (simp_all add: b)
  qed
  then obtain sl where sl: "mg_http_parse_headers b (length pre + length (fmt_header (k, v))) e m' = Some (Some sl)"
     "map (\<lambda>(k, v). (text_of b k, text_of b v)) sl = hs" "list_all (\<lambda>(k, v). 0 < slen k \<and> within e k \<and> within e v) sl"
    by auto
  have "text_of b \<lparr>sbuf = length pre, slen = length k\<rparr> = k"
    by (rule text_of_mid2 [where pre = pre]) (simp_all add: b fmt_header_def)
  moreover have "text_of b \<lparr>sbuf = length pre + length k + 2, slen = length v\<rparr> = v"
    by (rule text_of_mid2 [where pre = "pre @ k @ [0x3A, 0x20]"]) (simp_all add: b fmt_header_def)
  moreover have "length pre + length (fmt_header (k, v)) \<le> e" "length (fmt_header (k, v)) = length k + length v + 4"
    by (simp_all add: Cons.prems(5) h fmt_header_def)
  ultimately show ?case using sl eol ph k Cons.prems(5) h m
    by (auto simp: within_def)
qed

text \<open>Header lookup is the first entry whose name agrees up to case.\<close>

fun lookup :: "(byte list \<times> byte list) list \<Rightarrow> byte list \<Rightarrow> byte list option" where
  "lookup [] name = None"
| "lookup ((k, v) # hs) name = (if map lower k = map lower name then Some v else lookup hs name)"

lemma ncasecmp_text:
  assumes "within (length b) k" "length name = slen k" "0 \<notin> set name"
  shows "mg_ncasecmp sg (drop (sbuf k) b) name (length name) = Some 0 \<longleftrightarrow> map lower (text_of b k) = map lower name"
  using mg_ncasecmp_eq_0 [of "length name" "drop (sbuf k) b" name sg] assms
  by (simp add: text_of_def within_def)

lemma mg_http_get_header_lookup:
  assumes "list_all (\<lambda>(k, v). 0 < slen k \<and> within (length b) k \<and> within (length b) v) sl" "0 \<notin> set name"
  shows "\<exists>r. mg_http_get_header sg b sl name = Some r \<and>
    map_option (text_of b) r = lookup (map (\<lambda>(k, v). (text_of b k, text_of b v)) sl) name"
  using assms(1)
proof (induction sl)
  case (Cons h sl)
  obtain k v where h: "h = (k, v)" by (cases h)
  have k: "0 < slen k" "within (length b) k" using Cons.prems h by auto
  have l: "length (text_of b k) = slen k" using k(2) by (simp add: text_of_def within_def)
  obtain r where r: "mg_http_get_header sg b sl name = Some r"
      "map_option (text_of b) r = lookup (map (\<lambda>(k, v). (text_of b k, text_of b v)) sl) name"
    using Cons by auto
  show ?case
  proof (cases "length name = slen k")
    case True
    then have "length name \<le> length (drop (sbuf k) b)" using k(2) by (simp add: within_def)
    then obtain d where d: "mg_ncasecmp sg (drop (sbuf k) b) name (length name) = Some d"
      using mg_ncasecmp_Some [of "length name" "drop (sbuf k) b" name sg] by auto
    have z: "d = 0 \<longleftrightarrow> map lower (text_of b k) = map lower name"
      using ncasecmp_text [OF k(2) True assms(2), of sg] d by simp
    show ?thesis
    proof (cases "d = 0")
      case t: True
      then have "mg_http_get_header sg b (h # sl) name = Some (Some v)" using True d k(1) by (simp add: h)
      then show ?thesis using z t by (simp add: h)
    next
      case f: False
      then have "mg_http_get_header sg b (h # sl) name = Some r" using True d k(1) r(1) by (simp add: h)
      then show ?thesis using z f r(2) by (simp add: h)
    qed
  next
    case False
    then have "mg_http_get_header sg b (h # sl) name = Some r" using k(1) r(1) by (simp add: h)
    moreover have "map lower (text_of b k) \<noteq> map lower name"
      using False l by (metis length_map)
    ultimately show ?thesis using r(2) by (simp add: h)
  qed
qed simp

lemma lower_slash: "lower c = 0x2F \<Longrightarrow> c = 0x2F"
proof (cases "is_upper c")
  case True
  assume "lower c = 0x2F"
  then have "unat (c + 0x20) = 47" using True by (simp add: lower_def)
  then show ?thesis using unat_upper_add [OF True] upper_nat [OF True] by simp
qed (simp add: lower_def)

lemma http_prefix_no_slash:
  assumes "within (length b) v" "0x2F \<notin> set (text_of b v)"
  shows "http_prefix sg b v = Some False"
proof (cases "slen v > 5")
  case True
  define w where "w = drop (sbuf v) b"
  have w: "5 \<le> length w" using True assms(1) by (simp add: w_def within_def)
  have "map lower (take 5 w) \<noteq> map lower (take 5 (cstr ''HTTP/''))"
  proof
    assume eq: "map lower (take 5 w) = map lower (take 5 (cstr ''HTTP/''))"
    have "map lower (take 5 w) ! 4 = lower (w ! 4)" using w by simp
    moreover have "map lower (take 5 (cstr ''HTTP/'')) ! 4 = 0x2F" by code_simp
    ultimately have "lower (w ! 4) = 0x2F" using eq by (simp only:)
    then have "w ! 4 = 0x2F" by (rule lower_slash)
    moreover have "w ! 4 = take (slen v) w ! 4" "4 < length (take (slen v) w)" using True w by simp_all
    ultimately have "0x2F \<in> set (take (slen v) w)" by (metis nth_mem)
    then show False using assms(2) by (simp add: text_of_def w_def)
  qed
  then obtain d where "mg_ncasecmp sg w (cstr ''HTTP/'') 5 = Some d" "d \<noteq> 0"
    using mg_ncasecmp_Some [of 5 w "cstr ''HTTP/''" sg] mg_ncasecmp_eq_0 [of 5 w "cstr ''HTTP/''" sg] w
    by auto
  then show ?thesis using True by (simp add: http_prefix_def w_def)
qed (simp add: http_prefix_def)

definition uri_path :: "byte list \<Rightarrow> byte list" where
  "uri_path u = takeWhile (\<lambda>c. c \<noteq> 0x3F) u"

definition uri_query :: "byte list \<Rightarrow> byte list" where
  "uri_query u = drop 1 (dropWhile (\<lambda>c. c \<noteq> 0x3F) u)"

lemma split_query_run:
  assumes b: "b = pre @ u @ rest" and s: "split_query b \<lparr>sbuf = length pre, slen = length u\<rparr> = (u', q)"
  shows "text_of b u' = uri_path u" "text_of b q = uri_query u" "slen u' = length (uri_path u)"
proof -
  define i where "i = span_len u 0x3F"
  have i: "i = length (uri_path u)" "i \<le> length u"
    using length_takeWhile_le by (auto simp: i_def span_len_takeWhile uri_path_def)
  have t: "text_of b \<lparr>sbuf = length pre, slen = length u\<rparr> = u" unfolding b by (rule text_of_mid)
  have d: "dropWhile (\<lambda>c. c \<noteq> 0x3F) u = drop i u" "take i u = uri_path u"
    unfolding i(1) uri_path_def by (simp_all add: dropWhile_eq_drop takeWhile_eq_take [symmetric])
  show "text_of b u' = uri_path u" "text_of b q = uri_query u" "slen u' = length (uri_path u)"
  proof -
    consider "i < length u" | "i = length u" using i(2) by linarith
    then have "text_of b u' = uri_path u \<and> text_of b q = uri_query u \<and> slen u' = length (uri_path u)"
    proof cases
      case 1
      then have "u' = \<lparr>sbuf = length pre, slen = i\<rparr>" "q = \<lparr>sbuf = length pre + i + 1, slen = length u - (i + 1)\<rparr>"
        using s by (auto simp: split_query_def t Let_def i_def)
      then show ?thesis using 1 d i(1)
        by (simp add: text_of_def b uri_query_def drop_append)
    next
      case 2
      then have uq: "u' = \<lparr>sbuf = length pre, slen = length u\<rparr>" "q = no_slice"
        using s by (auto simp: split_query_def t Let_def i_def)
      have "dropWhile (\<lambda>c. c \<noteq> 0x3F) u = []" unfolding d(1) using 2 by simp
      then have "uri_query u = []" unfolding uri_query_def by (simp only: drop_Nil)
      with uq 2 d i(1) t show ?thesis by (simp add: text_of_def)
    qed
    then show "text_of b u' = uri_path u" "text_of b q = uri_query u" "slen u' = length (uri_path u)" by blast+
  qed
qed

lemma http_version_ok:
  assumes b: "b = pre @ cstr ''HTTP/1.1'' @ rest"
  shows "bad_proto sg b False \<lparr>sbuf = length pre, slen = 8\<rparr> = Some False"
proof -
  have d: "drop (length pre) b = cstr ''HTTP/1.1'' @ rest" by (simp add: b)
  have "mg_ncasecmp sg (drop (length pre) b) (cstr ''HTTP/'') 5 = Some 0"
    unfolding d by (subst mg_ncasecmp_eq_0) simp_all
  then have "http_prefix sg b \<lparr>sbuf = length pre, slen = 8\<rparr> = Some True" by (simp add: http_prefix_def del: cstr_Cons)
  moreover have "rd b (length pre + 5) = Some 0x31" "rd b (length pre + 6) = Some 0x2E" "rd b (length pre + 7) = Some 0x31"
    by (simp_all add: b nth_append)
  ultimately show ?thesis by (simp add: bad_proto_def)
qed

lemma parse_request_line_run:
  assumes m: "good_token m" "0x2F \<notin> set m" and u: "good_token u" "hd u \<noteq> 0x3F"
    and b: "b = m @ [0x20] @ u @ [0x20] @ cstr ''HTTP/1.1'' @ [0x0D, 0x0A] @ t"
    and e: "length m + length u + 12 \<le> e" "e \<le> length b"
  shows "\<exists>u' q. parse_request_line sg b e = Some (Inr (\<lparr>sbuf = 0, slen = length m\<rparr>, u', q,
      \<lparr>sbuf = length m + length u + 2, slen = 8\<rparr>, False, length m + length u + 12)) \<and>
    text_of b u' = uri_path u \<and> text_of b q = uri_query u"
proof -
  let ?p = "cstr ''HTTP/1.1''"
  have mw: "m \<noteq> []" "list_all printable m" and uw: "u \<noteq> []" "list_all printable u"
    using m u by (simp_all add: good_token_def)
  have b1: "b = [] @ m @ 0x20 # (u @ [0x20] @ ?p @ [0x0D, 0x0A] @ t)" by (simp add: b)
  have s1: "tok b None 0 e = Some (length m)"
    using tok_run [of m None "0x20" "[]" e] mw e unfolding b1 by simp
  obtain c us where us: "u = c # us" "c \<noteq> 0x20" using uw printable_plain by (cases u) auto
  have b2: "b = m @ [0x20] @ c # (us @ [0x20] @ ?p @ [0x0D, 0x0A] @ t)" by (simp add: b us)
  have s2: "skip (\<lambda>c. c = 0x20) b (length m) e = Some (length m + 1)"
    using skip_run [of "\<lambda>c. c = 0x20" "[0x20]" c m e] us e unfolding b2 by simp
  have b3: "b = (m @ [0x20]) @ u @ 0x20 # (?p @ [0x0D, 0x0A] @ t)" by (simp add: b)
  have s3: "tok b None (length m + 1) e = Some (length m + 1 + length u)"
    using tok_run [of u None "0x20" "m @ [0x20]" e] uw e unfolding b3 by simp
  have b4: "b = (m @ [0x20] @ u) @ [0x20] @ 0x48 # (cstr ''TTP/1.1'' @ [0x0D, 0x0A] @ t)" by (simp add: b)
  have s4: "skip (\<lambda>c. c = 0x20) b (length m + 1 + length u) e = Some (length m + length u + 2)"
    using skip_run [of "\<lambda>c. c = 0x20" "[0x20]" "0x48" "m @ [0x20] @ u" e] e unfolding b4 by simp
  have b5: "b = (m @ [0x20] @ u @ [0x20]) @ ?p @ [0x0D, 0x0A] @ t" by (simp add: b)
  have "list_all plain ?p" by (simp add: plain_def isok_def)
  then have s5: "skiptorn b (length m + length u + 2) e =
      Some (Some (length m + length u + 12, \<lparr>sbuf = length m + length u + 2, slen = 8\<rparr>))"
    using skiptorn_run [of ?p "m @ [0x20] @ u @ [0x20]" e t] e unfolding b5 by simp
  have tm: "text_of b \<lparr>sbuf = 0, slen = length m\<rparr> = m" by (rule text_of_mid2 [OF b1]) simp_all
  have "within (length b) \<lparr>sbuf = 0, slen = length m\<rparr>" using e by (simp add: within_def)
  then have hp: "http_prefix sg b \<lparr>sbuf = 0, slen = length m\<rparr> = Some False"
    by (rule http_prefix_no_slash) (simp add: tm m(2))
  have bp: "bad_proto sg b False \<lparr>sbuf = length m + length u + 2, slen = 8\<rparr> = Some False"
    using http_version_ok [OF b5, of sg] by simp
  obtain u' q where uq: "split_query b \<lparr>sbuf = length m + 1, slen = length u\<rparr> = (u', q)" by fastforce
  then have uq': "text_of b u' = uri_path u" "text_of b q = uri_query u" "slen u' = length (uri_path u)"
    using split_query_run [OF b3, of u' q] by simp_all
  have "uri_path u \<noteq> []" using u(2) us by (simp add: uri_path_def)
  then have "parse_request_line sg b e = Some (Inr (\<lparr>sbuf = 0, slen = length m\<rparr>, u', q,
      \<lparr>sbuf = length m + length u + 2, slen = 8\<rparr>, False, length m + length u + 12))"
    using mw(1) uq' s1 s2 s3 s4 s5 hp bp uq
    by (simp add: parse_request_line_def Let_def slice_def)
  then show ?thesis using uq' by blast
qed

lemma mg_http_parse_request_ok:
  assumes m: "good_token m" "0x2F \<notin> set m" and u: "good_token u" "hd u \<noteq> 0x3F"
    and hs: "list_all good_header hs" "length hs \<le> 30"
    and b: "b = fmt_request m u hs @ rest" and e: "e = length (fmt_request m u hs)"
    and len: "body_length sg e (lookup hs (cstr ''Content-Length'')) False m (uri_path u) = Some (bl, ml)"
  shows "\<exists>hm. mg_http_parse sg b = Some (int e, hm) \<and>
    text_of b (http_method hm) = m \<and> text_of b (uri hm) = uri_path u \<and> text_of b (query hm) = uri_query u \<and>
    text_of b (proto hm) = cstr ''HTTP/1.1'' \<and>
    map (\<lambda>(k, v). (text_of b k, text_of b v)) (headers hm) = hs \<and>
    body hm = \<lparr>sbuf = e, slen = bl\<rparr> \<and> slen (message hm) = ml \<and> sbuf (http_method hm) = 0 \<and>
    list_all (\<lambda>(k, v). 0 < slen k \<and> within (length b) k \<and> within (length b) v) (headers hm)"
proof -
  let ?t = "concat (map fmt_header hs) @ [0x0D, 0x0A] @ rest"
  let ?pre = "m @ [0x20] @ u @ [0x20] @ cstr ''HTTP/1.1'' @ [0x0D, 0x0A]"
  have b1: "b = m @ [0x20] @ u @ [0x20] @ cstr ''HTTP/1.1'' @ [0x0D, 0x0A] @ ?t"
    and b2: "b = ?pre @ concat (map fmt_header hs) @ [0x0D, 0x0A] @ rest"
    by (simp_all add: b fmt_request_def)
  have el: "e = length ?pre + length (concat (map fmt_header hs)) + 2" "length ?pre = length m + length u + 12"
    by (simp_all add: e fmt_request_def)
  have eb: "e \<le> length b" "0 < e" by (simp_all add: b e fmt_request_def)
  have rl: "mg_http_get_request_len b = int e" unfolding b e by (rule fmt_request_len [OF m(1) u(1) hs(1)])
  obtain u' q where line: "parse_request_line sg b e = Some (Inr (\<lparr>sbuf = 0, slen = length m\<rparr>, u', q,
      \<lparr>sbuf = length m + length u + 2, slen = 8\<rparr>, False, length m + length u + 12))"
      and uq: "text_of b u' = uri_path u" "text_of b q = uri_query u"
  proof -
    have "length m + length u + 12 \<le> e" unfolding el by simp
    from parse_request_line_run [OF m u b1 this eb(1), of sg] show thesis using that by blast
  qed
  obtain sl where sl: "mg_http_parse_headers b (length m + length u + 12) e MG_MAX_HTTP_HEADERS = Some (Some sl)"
     "map (\<lambda>(k, v). (text_of b k, text_of b v)) sl = hs" "list_all (\<lambda>(k, v). 0 < slen k \<and> within e k \<and> within e v) sl"
    using parse_headers_run [OF hs(1) hs(2) _ b2 el(1)] unfolding el(2) by auto
  have lw: "list_all (\<lambda>(k, v). 0 < slen k \<and> within (length b) k \<and> within (length b) v) sl"
    using sl(3) eb(1) by (auto simp: list_all_iff within_def)
  then obtain r where r: "mg_http_get_header sg b sl (cstr ''Content-Length'') = Some r"
      "map_option (text_of b) r = lookup hs (cstr ''Content-Length'')"
    using mg_http_get_header_lookup [of b sl "cstr ''Content-Length''" sg] sl(2) by auto
  have tm: "text_of b \<lparr>sbuf = 0, slen = length m\<rparr> = m"
    by (rule text_of_mid2 [where pre = "[]" and rest = "[0x20] @ u @ [0x20] @ cstr ''HTTP/1.1'' @ [0x0D, 0x0A] @ ?t"])
      (simp_all add: b1)
  have tp: "text_of b \<lparr>sbuf = length m + length u + 2, slen = 8\<rparr> = cstr ''HTTP/1.1''"
    by (rule text_of_mid2 [where pre = "m @ [0x20] @ u @ [0x20]" and rest = "[0x0D, 0x0A] @ ?t"])
      (simp_all add: b1)
  have "mg_http_parse sg b = Some (int e, \<lparr>http_method = \<lparr>sbuf = 0, slen = length m\<rparr>, uri = u', query = q,
      proto = \<lparr>sbuf = length m + length u + 2, slen = 8\<rparr>, headers = sl, body = \<lparr>sbuf = e, slen = bl\<rparr>,
      head = slice 0 e, message = \<lparr>sbuf = 0, slen = ml\<rparr>\<rparr>)"
    using eb(2) line sl(1) r len
    by (simp add: mg_http_parse_def Let_def rl tm uq(1) del: cstr_Cons mg_http_parse_headers.simps)
  then show ?thesis using tm uq tp sl(2) lw by (intro exI conjI) (assumption | simp)+
qed



end
