(* ===== verification/Mg_Http.thy ===== *)
theory Mg_Http
  imports Mg_Http_Parse Fmt Mg_Iobuf
begin

text \<open>
  The HTTP protocol handler of mongoose (\<^verbatim>\<open>src/http.c\<close>): \<open>http_cb\<close>, which cuts the received bytes
  into messages and hands them to the user's handler, \<open>skip_chunk\<close> for chunked bodies, and
  \<open>mg_http_reply\<close> for fixed responses.

  Of a connection the model keeps the two buffers and the flags this code uses. The buffers are
  their contents (theory \<open>Mg_Iobuf\<close> relates contents to allocations); the allocator is assumed to
  succeed here. The user's event handler is the parameter \<open>fn\<close>: it sees the event, the received
  bytes from the message on and the parsed message, and may change the connection. A read outside
  of the received bytes, or a call the C standard leaves undefined, ends the run with \<open>Crash\<close>.
\<close>

subsection \<open>Connections\<close>

text \<open>
  The protocol function of a connection: none, \<open>http_cb\<close>, or \<open>static_cb\<close> with its data, the rest of the
  file that is being sent and how many bytes of it are still to go.
\<close>

datatype pfn = NO_PFN | HTTP_CB | STATIC_CB "byte list" nat

record http_conn =
  recv :: "byte list"
  send :: "byte list"
  is_resp :: bool
  is_accepted :: bool
  is_client :: bool
  is_draining :: bool
  is_closing :: bool
  pfn :: pfn

datatype mg_ev = MG_EV_ERROR | MG_EV_OPEN | MG_EV_POLL | MG_EV_RESOLVE | MG_EV_CONNECT | MG_EV_ACCEPT
  | MG_EV_TLS_HS | MG_EV_READ | MG_EV_WRITE | MG_EV_CLOSE | MG_EV_HTTP_HDRS | MG_EV_HTTP_MSG
  | MG_EV_WS_OPEN | MG_EV_WS_MSG | MG_EV_WS_CTL | MG_EV_MQTT_CMD | MG_EV_MQTT_MSG | MG_EV_MQTT_OPEN
  | MG_EV_SNTP_TIME | MG_EV_WAKEUP | MG_EV_USER

type_synonym handler = "mg_ev \<Rightarrow> byte list \<Rightarrow> mg_http_message \<Rightarrow> http_conn \<Rightarrow> http_conn"

text \<open>\<open>mg_call\<close> of the HTTP events: \<open>http_cb\<close> itself ignores them.\<close>

definition mg_call :: "handler \<Rightarrow> mg_ev \<Rightarrow> byte list \<Rightarrow> mg_http_message \<Rightarrow> http_conn \<Rightarrow> http_conn" where
  "mg_call fn ev b hm c = fn ev b hm c"

definition mg_error :: "handler \<Rightarrow> http_conn \<Rightarrow> http_conn" where
  "mg_error fn c = mg_call fn MG_EV_ERROR [] hm_zero (c\<lparr>is_closing := True\<rparr>)"

subsection \<open>Fixed responses\<close>

definition status_table :: "(nat \<times> string) list" where
  "status_table = [
     (100, ''Continue''), (101, ''Switching Protocols''), (102, ''Processing''), (200, ''OK''),
     (201, ''Created''), (202, ''Accepted''), (203, ''Non-authoritative Information''),
     (204, ''No Content''), (205, ''Reset Content''), (206, ''Partial Content''),
     (207, ''Multi-Status''), (208, ''Already Reported''), (226, ''IM Used''),
     (300, ''Multiple Choices''), (301, ''Moved Permanently''), (302, ''Found''), (303, ''See Other''),
     (304, ''Not Modified''), (305, ''Use Proxy''), (307, ''Temporary Redirect''),
     (308, ''Permanent Redirect''), (400, ''Bad Request''), (401, ''Unauthorized''),
     (402, ''Payment Required''), (403, ''Forbidden''), (404, ''Not Found''),
     (405, ''Method Not Allowed''), (406, ''Not Acceptable''), (407, ''Proxy Authentication Required''),
     (408, ''Request Timeout''), (409, ''Conflict''), (410, ''Gone''), (411, ''Length Required''),
     (412, ''Precondition Failed''), (413, ''Payload Too Large''), (414, ''Request-URI Too Long''),
     (415, ''Unsupported Media Type''), (416, ''Requested Range Not Satisfiable''),
     (417, ''Expectation Failed''), (418, ''I'' @ [CHR 0x27] @ ''m a teapot''), (421, ''Misdirected Request''),
     (422, ''Unprocessable Entity''), (423, ''Locked''), (424, ''Failed Dependency''),
     (426, ''Upgrade Required''), (428, ''Precondition Required''), (429, ''Too Many Requests''),
     (431, ''Request Header Fields Too Large''), (444, ''Connection Closed Without Response''),
     (451, ''Unavailable For Legal Reasons''), (499, ''Client Closed Request''),
     (500, ''Internal Server Error''), (501, ''Not Implemented''), (502, ''Bad Gateway''),
     (503, ''Service Unavailable''), (504, ''Gateway Timeout''), (505, ''HTTP Version Not Supported''),
     (506, ''Variant Also Negotiates''), (507, ''Insufficient Storage''), (508, ''Loop Detected''),
     (510, ''Not Extended''), (511, ''Network Authentication Required''),
     (599, ''Network Connect Timeout Error'')]"

definition mg_http_status_code_str :: "nat \<Rightarrow> string" where
  "mg_http_status_code_str code = (case map_of status_table code of None \<Rightarrow> '''' | Some s \<Rightarrow> s)"

abbreviation crlf :: "byte list" where "crlf \<equiv> [0x0D, 0x0A]"

text \<open>
  The response: the length is printed left-justified in 10 columns and one more blank over the
  twelve blanks of the template, the first of which stays.
\<close>

definition http_reply_bytes :: "nat \<Rightarrow> byte list \<Rightarrow> byte list \<Rightarrow> byte list" where
  "http_reply_bytes code hdrs content =
     cstr ''HTTP/1.1 '' @ cstr (dec_nat code) @ cstr '' '' @ cstr (mg_http_status_code_str code) @ crlf @
     hdrs @ cstr ''Content-Length: '' @ cstr (padr 10 (dec_nat (length content))) @ cstr '' '' @ crlf @ crlf @ content"

definition mg_http_reply :: "http_conn \<Rightarrow> nat \<Rightarrow> byte list \<Rightarrow> byte list \<Rightarrow> http_conn" where
  "mg_http_reply c code hdrs content = c\<lparr>send := send c @ http_reply_bytes code hdrs content, is_resp := False\<rparr>"

subsection \<open>Chunked bodies\<close>

definition is_hex_digit :: "byte \<Rightarrow> bool" where
  "is_hex_digit c \<longleftrightarrow> (0x30 \<le> c \<and> c \<le> 0x39) \<or> (0x61 \<le> c \<and> c \<le> 0x66) \<or> (0x41 \<le> c \<and> c \<le> 0x46)"

text \<open>
  The chunk at the head of \<open>b\<close>: its whole length, and for a positive one the lengths \<open>pl\<close> of its
  prefix and \<open>dl\<close> of its data.
\<close>

definition skip_chunk :: "byte list \<Rightarrow> (int \<times> nat \<times> nat) option" where
  "skip_chunk b =
     (let l = length b; i = length (takeWhile is_hex_digit b) in
      if l < 3 then Some (0, 0, 0)
      else if i = 0 then Some (-1, 0, 0)
      else if i > 8 then Some (-1, 0, 0)
      else if l < i + 1 then Some (-1, 0, 0) else do {
      c \<leftarrow> rd b i;
      if c \<noteq> 0x0D then Some (-1, 0, 0) else do {
      d \<leftarrow> rd b (i + 1);
      if d \<noteq> 0x0A then Some (-1, 0, 0)
      else (case mg_str_to_num (take i b) 16 4 of None \<Rightarrow> Some (-1, 0, 0)
      | Some n \<Rightarrow>
          if n \<ge> 2 ^ 31 then Some (-1, 0, 0)
          else if int n > int l - int i - 4 then Some (0, 0, 0) else do {
          c2 \<leftarrow> rd b (i + n + 2);
          if c2 \<noteq> 0x0D then Some (-1, 0, 0) else do {
          d2 \<leftarrow> rd b (i + n + 3);
          if d2 \<noteq> 0x0A then Some (-1, 0, 0)
          else Some (int (i + 2 + n + 2), i + 2, n) } }) } })"

text \<open>
  The first pass: the result of the last \<open>skip_chunk\<close> call, at offset \<open>off\<close> of the body \<open>s\<close>. The test
  \<open>off < length s\<close> of the model never fails, as \<open>skip_chunk\<close> returns 0 on less than three bytes.
\<close>

function chunk_scan :: "byte list \<Rightarrow> nat \<Rightarrow> int option" where
  "chunk_scan s off =
     (case skip_chunk (drop off s) of None \<Rightarrow> None
      | Some (cl, pl, dl) \<Rightarrow>
          if cl > 0 \<and> dl \<noteq> 0 \<and> off < length s then chunk_scan s (off + nat cl) else Some cl)"
  by pat_completeness auto
termination by (relation "measure (\<lambda>(s, off). length s - off)") auto

text \<open>
  The second pass: data moved to the front of the body. It returns the body buffer, how far the
  chunks reach and the length of the data.
\<close>

function chunk_strip :: "byte list \<Rightarrow> nat \<Rightarrow> nat \<Rightarrow> (byte list \<times> nat \<times> nat) option" where
  "chunk_strip s off bl =
     (case skip_chunk (drop off s) of None \<Rightarrow> None
      | Some (cl, pl, dl) \<Rightarrow>
          if cl > 0 \<and> off < length s then
            (case rd_bytes s (off + pl) dl of None \<Rightarrow> None
             | Some d \<Rightarrow> (case wr_bytes s bl d of None \<Rightarrow> None
                | Some s' \<Rightarrow>
                    if dl = 0 then Some (s', off + nat cl, bl)
                    else chunk_strip s' (off + nat cl) (bl + dl)))
          else Some (s, off, bl))"
  by pat_completeness auto
termination
  by (relation "measure (\<lambda>(s, off, bl). length s - off)") (auto dest: wr_bytes_length)

declare chunk_scan.simps [simp del] chunk_strip.simps [simp del]

subsection \<open>The protocol handler\<close>

text \<open>
  \<open>atoi\<close> of the C library, on bytes that hold the end of the number; \<open>None\<close> when the value does
  not fit, which C leaves undefined.
\<close>

definition atoi_c :: "byte list \<Rightarrow> int option" where
  "atoi_c s =
     (let s1 = dropWhile (\<lambda>c. c = 0x20 \<or> (0x09 \<le> c \<and> c \<le> 0x0D)) s;
          neg = (s1 \<noteq> [] \<and> hd s1 = 0x2D);
          s2 = (if s1 \<noteq> [] \<and> (hd s1 = 0x2D \<or> hd s1 = 0x2B) then tl s1 else s1);
          v = foldl (\<lambda>a c. 10 * a + (uint c - 0x30)) 0 (takeWhile is_digit s2);
          r = (if neg then - v else v)
      in if - (2 ^ 31) \<le> r \<and> r < 2 ^ 31 then Some r else None)"

datatype 'a run = Loop 'a | Break 'a | Return 'a | Crash

text \<open>
  The case of a message without \<open>Transfer-Encoding\<close> and \<open>Content-length\<close>: the new parsing offset, and
  the connection after the 411 reply where one is sent.
\<close>

definition no_length :: "bool \<Rightarrow> byte list \<Rightarrow> mg_http_message \<Rightarrow> nat \<Rightarrow> http_conn \<Rightarrow> nat \<Rightarrow> (http_conn \<times> nat) option" where
  "no_length sg b hm n c ofs = do {
     d \<leftarrow> mg_ncasecmp sg (drop (sbuf (http_method hm)) b) (cstr ''HTTP/'') 5;
     let is_response = (d = 0);
     let post = (\<not> is_response \<and> (mg_strcasecmp sg (text_of b (http_method hm)) (cstr ''POST'') = 0 \<or>
                                   mg_strcasecmp sg (text_of b (http_method hm)) (cstr ''PUT'') = 0));
     status \<leftarrow> (if is_response then atoi_c (drop (sbuf (uri hm)) b) else Some 0);
     let require = (post \<or> (is_response \<and> status \<ge> 200 \<and> status \<noteq> 204 \<and> status \<noteq> 304));
     Some (if require \<and> \<not> is_client c then mg_http_reply c 411 [] [] else c,
           if post then szt (ofs + n) else ofs) }"

text \<open>
  Collecting the body: chunked or plain. \<open>Inl True\<close> breaks out of the loop to wait for more data,
  \<open>Inl False\<close> is an invalid chunk; otherwise the new received bytes, the new offset and the body length.
\<close>

definition chunked_body ::
  "http_conn \<Rightarrow> nat \<Rightarrow> nat \<Rightarrow> (bool + byte list \<times> nat \<times> nat) option" where
  "chunked_body c ofs n = do {
     let s = drop (ofs + n) (recv c);
     cl \<leftarrow> chunk_scan s 0;
     if cl = 0 then Some (Inl True)
     else if cl < 0 then Some (Inl False)
     else do {
       (s', off, bl) \<leftarrow> chunk_strip s 0 0;
       Some (Inr (take (ofs + n) (recv c) @ s', ofs + (n + off), bl)) } }"

definition plain_body :: "http_conn \<Rightarrow> nat \<Rightarrow> nat \<Rightarrow> nat \<Rightarrow> nat option" where
  "plain_body c ofs n bl =
     (let len = szt (2 * 2 ^ 64 + length (recv c) - ofs - n) in
      if bl > len then None else Some (szt (ofs + (n + bl))))"

text \<open>From a complete message to the user's handler, and what its answer means for the connection.\<close>

definition deliver ::
  "bool \<Rightarrow> handler \<Rightarrow> nat \<Rightarrow> mg_http_message \<Rightarrow> http_conn \<Rightarrow> nat \<Rightarrow> (http_conn \<times> nat) run" where
  "deliver sg fn start hm c ofs =
     (let c1 = (if is_accepted c then c\<lparr>is_resp := True\<rparr> else c);
          b = drop start (recv c1);
          c2 = mg_call fn MG_EV_HTTP_MSG b hm c1 in
      if is_accepted c2 \<and> \<not> is_resp c2 then
        (case mg_http_get_header sg (drop start (recv c2)) (headers hm) (cstr ''Connection'') of
           None \<Rightarrow> Crash
         | Some None \<Rightarrow> Loop (c2, ofs)
         | Some (Some cc) \<Rightarrow>
             if mg_strcasecmp sg (text_of (drop start (recv c2)) cc) (cstr ''close'') = 0
             then Break (c2\<lparr>is_draining := True\<rparr>, ofs) else Loop (c2, ofs))
      else Loop (c2, ofs))"

text \<open>The rest of the loop body for a message with headers \<open>hm\<close>, \<open>n\<close> bytes of head, at offset \<open>ofs\<close>.\<close>

definition http_body ::
  "bool \<Rightarrow> handler \<Rightarrow> mg_http_message \<Rightarrow> nat \<Rightarrow> http_conn \<Rightarrow> nat \<Rightarrow> (http_conn \<times> nat) run" where
  "http_body sg fn hm n c ofs =
     (let b = drop ofs (recv c) in
      case mg_http_get_header sg b (headers hm) (cstr ''Transfer-Encoding'') of
        None \<Rightarrow> Crash
      | Some (Some te) \<Rightarrow>
          if mg_strcasecmp sg (text_of b te) (cstr ''chunked'') = 0 then
            (case chunked_body c ofs n of
               None \<Rightarrow> Crash
             | Some (Inl wait) \<Rightarrow> Break (if wait then c else mg_error fn c, ofs)
             | Some (Inr (r, ofs', bl)) \<Rightarrow>
                 deliver sg fn ofs (hm\<lparr>body := (body hm)\<lparr>slen := bl\<rparr>, message := (message hm)\<lparr>slen := n + bl\<rparr>\<rparr>)
                   (c\<lparr>recv := r\<rparr>) ofs')
          else Return (mg_error fn c, ofs)
      | Some None \<Rightarrow>
          (case mg_http_get_header sg b (headers hm) (cstr ''Content-length'') of
             None \<Rightarrow> Crash
           | Some clh \<Rightarrow>
               (case (if clh = None then no_length sg b hm n c ofs else Some (c, ofs)) of
                  None \<Rightarrow> Crash
                | Some (c1, ofs1) \<Rightarrow>
                    (case plain_body c1 ofs1 n (slen (body hm)) of
                       None \<Rightarrow> Break (c1, ofs1)
                     | Some ofs2 \<Rightarrow> deliver sg fn ofs hm c1 ofs2))))"

text \<open>One round of the loop in \<open>http_cb\<close>.\<close>

definition http_step :: "bool \<Rightarrow> handler \<Rightarrow> mg_ev \<Rightarrow> http_conn \<Rightarrow> nat \<Rightarrow> (http_conn \<times> nat) run" where
  "http_step sg fn ev c ofs =
     (if is_resp c \<or> ofs \<ge> length (recv c) then Break (c, ofs)
      else let b = drop ofs (recv c) in
        (case mg_http_parse sg b of
           None \<Rightarrow> Crash
         | Some (n, hm) \<Rightarrow>
             if n < 0 then Return (c\<lparr>is_draining := True, recv := []\<rparr>, ofs)
             else if n = 0 then Break (c, ofs)
             else let c1 = mg_call fn MG_EV_HTTP_HDRS b hm c in
               if length (recv c1) \<noteq> length (recv c) then Return (c1\<lparr>pfn := NO_PFN\<rparr>, ofs)
               else let ml = length (recv c1) - ofs;
                        hm1 = (if ev = MG_EV_CLOSE
                               then hm\<lparr>message := (message hm)\<lparr>slen := ml\<rparr>, body := (body hm)\<lparr>slen := ml - nat n\<rparr>\<rparr>
                               else hm)
                    in http_body sg fn hm1 (nat n) c1 ofs))"

partial_function (option) http_loop ::
  "bool \<Rightarrow> handler \<Rightarrow> mg_ev \<Rightarrow> http_conn \<Rightarrow> nat \<Rightarrow> (http_conn \<times> nat) run option" where
  "http_loop sg fn ev c ofs =
     (case http_step sg fn ev c ofs of
        Loop (c', ofs') \<Rightarrow> http_loop sg fn ev c' ofs'
      | r \<Rightarrow> Some r)"

text \<open>
  \<open>http_cb\<close>: the outer \<open>None\<close> is a loop that does not end, the inner one undefined behaviour. The
  processed bytes are deleted unless the loop returned early.
\<close>

definition http_cb :: "bool \<Rightarrow> handler \<Rightarrow> http_conn \<Rightarrow> mg_ev \<Rightarrow> http_conn option option" where
  "http_cb sg fn c ev =
     (if ev = MG_EV_READ \<or> ev = MG_EV_CLOSE \<or>
         (ev = MG_EV_POLL \<and> is_accepted c \<and> \<not> is_draining c \<and> recv c \<noteq> [])
      then (case http_loop sg fn ev c 0 of
          None \<Rightarrow> None
        | Some (Break (c', ofs)) \<Rightarrow> Some (Some (c'\<lparr>recv := drop ofs (recv c')\<rparr>))
        | Some (Return (c', ofs)) \<Rightarrow> Some (Some c')
        | Some _ \<Rightarrow> Some None)
      else Some (Some c))"

subsection \<open>Chunked bodies decode\<close>

text \<open>\<open>chunk_size h n\<close>: the hexadecimal digits \<open>h\<close> announce \<open>n\<close> bytes.\<close>

definition chunk_size :: "byte list \<Rightarrow> nat \<Rightarrow> bool" where
  "chunk_size h n \<longleftrightarrow> h \<noteq> [] \<and> length h \<le> 8 \<and> list_all is_hex_digit h \<and> mg_str_to_num h 16 4 = Some n \<and> n < 2 ^ 31"

definition chunk_enc :: "byte list \<times> byte list \<Rightarrow> byte list" where
  "chunk_enc c = fst c @ crlf @ snd c @ crlf"

definition good_chunk :: "byte list \<times> byte list \<Rightarrow> bool" where
  "good_chunk c \<longleftrightarrow> chunk_size (fst c) (length (snd c))"

lemma skip_chunk_run:
  assumes "good_chunk (h, d)"
  shows "skip_chunk (chunk_enc (h, d) @ rest) =
    Some (int (length (chunk_enc (h, d))), length h + 2, length d)"
proof -
  let ?b = "chunk_enc (h, d) @ rest"
  have h: "h \<noteq> []" "length h \<le> 8" "list_all is_hex_digit h" "mg_str_to_num h 16 4 = Some (length d)" "length d < 2 ^ 31"
    using assms by (simp_all add: good_chunk_def chunk_size_def)
  have b: "?b = h @ 0x0D # 0x0A # d @ crlf @ rest" by (simp add: chunk_enc_def)
  have t: "takeWhile is_hex_digit ?b = h"
    unfolding b using h(3) by (subst takeWhile_append2) (auto simp: list_all_iff is_hex_digit_def)
  have l: "length ?b = length h + length d + 4 + length rest" by (simp add: chunk_enc_def)
  have r: "rd ?b (length h) = Some 0x0D" "rd ?b (length h + 1) = Some 0x0A"
    "rd ?b (length h + length d + 2) = Some 0x0D" "rd ?b (length h + length d + 3) = Some 0x0A" "take (length h) ?b = h"
    by (simp_all add: b nth_append)
  have "\<not> length ?b < 3" "length h \<noteq> 0" "\<not> length h > 8" "\<not> length ?b < length h + 1" "\<not> length d \<ge> 2 ^ 31"
    "\<not> int (length d) > int (length ?b) - int (length h) - 4"
    using h l by (simp_all add: Suc_le_eq)
  then show ?thesis unfolding skip_chunk_def Let_def t
    by (simp only: if_False r bind.bind_lunit h(4) option.case simp_thms)
      (simp add: chunk_enc_def)
qed

lemma skip_chunk_at:
  assumes "good_chunk (h, d)" "s = pre @ chunk_enc (h, d) @ rest" "off = length pre"
  shows "skip_chunk (drop off s) = Some (int (length (chunk_enc (h, d))), length h + 2, length d)"
  using skip_chunk_run [OF assms(1), of rest] by (simp add: assms(2,3))

lemma chunk_enc_length: "length (chunk_enc (h, d)) = length h + length d + 4"
  by (simp add: chunk_enc_def)

lemma chunk_scan_run:
  "list_all (\<lambda>x. good_chunk x \<and> snd x \<noteq> []) cs \<Longrightarrow> good_chunk (h0, []) \<Longrightarrow>
   s = pre @ concat (map chunk_enc cs) @ chunk_enc (h0, []) @ rest \<Longrightarrow>
   \<exists>cl. chunk_scan s (length pre) = Some cl \<and> cl > 0"
proof (induction cs arbitrary: pre)
  case Nil
  have "skip_chunk (drop (length pre) s) = Some (int (length (chunk_enc (h0, []))), length h0 + 2, length ([] :: byte list))"
    using Nil by (intro skip_chunk_at [where pre = pre]) simp_all
  then show ?case by (subst chunk_scan.simps) (simp add: chunk_enc_length)
next
  case (Cons x cs)
  obtain h d where x: "x = (h, d)" by (cases x)
  have k: "skip_chunk (drop (length pre) s) = Some (int (length (chunk_enc (h, d))), length h + 2, length d)"
    using Cons.prems x by (intro skip_chunk_at [where pre = pre]) simp_all
  have "length pre < length s" using Cons.prems by (simp add: x chunk_enc_length)
  moreover have "int (length (chunk_enc (h, d))) > 0" "length d \<noteq> 0" using Cons.prems(1) x
    by (simp_all add: chunk_enc_length)
  ultimately have "chunk_scan s (length pre) = chunk_scan s (length (pre @ chunk_enc (h, d)))"
    by (subst chunk_scan.simps) (simp only: k option.case prod.case simp_thms if_True nat_int length_append)
  then show ?case using Cons.IH [of "pre @ chunk_enc (h, d)"] Cons.prems x by simp
qed

lemma strip_write:
  assumes "s = a @ t" "bl + length d \<le> length a"
  shows "wr_bytes s bl d = Some ((take bl a @ d @ drop (bl + length d) a) @ t)"
  using assms by simp

lemma chunk_strip_run:
  "list_all (\<lambda>x. good_chunk x \<and> snd x \<noteq> []) cs \<Longrightarrow> good_chunk (h0, []) \<Longrightarrow>
   s = dn @ gap @ concat (map chunk_enc cs) @ chunk_enc (h0, []) @ rest \<Longrightarrow>
   \<exists>gap'. chunk_strip s (length dn + length gap) (length dn) =
     Some ((dn @ concat (map snd cs)) @ gap' @ rest,
       length dn + length gap + length (concat (map chunk_enc cs)) + length (chunk_enc (h0, [])),
       length dn + length (concat (map snd cs))) \<and>
     length (dn @ concat (map snd cs)) + length gap' =
       length dn + length gap + length (concat (map chunk_enc cs)) + length (chunk_enc (h0, []))"
proof (induction cs arbitrary: dn gap s)
  case Nil
  let ?off = "length dn + length gap"
  have k: "skip_chunk (drop ?off s) = Some (int (length (chunk_enc (h0, []))), length h0 + 2, length ([] :: byte list))"
    using Nil by (intro skip_chunk_at [where pre = "dn @ gap"]) simp_all
  have l: "?off < length s" "?off + (length h0 + 2) \<le> length s" using Nil by (simp_all add: chunk_enc_length)
  have "chunk_strip s ?off (length dn) = Some (s, ?off + length (chunk_enc (h0, [])), length dn)"
    using l by (subst chunk_strip.simps) (simp add: k chunk_enc_length)
  then show ?case using Nil(3) by (intro exI [of _ "gap @ chunk_enc (h0, [])"]) simp
next
  case (Cons x cs)
  obtain h d where x: "x = (h, d)" by (cases x)
  have d: "d \<noteq> []" "good_chunk (h, d)" using Cons.prems(1) x by simp_all
  let ?off = "length dn + length gap" and ?t = "concat (map chunk_enc cs) @ chunk_enc (h0, []) @ rest"
  let ?cl = "length (chunk_enc (h, d))"
  have s: "s = (dn @ gap @ chunk_enc (h, d)) @ ?t" using Cons.prems(3) x by simp
  have k: "skip_chunk (drop ?off s) = Some (int ?cl, length h + 2, length d)"
    using d(2) s by (intro skip_chunk_at [where pre = "dn @ gap"]) simp_all
  have off: "?off < length s" by (simp add: s chunk_enc_length)
  have r: "rd_bytes s (?off + (length h + 2)) (length d) = Some d"
    by (simp add: s rd_bytes_def chunk_enc_def)
  define gap1 where "gap1 = drop (length dn + length d) (dn @ gap @ chunk_enc (h, d))"
  have w: "wr_bytes s (length dn) d = Some ((dn @ d) @ gap1 @ ?t)"
    unfolding gap1_def by (subst strip_write [OF s]) (simp_all add: chunk_enc_length)
  have g: "length gap1 = length gap + ?cl - length d" by (simp add: gap1_def chunk_enc_length)
  have "chunk_strip s ?off (length dn) = chunk_strip ((dn @ d) @ gap1 @ ?t) (length (dn @ d) + length gap1) (length (dn @ d))"
  proof -
    have c: "int ?cl > 0" "length d \<noteq> 0" using d(1) by (simp_all add: chunk_enc_length)
    have e: "length dn + length d + length gap1 = ?off + ?cl"
      using g by (simp_all add: chunk_enc_length)
    show ?thesis unfolding length_append e
      by (subst chunk_strip.simps)
        (simp only: k option.case prod.case simp_thms if_True if_False nat_int c off r w)
  qed
  moreover obtain gap' where "chunk_strip ((dn @ d) @ gap1 @ ?t) (length (dn @ d) + length gap1) (length (dn @ d)) =
     Some (((dn @ d) @ concat (map snd cs)) @ gap' @ rest,
       length (dn @ d) + length gap1 + length (concat (map chunk_enc cs)) + length (chunk_enc (h0, [])),
       length (dn @ d) + length (concat (map snd cs)))"
     "length ((dn @ d) @ concat (map snd cs)) + length gap' =
       length (dn @ d) + length gap1 + length (concat (map chunk_enc cs)) + length (chunk_enc (h0, []))"
    using Cons.IH [of "(dn @ d) @ gap1 @ ?t" "dn @ d" gap1] Cons.prems(1,2) by auto
  ultimately show ?case using g x
    by (intro exI [of _ gap']) (simp add: chunk_enc_length)
qed

lemma chunked_body_ok:
  assumes c: "recv c = pre @ concat (map chunk_enc cs) @ chunk_enc (h0, []) @ rest" "length pre = ofs + n"
    and cs: "list_all (\<lambda>x. good_chunk x \<and> snd x \<noteq> []) cs" "good_chunk (h0, [])"
  shows "\<exists>r gap. chunked_body c ofs n = Some (Inr (r, length (recv c) - length rest, length (concat (map snd cs)))) \<and>
    r = pre @ concat (map snd cs) @ gap @ rest \<and> length r = length (recv c)"
proof -
  let ?s = "concat (map chunk_enc cs) @ chunk_enc (h0, []) @ rest"
  have s: "drop (ofs + n) (recv c) = ?s" "take (ofs + n) (recv c) = pre" using c by simp_all
  obtain cl where cl: "chunk_scan ?s 0 = Some cl" "cl > 0"
    using chunk_scan_run [OF cs, of ?s "[]" rest] by auto
  obtain gap where g: "chunk_strip ?s 0 0 =
     Some (concat (map snd cs) @ gap @ rest, length (concat (map chunk_enc cs)) + length (chunk_enc (h0, [])),
       length (concat (map snd cs)))"
     "length (concat (map snd cs)) + length gap = length (concat (map chunk_enc cs)) + length (chunk_enc (h0, []))"
    using chunk_strip_run [OF cs, of ?s "[]" "[]" rest] by auto
  have "ofs + (n + (length (concat (map chunk_enc cs)) + length (chunk_enc (h0, [])))) = length (recv c) - length rest"
    using c by simp
  then have "chunked_body c ofs n = Some (Inr (pre @ concat (map snd cs) @ gap @ rest, length (recv c) - length rest,
      length (concat (map snd cs))))"
    using cl g(1) by (simp add: chunked_body_def s Let_def)
  then show ?thesis using g(2) c by auto
qed

text \<open>
  C14: A complete chunked body is decoded in place: the data of the chunks, in their order and
  without the size lines, follows the head in the receive buffer, its length is the announced body
  length, the parsing offset is right behind the last chunk, and what follows it is untouched.
\<close>

theorem chunked_body_decodes:
  assumes "recv c = pre @ concat (map chunk_enc cs) @ chunk_enc (h0, []) @ rest" "length pre = ofs + n"
    and "list_all (\<lambda>x. good_chunk x \<and> snd x \<noteq> []) cs" "good_chunk (h0, [])"
  shows "\<exists>r gap. chunked_body c ofs n = Some (Inr (r, length (recv c) - length rest, length (concat (map snd cs)))) \<and>
    r = pre @ concat (map snd cs) @ gap @ rest \<and> length r = length (recv c)"
  using assms by (rule chunked_body_ok)

definition conn0 :: "byte list \<Rightarrow> http_conn" where
  "conn0 r = \<lparr>recv = r, send = [], is_resp = False, is_accepted = True, is_client = False,
     is_draining = False, is_closing = False, pfn = HTTP_CB\<rparr>"

lemma chunk_examples: "good_chunk (cstr ''2'', [0x61, 0x62])" "good_chunk (cstr ''0'', [])"
proof -
  have "mg_str_to_num (cstr ''2'') 16 4 = Some 2" "mg_str_to_num (cstr ''0'') 16 4 = Some 0"
    by (simp_all add: mg_str_to_num_def num_max_def num_prefix_def digit16_def is_digit_def)
  then show "good_chunk (cstr ''2'', [0x61, 0x62])" "good_chunk (cstr ''0'', [])"
    by (simp_all add: good_chunk_def chunk_size_def is_hex_digit_def)
qed

theorem chunked_body_decodes_witness:
  "\<exists>r gap. chunked_body (conn0 ([1, 2] @ concat (map chunk_enc [(cstr ''2'', [0x61, 0x62])]) @
       chunk_enc (cstr ''0'', []) @ [9])) 0 2 = Some (Inr (r, 14, 2)) \<and> r = [1, 2, 0x61, 0x62] @ gap @ [9]"
proof -
  let ?c = "conn0 ([1, 2] @ concat (map chunk_enc [(cstr ''2'', [0x61, 0x62])]) @ chunk_enc (cstr ''0'', []) @ [9])"
  have "recv ?c = [1, 2] @ concat (map chunk_enc [(cstr ''2'', [0x61, 0x62])]) @ chunk_enc (cstr ''0'', []) @ [9]"
    by (simp add: conn0_def)
  from chunked_body_decodes [OF this, of 0 2] chunk_examples show ?thesis
    by (auto simp: conn0_def chunk_enc_length)
qed

text \<open>
  A chunk whose size line has arrived but for its end is taken for an invalid one, not for an
  incomplete one: on three or more hexadecimal digits the scan fails, so that the connection is
  closed or not depending on how the network cuts the stream.
\<close>

lemma skip_chunk_cut_size_line:
  assumes "list_all is_hex_digit h" "3 \<le> length h"
  shows "skip_chunk h = Some (-1, 0, 0) \<and> chunk_scan h 0 = Some (-1)"
proof -
  have t: "takeWhile is_hex_digit h = h" using assms(1) by (simp add: list_all_iff takeWhile_eq_all_conv)
  have "\<not> length h < 3" "length h \<noteq> 0" using assms(2) by linarith+
  then have "skip_chunk h = Some (-1, 0, 0)" unfolding skip_chunk_def t Let_def by simp
  moreover then have "chunk_scan h 0 = Some (-1)" by (subst chunk_scan.simps) simp
  ultimately show ?thesis by blast
qed

lemma skip_chunk_cut_size_line_example: "skip_chunk (cstr ''100'') = Some (-1, 0, 0)"
  using skip_chunk_cut_size_line [of "cstr ''100''"] by (simp add: is_hex_digit_def)

subsection \<open>A message is delivered when its body is there\<close>

lemma plain_body_eq:
  assumes "ofs + n \<le> length (recv c)" "length (recv c) < 2 ^ 64"
  shows "plain_body c ofs n bl =
    (if ofs + n + bl \<le> length (recv c) then Some (ofs + n + bl) else None)"
proof -
  have "2 * 2 ^ 64 + length (recv c) - ofs - n = 2 * 2 ^ 64 + (length (recv c) - ofs - n)" using assms(1) by simp
  moreover have "length (recv c) - ofs - n < 2 ^ 64" using assms(2) by simp
  ultimately have "szt (2 * 2 ^ 64 + length (recv c) - ofs - n) = length (recv c) - ofs - n"
    by (simp only: szt_def mod_mult_self3) (rule mod_less)
  moreover have "szt (ofs + (n + bl)) = ofs + n + bl" if "ofs + n + bl \<le> length (recv c)"
    using that assms(2) by (simp add: szt_def add.assoc)
  ultimately show ?thesis using assms(1) by (auto simp: plain_body_def Let_def)
qed

lemma not_response:
  assumes b: "b = m @ 0x20 # rest" and m: "0x2F \<notin> set m" and l: "5 \<le> length b"
  shows "\<exists>d. mg_ncasecmp sg b (cstr ''HTTP/'') 5 = Some d \<and> d \<noteq> 0"
proof -
  obtain d where d: "mg_ncasecmp sg b (cstr ''HTTP/'') 5 = Some d"
    using mg_ncasecmp_Some [of 5 b "cstr ''HTTP/''" sg] l by auto
  have "map lower (take 5 b) \<noteq> map lower (take 5 (cstr ''HTTP/''))"
  proof
    assume eq: "map lower (take 5 b) = map lower (take 5 (cstr ''HTTP/''))"
    have h: "map lower (take 5 (cstr ''HTTP/'')) = [0x68, 0x74, 0x74, 0x70, 0x2F]" by code_simp
    have n: "lower (b ! i) = [0x68, 0x74, 0x74, 0x70, 0x2F] ! i" if "i < 5" for i
    proof -
      have "map lower (take 5 b) ! i = lower (b ! i)" using that l by simp
      then show ?thesis using eq h by simp
    qed
    show False
    proof (cases "length m < 5")
      case True
      have "b ! length m = 0x20" by (simp add: b)
      moreover have "lower 0x20 = 0x20" by code_simp
      moreover have "length m = 0 \<or> length m = 1 \<or> length m = 2 \<or> length m = 3 \<or> length m = 4"
        using True by linarith
      ultimately show False using n [OF True] by (elim disjE) simp_all
    next
      case False
      then have "b ! 4 = m ! 4" "4 < length m" by (simp_all add: b nth_append)
      moreover have "lower (b ! 4) = 0x2F" using n [of 4] by simp
      ultimately have "0x2F \<in> set m" using lower_slash nth_mem by metis
      then show False using m by simp
    qed
  qed
  then have "d \<noteq> 0" using mg_ncasecmp_eq_0 [of 5 b "cstr ''HTTP/''" sg] d l by simp
  then show ?thesis using d by blast
qed

definition request_ok :: "bool \<Rightarrow> byte list \<Rightarrow> byte list \<Rightarrow> (byte list \<times> byte list) list \<Rightarrow> byte list \<Rightarrow> bool" where
  "request_ok sg m u hs bdy \<longleftrightarrow>
     good_token m \<and> 0x2F \<notin> set m \<and> good_token u \<and> hd u \<noteq> 0x3F \<and>
     list_all good_header hs \<and> length hs \<le> 30 \<and>
     (\<exists>ml. body_length sg (length (fmt_request m u hs)) (lookup hs (cstr ''Content-Length'')) False m (uri_path u)
        = Some (length bdy, ml)) \<and>
     lookup hs (cstr ''Transfer-Encoding'') = None \<and>
     (lookup hs (cstr ''Content-length'') = None \<longrightarrow>
        mg_strcasecmp sg m (cstr ''POST'') \<noteq> 0 \<and> mg_strcasecmp sg m (cstr ''PUT'') \<noteq> 0)"

lemma no_length_run:
  assumes "good_token m" "0x2F \<notin> set m" "good_token u" "b = fmt_request m u hs @ rest"
    and "text_of b (http_method hm) = m" "sbuf (http_method hm) = 0"
    and "mg_strcasecmp sg m (cstr ''POST'') \<noteq> 0" "mg_strcasecmp sg m (cstr ''PUT'') \<noteq> 0"
  shows "no_length sg b hm n c ofs = Some (c, ofs)"
proof -
  have b: "b = m @ 0x20 # (u @ 0x20 # cstr ''HTTP/1.1'') @ [0x0D, 0x0A] @ concat (map fmt_header hs) @ [0x0D, 0x0A] @ rest"
    by (simp add: assms(4) fmt_request_def)
  have "5 \<le> length b" using assms(1) by (simp add: b)
  then obtain d where "mg_ncasecmp sg b (cstr ''HTTP/'') 5 = Some d" "d \<noteq> 0"
    using not_response [OF b assms(2)] by blast
  then show ?thesis using assms(5-8) by (simp add: no_length_def Let_def del: cstr_Cons)
qed

text \<open>The user's handler leaves the connection alone when the headers are there.\<close>

definition passive_hdrs :: "handler \<Rightarrow> bool" where
  "passive_hdrs fn \<longleftrightarrow> (\<forall>b hm c. fn MG_EV_HTTP_HDRS b hm c = c)"

definition is_message :: "byte list \<Rightarrow> mg_http_message \<Rightarrow> byte list \<Rightarrow> byte list \<Rightarrow> (byte list \<times> byte list) list \<Rightarrow> byte list \<Rightarrow> bool" where
  "is_message b hm m u hs bdy \<longleftrightarrow>
     text_of b (http_method hm) = m \<and> text_of b (uri hm) = uri_path u \<and> text_of b (query hm) = uri_query u \<and>
     map (\<lambda>(k, v). (text_of b k, text_of b v)) (headers hm) = hs \<and> text_of b (body hm) = bdy \<and>
     list_all (\<lambda>(k, v). 0 < slen k \<and> within (length b) k \<and> within (length b) v) (headers hm)"

definition is_head ::
  "byte list \<Rightarrow> mg_http_message \<Rightarrow> byte list \<Rightarrow> byte list \<Rightarrow> (byte list \<times> byte list) list \<Rightarrow> nat \<Rightarrow> nat \<Rightarrow> bool" where
  "is_head b hm m u hs e bl \<longleftrightarrow>
     text_of b (http_method hm) = m \<and> text_of b (uri hm) = uri_path u \<and> text_of b (query hm) = uri_query u \<and>
     map (\<lambda>(k, v). (text_of b k, text_of b v)) (headers hm) = hs \<and>
     body hm = \<lparr>sbuf = e, slen = bl\<rparr> \<and> sbuf (http_method hm) = 0 \<and>
     list_all (\<lambda>(k, v). 0 < slen k \<and> within (length b) k \<and> within (length b) v) (headers hm)"

text \<open>What the loop body does behind the lookups, when there is no \<open>Transfer-Encoding\<close>.\<close>

definition plain_step ::
  "bool \<Rightarrow> handler \<Rightarrow> mg_http_message \<Rightarrow> nat \<Rightarrow> nat \<Rightarrow> nat \<Rightarrow> (http_conn \<times> nat) option \<Rightarrow> (http_conn \<times> nat) run" where
  "plain_step sg fn hm e bl start r = (case r of
     None \<Rightarrow> Crash
   | Some (c1, ofs1) \<Rightarrow>
       (case plain_body c1 ofs1 e bl of
          None \<Rightarrow> Break (c1, ofs1)
        | Some ofs2 \<Rightarrow> deliver sg fn start hm c1 ofs2))"

lemma http_parse_head:
  assumes m: "good_token m" "0x2F \<notin> set m" "good_token u" "hd u \<noteq> 0x3F" "list_all good_header hs" "length hs \<le> 30"
    and b: "b = fmt_request m u hs @ rest" and e: "e = length (fmt_request m u hs)"
    and bl: "body_length sg e (lookup hs (cstr ''Content-Length'')) False m (uri_path u) = Some (bl, ml)"
  obtains hm where "mg_http_parse sg b = Some (int e, hm)" "is_head b hm m u hs e bl"
proof -
  from mg_http_parse_request_ok [OF m b e bl] obtain hm where
    "mg_http_parse sg b = Some (int e, hm) \<and>
    text_of b (http_method hm) = m \<and> text_of b (uri hm) = uri_path u \<and> text_of b (query hm) = uri_query u \<and>
    text_of b (proto hm) = cstr ''HTTP/1.1'' \<and>
    map (\<lambda>(k, v). (text_of b k, text_of b v)) (headers hm) = hs \<and>
    body hm = \<lparr>sbuf = e, slen = bl\<rparr> \<and> slen (message hm) = ml \<and> sbuf (http_method hm) = 0 \<and>
    list_all (\<lambda>(k, v). 0 < slen k \<and> within (length b) k \<and> within (length b) v) (headers hm)" ..
  then show thesis by (intro that [of hm]) (simp_all only: is_head_def simp_thms)
qed

lemma header_at:
  assumes "is_head b hm m u hs e bl" "0 \<notin> set name"
  obtains t where "mg_http_get_header sg b (headers hm) name = Some t" "t = None \<longleftrightarrow> lookup hs name = None"
proof -
  have w: "list_all (\<lambda>(k, v). 0 < slen k \<and> within (length b) k \<and> within (length b) v) (headers hm)"
    and h: "map (\<lambda>(k, v). (text_of b k, text_of b v)) (headers hm) = hs"
    using assms(1) unfolding is_head_def by blast+
  obtain t where "mg_http_get_header sg b (headers hm) name = Some t" "map_option (text_of b) t = lookup hs name"
    using mg_http_get_header_lookup [OF w assms(2), of sg] unfolding h by blast
  then show thesis using that [of t] by (metis option.map_disc_iff)
qed

lemma http_step_head:
  assumes m: "good_token m" "0x2F \<notin> set m" "good_token u" "hd u \<noteq> 0x3F" "list_all good_header hs" "length hs \<le> 30"
    and b: "b = drop (length pre) (recv c)" and e: "e = length (fmt_request m u hs)"
    and bl: "body_length sg e (lookup hs (cstr ''Content-Length'')) False m (uri_path u) = Some (bl, ml)"
    and te: "lookup hs (cstr ''Transfer-Encoding'') = None" and fn: "passive_hdrs fn"
    and c: "\<not> is_resp c" "recv c = pre @ fmt_request m u hs @ rest" and ev: "ev \<noteq> MG_EV_CLOSE"
  obtains hm and l :: "mg_slice option" where "is_head b hm m u hs e bl" "l = None \<longleftrightarrow> lookup hs (cstr ''Content-length'') = None"
    "http_step sg fn ev c (length pre) =
       plain_step sg fn hm e bl (length pre)
         (if l = None then no_length sg b hm e c (length pre) else Some (c, length pre))"
proof -
  have "b = fmt_request m u hs @ rest" by (simp add: b c(2))
  from http_parse_head [OF m this e bl]
  obtain hm where hm: "mg_http_parse sg b = Some (int e, hm)" "is_head b hm m u hs e bl" .
  have z: "0 \<notin> set (cstr ''Transfer-Encoding'')" "0 \<notin> set (cstr ''Content-length'')" by simp_all
  obtain t where "mg_http_get_header sg b (headers hm) (cstr ''Transfer-Encoding'') = Some t"
      "t = None \<longleftrightarrow> lookup hs (cstr ''Transfer-Encoding'') = None"
    by (rule header_at [OF hm(2) z(1)])
  then have t0: "mg_http_get_header sg b (headers hm) (cstr ''Transfer-Encoding'') = Some None" using te by simp
  obtain l where l: "mg_http_get_header sg b (headers hm) (cstr ''Content-length'') = Some l"
      "l = None \<longleftrightarrow> lookup hs (cstr ''Content-length'') = None"
    by (rule header_at [OF hm(2) z(2)])
  have n: "\<not> int e < 0" "e \<noteq> 0" "\<not> length pre \<ge> length (recv c)" by (simp_all add: e fmt_request_def c(2))
  have call: "mg_call fn MG_EV_HTTP_HDRS b hm c = c" using fn by (simp add: mg_call_def passive_hdrs_def)
  have bdy: "body hm = \<lparr>sbuf = e, slen = bl\<rparr>" using hm(2) unfolding is_head_def by blast
  have "http_step sg fn ev c (length pre) = http_body sg fn hm e c (length pre)"
    unfolding http_step_def Let_def b [symmetric]
    by (simp add: c(1) hm(1) n call ev del: cstr_Cons)
  also have "\<dots> = plain_step sg fn hm e bl (length pre)
         (if l = None then no_length sg b hm e c (length pre) else Some (c, length pre))"
    unfolding http_body_def Let_def b [symmetric] plain_step_def
    by (simp only: t0 l(1) bdy option.case mg_slice.simps)
  finally show thesis by (rule that [OF hm(2) l(2)])
qed

lemma http_step_request_ok:
  assumes r: "request_ok sg m u hs bdy" and fn: "passive_hdrs fn"
    and c: "\<not> is_resp c" "recv c = pre @ fmt_request m u hs @ bdy @ rest" "length (recv c) < 2 ^ 64"
    and ev: "ev \<noteq> MG_EV_CLOSE"
  shows "\<exists>hm. is_message (drop (length pre) (recv c)) hm m u hs bdy \<and>
    http_step sg fn ev c (length pre) =
      deliver sg fn (length pre) hm c (length pre + length (fmt_request m u hs) + length bdy)"
proof -
  define b where "b = drop (length pre) (recv c)"
  define e where "e = length (fmt_request m u hs)"
  have b: "b = fmt_request m u hs @ (bdy @ rest)" by (simp add: b_def c(2))
  have m: "good_token m" "0x2F \<notin> set m" "good_token u" "hd u \<noteq> 0x3F" "list_all good_header hs" "length hs \<le> 30"
    and te: "lookup hs (cstr ''Transfer-Encoding'') = None"
    and post: "lookup hs (cstr ''Content-length'') = None \<Longrightarrow>
        mg_strcasecmp sg m (cstr ''POST'') \<noteq> 0 \<and> mg_strcasecmp sg m (cstr ''PUT'') \<noteq> 0"
    using r unfolding request_ok_def by blast+
  obtain ml where bl: "body_length sg e (lookup hs (cstr ''Content-Length'')) False m (uri_path u) = Some (length bdy, ml)"
    using r unfolding request_ok_def e_def by blast
  obtain hm and l :: "mg_slice option" where hm: "is_head b hm m u hs e (length bdy)" "l = None \<longleftrightarrow> lookup hs (cstr ''Content-length'') = None"
    and step: "http_step sg fn ev c (length pre) = plain_step sg fn hm e (length bdy) (length pre)
         (if l = None then no_length sg b hm e c (length pre) else Some (c, length pre))"
    by (rule http_step_head [OF m b_def e_def bl te fn c(1,2) ev])
  have h: "text_of b (http_method hm) = m" "sbuf (http_method hm) = 0" "body hm = \<lparr>sbuf = e, slen = length bdy\<rparr>"
    using hm(1) unfolding is_head_def by blast+
  have "text_of b (body hm) = bdy" unfolding h(3) by (rule text_of_mid2 [OF b]) (simp_all add: e_def)
  then have msg: "is_message b hm m u hs bdy" using hm(1) unfolding is_message_def is_head_def by blast
  have nl: "(if l = None then no_length sg b hm e c (length pre) else Some (c, length pre)) = Some (c, length pre)"
    using no_length_run [OF m(1,2,3) b h(1,2)] post hm(2) by (cases l) auto
  have pb: "plain_body c (length pre) e (length bdy) = Some (length pre + e + length bdy)"
    by (subst plain_body_eq) (use c in \<open>simp_all add: e_def\<close>)
  have "http_step sg fn ev c (length pre) = deliver sg fn (length pre) hm c (length pre + e + length bdy)"
    unfolding step nl plain_step_def by (simp add: pb)
  then show ?thesis using msg unfolding b_def e_def by blast
qed


definition get_hs :: "(byte list \<times> byte list) list" where
  "get_hs = [(cstr ''Host'', cstr ''x'')]"

lemma get_request_any:
  assumes "good_token u" "hd u \<noteq> 0x3F"
  shows "request_ok sg (cstr ''GET'') u get_hs []"
proof -
  have "lookup get_hs (cstr ''Content-Length'') = None" "lookup get_hs (cstr ''Transfer-Encoding'') = None"
    by code_simp+
  moreover have "map lower (cstr ''GET'') \<noteq> map lower (cstr ''PUT'')" "map lower (cstr ''GET'') \<noteq> map lower (cstr ''POST'')"
    by code_simp+
  then have "mg_strcasecmp sg (cstr ''GET'') (cstr ''PUT'') \<noteq> 0" "mg_strcasecmp sg (cstr ''GET'') (cstr ''POST'') \<noteq> 0"
    unfolding mg_strcasecmp_eq_0_iff .
  moreover have "good_token (cstr ''GET'')" "0x2F \<notin> set (cstr ''GET'')" "list_all good_header get_hs" "length get_hs \<le> 30"
    by (simp_all add: good_token_def good_header_def get_hs_def printable_def plain_def isok_def is_blank_def)
  ultimately show ?thesis
    using assms by (simp add: request_ok_def body_length_def Let_def del: cstr_Cons)
qed

lemma get_request_ok: "request_ok sg (cstr ''GET'') (cstr ''/a'') get_hs []"
  by (rule get_request_any) (simp_all add: good_token_def printable_def)

definition echo_fn :: handler where
  "echo_fn ev b hm c = (if ev = MG_EV_HTTP_MSG then mg_http_reply c 200 [] (text_of b (uri hm)) else c)"



subsection \<open>The body without end\<close>

lemma lower_lookup: "map lower n = map lower n' \<Longrightarrow> lookup hs n = lookup hs n'"
  by (induction hs n rule: lookup.induct) auto

lemma no_length_post:
  assumes "good_token m" "0x2F \<notin> set m" "b = fmt_request m u hs @ rest"
    and "text_of b (http_method hm) = m" "sbuf (http_method hm) = 0"
    and "mg_strcasecmp sg m (cstr ''POST'') = 0 \<or> mg_strcasecmp sg m (cstr ''PUT'') = 0" "\<not> is_client c"
  shows "no_length sg b hm n c ofs = Some (mg_http_reply c 411 [] [], szt (ofs + n))"
proof -
  have b: "b = m @ 0x20 # (u @ 0x20 # cstr ''HTTP/1.1'') @ [0x0D, 0x0A] @ concat (map fmt_header hs) @ [0x0D, 0x0A] @ rest"
    by (simp add: assms(3) fmt_request_def)
  have "5 \<le> length b" using assms(1) by (simp add: b)
  then obtain d where "mg_ncasecmp sg b (cstr ''HTTP/'') 5 = Some d" "d \<noteq> 0"
    using not_response [OF b assms(2)] by blast
  then show ?thesis using assms(4-7) by (auto simp: no_length_def Let_def simp del: cstr_Cons)
qed

text \<open>
  C37: A POST or PUT request without Content-Length is not only answered with 411: when the bytes
  that follow its head are one fewer than the head, the offset is counted twice, the remaining
  length wraps around, and the user's handler gets the message with a body of 2^64 - 1 bytes.
\<close>

theorem http_step_endless_body:
  assumes "good_token m" "0x2F \<notin> set m" "good_token u" "hd u \<noteq> 0x3F" "list_all good_header hs" "length hs \<le> 30"
    and "mg_strcasecmp sg m (cstr ''POST'') = 0 \<or> mg_strcasecmp sg m (cstr ''PUT'') = 0"
    and "lookup hs (cstr ''Content-Length'') = None" "lookup hs (cstr ''Transfer-Encoding'') = None"
    and "passive_hdrs fn" "\<not> is_resp c" "\<not> is_client c" "ev \<noteq> MG_EV_CLOSE"
    and "recv c = fmt_request m u hs @ rest" "length rest + 1 = length (fmt_request m u hs)" "length (recv c) < 2 ^ 63"
  shows "\<exists>hm. slen (body hm) = 2 ^ 64 - 1 \<and>
    http_step sg fn ev c 0 = deliver sg fn 0 hm (mg_http_reply c 411 [] []) (length (recv c))"
proof -
  define e where "e = length (fmt_request m u hs)"
  have e: "0 < e" "length (recv c) = 2 * e - 1" "e < 2 ^ 63"
    using assms(14,15,16) by (simp_all add: e_def) (simp add: fmt_request_def)
  have bl: "body_length sg e (lookup hs (cstr ''Content-Length'')) False m (uri_path u) = Some (SIZE_MAX, SIZE_MAX)"
    using assms(7,8) e(3) by (auto simp: body_length_def Let_def simp del: cstr_Cons)
  have r: "recv c = [] @ fmt_request m u hs @ rest" "recv c = drop (length ([] :: byte list)) (recv c)"
    using assms(14) by simp_all
  obtain hm and l :: "mg_slice option" where hm: "is_head (recv c) hm m u hs e SIZE_MAX" "l = None \<longleftrightarrow> lookup hs (cstr ''Content-length'') = None"
    and "http_step sg fn ev c (length ([] :: byte list)) = plain_step sg fn hm e SIZE_MAX (length ([] :: byte list))
         (if l = None then no_length sg (recv c) hm e c (length ([] :: byte list)) else Some (c, length ([] :: byte list)))"
    by (rule http_step_head [OF assms(1-6) r(2) e_def bl assms(9,10,11) r(1) assms(13)])
  then have step: "http_step sg fn ev c 0 = plain_step sg fn hm e SIZE_MAX 0
      (if l = None then no_length sg (recv c) hm e c 0 else Some (c, 0))"
    by (simp only: list.size(3))
  have h: "text_of (recv c) (http_method hm) = m" "sbuf (http_method hm) = 0" "body hm = \<lparr>sbuf = e, slen = SIZE_MAX\<rparr>"
    using hm(1) unfolding is_head_def by blast+
  have "map lower (cstr ''Content-length'') = map lower (cstr ''Content-Length'')" by code_simp
  then have "lookup hs (cstr ''Content-length'') = lookup hs (cstr ''Content-Length'')" by (rule lower_lookup)
  then have "lookup hs (cstr ''Content-length'') = None" using assms(8) by (simp only:)
  then have l: "l = None" using hm(2) by simp
  have s: "szt (0 + e) = e" using e(3) by (simp add: szt_def)
  have nl: "no_length sg (recv c) hm e c 0 = Some (mg_http_reply c 411 [] [], e)"
    using no_length_post [OF assms(1,2,14) h(1,2) assms(7,12), of e 0] unfolding s .
  have p1: "szt (2 * 2 ^ 64 + length (recv c) - e - e) = SIZE_MAX"
  proof -
    have "2 * 2 ^ 64 + length (recv c) - e - e = 2 ^ 64 + SIZE_MAX" using e by simp
    then show ?thesis by (simp add: szt_def)
  qed
  have p2: "szt (e + (e + SIZE_MAX)) = length (recv c)"
  proof -
    have "e + (e + SIZE_MAX) = 2 ^ 64 + length (recv c)" using e by simp
    then show ?thesis using assms(16) by (simp add: szt_def)
  qed
  have rc: "recv (mg_http_reply c 411 [] []) = recv c" by (simp add: mg_http_reply_def)
  have "plain_body (mg_http_reply c 411 [] []) e e SIZE_MAX = Some (length (recv c))"
    unfolding plain_body_def Let_def rc p1 p2 by simp
  then have "http_step sg fn ev c 0 = deliver sg fn 0 hm (mg_http_reply c 411 [] []) (length (recv c))"
    unfolding step by (simp add: l nl plain_step_def)
  moreover have "slen (body hm) = 2 ^ 64 - 1" by (simp add: h(3))
  ultimately show ?thesis by blast
qed

theorem http_step_endless_body_witness:
  "\<exists>hm c. slen (body hm) = 2 ^ 64 - 1 \<and> recv c = fmt_request (cstr ''POST'') (cstr ''/'') [] @ replicate 18 0x61 \<and>
     http_step True echo_fn MG_EV_READ c 0 = deliver True echo_fn 0 hm (mg_http_reply c 411 [] []) 37"
proof -
  let ?q = "fmt_request (cstr ''POST'') (cstr ''/'') []"
  let ?c = "conn0 (?q @ replicate 18 0x61)"
  have h: "good_token (cstr ''POST'')" "0x2F \<notin> set (cstr ''POST'')" "good_token (cstr ''/'')"
      "hd (cstr ''/'') \<noteq> 0x3F" "list_all good_header []" "length ([] :: (byte list \<times> byte list) list) \<le> 30"
    by (simp_all add: good_token_def printable_def)
  have "mg_strcasecmp True (cstr ''POST'') (cstr ''POST'') = 0" by code_simp
  then have p: "mg_strcasecmp True (cstr ''POST'') (cstr ''POST'') = 0 \<or> mg_strcasecmp True (cstr ''POST'') (cstr ''PUT'') = 0"
    by blast
  have l: "lookup [] (cstr ''Content-Length'') = None" "lookup [] (cstr ''Transfer-Encoding'') = None" by simp_all
  have f: "passive_hdrs echo_fn" by (simp add: passive_hdrs_def echo_fn_def)
  have c: "\<not> is_resp ?c" "\<not> is_client ?c" "MG_EV_READ \<noteq> MG_EV_CLOSE" "recv ?c = ?q @ replicate 18 0x61"
    by (simp_all add: conn0_def)
  have n: "length (replicate 18 (0x61 :: byte)) + 1 = length ?q" by (simp add: fmt_request_def)
  have r: "length (recv ?c) = 37" unfolding c(4) by (simp add: fmt_request_def)
  then have "length (recv ?c) < 2 ^ 63" by simp
  from http_step_endless_body [OF h p l f c n this] show ?thesis unfolding r using c(4) by blast
qed

end
