(* ===== verification/Bpf.thy ===== *)
theory Bpf
  imports Prelude
begin

text \<open>
  The packet filter machine of libpcap (\<^verbatim>\<open>bpf/net/bpf_filter.c\<close>, user-space build: neither
  \<open>KERNEL\<close> nor \<open>_KERNEL\<close> is defined): the interpreter \<open>bpf_filter_with_aux_data\<close> and its
  validator \<open>bpf_validate\<close>.

  The interpreter's \<^verbatim>\<open>switch (pc->code)\<close> is split in two: \<open>bpf_table\<close> holds its case labels, written
  with the bit patterns of \<^verbatim>\<open>pcap/bpf.h\<close>, and \<open>bpf_exec\<close> its case bodies. Undefined behaviour of C
  (an access outside of the program, the scratch memory or the packet, a division by zero, a shift
  by 32 or more) is the outcome \<open>Undef\<close>.
\<close>

subsection \<open>Instructions\<close>

record bpf_insn =
  code :: u16
  jt :: byte
  jf :: byte
  k :: u32

text \<open>\<^verbatim>\<open>struct bpf_aux_data\<close>.\<close>

record bpf_aux =
  vlan_tag_present :: u16
  vlan_tag :: u16

datatype bpf_src = SrcK | SrcX
datatype bpf_cond = Jgt | Jge | Jeq | Jset
datatype bpf_alu = Add | Sub | Mul | Div | Mod | And | Or | Xor | Lsh | Rsh

datatype bpf_op =
    Ret_K | Ret_A
  | Ld_W_Abs | Ld_H_Abs | Ld_B_Abs | Ld_W_Len | Ldx_W_Len
  | Ld_W_Ind | Ld_H_Ind | Ld_B_Ind | Ldx_Msh
  | Ld_Imm | Ldx_Imm | Ld_Mem | Ldx_Mem | St | Stx
  | Ja | Jump bpf_cond bpf_src
  | Alu bpf_alu bpf_src | Neg
  | Tax | Txa

abbreviation "BPF_LD \<equiv> 0x00 :: u16"
abbreviation "BPF_LDX \<equiv> 0x01 :: u16"
abbreviation "BPF_ST \<equiv> 0x02 :: u16"
abbreviation "BPF_STX \<equiv> 0x03 :: u16"
abbreviation "BPF_ALU \<equiv> 0x04 :: u16"
abbreviation "BPF_JMP \<equiv> 0x05 :: u16"
abbreviation "BPF_RET \<equiv> 0x06 :: u16"
abbreviation "BPF_MISC \<equiv> 0x07 :: u16"
abbreviation "BPF_W \<equiv> 0x00 :: u16"
abbreviation "BPF_H \<equiv> 0x08 :: u16"
abbreviation "BPF_B \<equiv> 0x10 :: u16"
abbreviation "BPF_IMM \<equiv> 0x00 :: u16"
abbreviation "BPF_ABS \<equiv> 0x20 :: u16"
abbreviation "BPF_IND \<equiv> 0x40 :: u16"
abbreviation "BPF_MEM \<equiv> 0x60 :: u16"
abbreviation "BPF_LEN \<equiv> 0x80 :: u16"
abbreviation "BPF_MSH \<equiv> 0xa0 :: u16"
abbreviation "BPF_ADD \<equiv> 0x00 :: u16"
abbreviation "BPF_SUB \<equiv> 0x10 :: u16"
abbreviation "BPF_MUL \<equiv> 0x20 :: u16"
abbreviation "BPF_DIV \<equiv> 0x30 :: u16"
abbreviation "BPF_OR \<equiv> 0x40 :: u16"
abbreviation "BPF_AND \<equiv> 0x50 :: u16"
abbreviation "BPF_LSH \<equiv> 0x60 :: u16"
abbreviation "BPF_RSH \<equiv> 0x70 :: u16"
abbreviation "BPF_NEG \<equiv> 0x80 :: u16"
abbreviation "BPF_MOD \<equiv> 0x90 :: u16"
abbreviation "BPF_XOR \<equiv> 0xa0 :: u16"
abbreviation "BPF_JA \<equiv> 0x00 :: u16"
abbreviation "BPF_JEQ \<equiv> 0x10 :: u16"
abbreviation "BPF_JGT \<equiv> 0x20 :: u16"
abbreviation "BPF_JGE \<equiv> 0x30 :: u16"
abbreviation "BPF_JSET \<equiv> 0x40 :: u16"
abbreviation "BPF_K \<equiv> 0x00 :: u16"
abbreviation "BPF_X \<equiv> 0x08 :: u16"
abbreviation "BPF_A \<equiv> 0x10 :: u16"
abbreviation "BPF_TAX \<equiv> 0x00 :: u16"
abbreviation "BPF_TXA \<equiv> 0x80 :: u16"
abbreviation "BPF_MEMWORDS \<equiv> 16 :: nat"

definition BPF_CLASS :: "u16 \<Rightarrow> u16" where "BPF_CLASS c = c AND 0x07"
definition BPF_MODE :: "u16 \<Rightarrow> u16" where "BPF_MODE c = c AND 0xe0"
definition BPF_OP :: "u16 \<Rightarrow> u16" where "BPF_OP c = c AND 0xf0"
definition BPF_SRC :: "u16 \<Rightarrow> u16" where "BPF_SRC c = c AND 0x08"

text \<open>The case labels of the interpreter's switch, in its order.\<close>

definition bpf_table :: "(u16 \<times> bpf_op) list" where
  "bpf_table = [
     (BPF_RET OR BPF_K, Ret_K),
     (BPF_RET OR BPF_A, Ret_A),
     (BPF_LD OR BPF_W OR BPF_ABS, Ld_W_Abs),
     (BPF_LD OR BPF_H OR BPF_ABS, Ld_H_Abs),
     (BPF_LD OR BPF_B OR BPF_ABS, Ld_B_Abs),
     (BPF_LD OR BPF_W OR BPF_LEN, Ld_W_Len),
     (BPF_LDX OR BPF_W OR BPF_LEN, Ldx_W_Len),
     (BPF_LD OR BPF_W OR BPF_IND, Ld_W_Ind),
     (BPF_LD OR BPF_H OR BPF_IND, Ld_H_Ind),
     (BPF_LD OR BPF_B OR BPF_IND, Ld_B_Ind),
     (BPF_LDX OR BPF_MSH OR BPF_B, Ldx_Msh),
     (BPF_LD OR BPF_IMM, Ld_Imm),
     (BPF_LDX OR BPF_IMM, Ldx_Imm),
     (BPF_LD OR BPF_MEM, Ld_Mem),
     (BPF_LDX OR BPF_MEM, Ldx_Mem),
     (BPF_ST, St),
     (BPF_STX, Stx),
     (BPF_JMP OR BPF_JA, Ja),
     (BPF_JMP OR BPF_JGT OR BPF_K, Jump Jgt SrcK),
     (BPF_JMP OR BPF_JGE OR BPF_K, Jump Jge SrcK),
     (BPF_JMP OR BPF_JEQ OR BPF_K, Jump Jeq SrcK),
     (BPF_JMP OR BPF_JSET OR BPF_K, Jump Jset SrcK),
     (BPF_JMP OR BPF_JGT OR BPF_X, Jump Jgt SrcX),
     (BPF_JMP OR BPF_JGE OR BPF_X, Jump Jge SrcX),
     (BPF_JMP OR BPF_JEQ OR BPF_X, Jump Jeq SrcX),
     (BPF_JMP OR BPF_JSET OR BPF_X, Jump Jset SrcX),
     (BPF_ALU OR BPF_ADD OR BPF_X, Alu Add SrcX),
     (BPF_ALU OR BPF_SUB OR BPF_X, Alu Sub SrcX),
     (BPF_ALU OR BPF_MUL OR BPF_X, Alu Mul SrcX),
     (BPF_ALU OR BPF_DIV OR BPF_X, Alu Div SrcX),
     (BPF_ALU OR BPF_MOD OR BPF_X, Alu Mod SrcX),
     (BPF_ALU OR BPF_AND OR BPF_X, Alu And SrcX),
     (BPF_ALU OR BPF_OR OR BPF_X, Alu Or SrcX),
     (BPF_ALU OR BPF_XOR OR BPF_X, Alu Xor SrcX),
     (BPF_ALU OR BPF_LSH OR BPF_X, Alu Lsh SrcX),
     (BPF_ALU OR BPF_RSH OR BPF_X, Alu Rsh SrcX),
     (BPF_ALU OR BPF_ADD OR BPF_K, Alu Add SrcK),
     (BPF_ALU OR BPF_SUB OR BPF_K, Alu Sub SrcK),
     (BPF_ALU OR BPF_MUL OR BPF_K, Alu Mul SrcK),
     (BPF_ALU OR BPF_DIV OR BPF_K, Alu Div SrcK),
     (BPF_ALU OR BPF_MOD OR BPF_K, Alu Mod SrcK),
     (BPF_ALU OR BPF_AND OR BPF_K, Alu And SrcK),
     (BPF_ALU OR BPF_OR OR BPF_K, Alu Or SrcK),
     (BPF_ALU OR BPF_XOR OR BPF_K, Alu Xor SrcK),
     (BPF_ALU OR BPF_LSH OR BPF_K, Alu Lsh SrcK),
     (BPF_ALU OR BPF_RSH OR BPF_K, Alu Rsh SrcK),
     (BPF_ALU OR BPF_NEG, Neg),
     (BPF_MISC OR BPF_TAX, Tax),
     (BPF_MISC OR BPF_TXA, Txa)]"

definition bpf_decode :: "u16 \<Rightarrow> bpf_op option" where
  "bpf_decode c = map_of bpf_table c"

subsection \<open>The machine\<close>

text \<open>
  The arguments of \<open>bpf_filter_with_aux_data\<close>: the memory from \<open>p\<close> on, \<open>wirelen\<close>, \<open>buflen\<close> and
  \<open>aux_data\<close>. The two ancillary offsets are \<open>SKF_AD_OFF + SKF_AD_VLAN_TAG\<close> and
  \<open>SKF_AD_OFF + SKF_AD_VLAN_TAG_PRESENT\<close> of \<^verbatim>\<open>linux/filter.h\<close>, a header of the system.
\<close>

record bpf_env =
  pkt :: "byte list"
  wirelen :: u32
  buflen :: u32
  aux_data :: "bpf_aux option"
  skf_vlan_tag :: u32
  skf_vlan_tag_present :: u32

text \<open>The locals \<open>pc\<close> (as an index into the program), \<open>A\<close>, \<open>X\<close> and \<open>mem\<close>.\<close>

record bpf_state =
  pc :: int
  acc :: u32
  idx :: u32
  mem :: "u32 list"

datatype outcome = Ret u32 | Abort | Undef

text \<open>What one instruction does: \<open>Stop\<close> returns, \<open>Next\<close> continues at the top of the loop.\<close>

datatype bpf_result = Next bpf_state | Stop outcome

definition EXTRACT_SHORT :: "byte list \<Rightarrow> nat \<Rightarrow> u32 option" where
  "EXTRACT_SHORT p i = do {
     b0 \<leftarrow> rd p i; b1 \<leftarrow> rd p (i + 1);
     Some (push_bit 8 (ucast b0) OR ucast b1) }"

definition EXTRACT_LONG :: "byte list \<Rightarrow> nat \<Rightarrow> u32 option" where
  "EXTRACT_LONG p i = do {
     b0 \<leftarrow> rd p i; b1 \<leftarrow> rd p (i + 1); b2 \<leftarrow> rd p (i + 2); b3 \<leftarrow> rd p (i + 3);
     Some (push_bit 24 (ucast b0) OR push_bit 16 (ucast b1) OR push_bit 8 (ucast b2) OR ucast b3) }"

definition set_acc :: "bpf_state \<Rightarrow> u32 option \<Rightarrow> bpf_result" where
  "set_acc s r = (case r of None \<Rightarrow> Stop Undef | Some a \<Rightarrow> Next (s\<lparr>acc := a\<rparr>))"

definition set_idx :: "bpf_state \<Rightarrow> u32 option \<Rightarrow> bpf_result" where
  "set_idx s r = (case r of None \<Rightarrow> Stop Undef | Some x \<Rightarrow> Next (s\<lparr>idx := x\<rparr>))"

text \<open>Packet loads; \<open>kk\<close> is \<open>pc->k\<close>.\<close>

definition bpf_ld_w_abs :: "bpf_env \<Rightarrow> bpf_state \<Rightarrow> u32 \<Rightarrow> bpf_result" where
  "bpf_ld_w_abs e s kk =
     (if kk > buflen e \<or> 4 > buflen e - kk then Stop (Ret 0)
      else set_acc s (EXTRACT_LONG (pkt e) (unat kk)))"

definition bpf_ld_h_abs :: "bpf_env \<Rightarrow> bpf_state \<Rightarrow> u32 \<Rightarrow> bpf_result" where
  "bpf_ld_h_abs e s kk =
     (if kk > buflen e \<or> 2 > buflen e - kk then Stop (Ret 0)
      else set_acc s (EXTRACT_SHORT (pkt e) (unat kk)))"

definition bpf_ld_b_abs :: "bpf_env \<Rightarrow> bpf_state \<Rightarrow> u32 \<Rightarrow> bpf_result" where
  "bpf_ld_b_abs e s kk =
     (if kk = skf_vlan_tag e then
        (case aux_data e of None \<Rightarrow> Stop (Ret 0)
         | Some a \<Rightarrow> Next (s\<lparr>acc := ucast (vlan_tag a)\<rparr>))
      else if kk = skf_vlan_tag_present e then
        (case aux_data e of None \<Rightarrow> Stop (Ret 0)
         | Some a \<Rightarrow> Next (s\<lparr>acc := ucast (vlan_tag_present a)\<rparr>))
      else if kk \<ge> buflen e then Stop (Ret 0)
      else set_acc s (map_option ucast (rd (pkt e) (unat kk))))"

definition bpf_ld_w_ind :: "bpf_env \<Rightarrow> bpf_state \<Rightarrow> u32 \<Rightarrow> bpf_result" where
  "bpf_ld_w_ind e s kk =
     (let k = idx s + kk in
      if kk > buflen e \<or> idx s > buflen e - kk \<or> 4 > buflen e - k then Stop (Ret 0)
      else set_acc s (EXTRACT_LONG (pkt e) (unat k)))"

definition bpf_ld_h_ind :: "bpf_env \<Rightarrow> bpf_state \<Rightarrow> u32 \<Rightarrow> bpf_result" where
  "bpf_ld_h_ind e s kk =
     (let k = idx s + kk in
      if idx s > buflen e \<or> kk > buflen e - idx s \<or> 2 > buflen e - k then Stop (Ret 0)
      else set_acc s (EXTRACT_SHORT (pkt e) (unat k)))"

definition bpf_ld_b_ind :: "bpf_env \<Rightarrow> bpf_state \<Rightarrow> u32 \<Rightarrow> bpf_result" where
  "bpf_ld_b_ind e s kk =
     (let k = idx s + kk in
      if kk \<ge> buflen e \<or> idx s \<ge> buflen e - kk then Stop (Ret 0)
      else set_acc s (map_option ucast (rd (pkt e) (unat k))))"

definition bpf_ldx_msh :: "bpf_env \<Rightarrow> bpf_state \<Rightarrow> u32 \<Rightarrow> bpf_result" where
  "bpf_ldx_msh e s kk =
     (if kk \<ge> buflen e then Stop (Ret 0)
      else set_idx s (map_option (\<lambda>b. push_bit 2 (ucast b AND 0xf)) (rd (pkt e) (unat kk))))"

text \<open>Conditions, and the arithmetic with its \<open>X\<close> and \<open>K\<close> variants.\<close>

fun bpf_test :: "bpf_cond \<Rightarrow> u32 \<Rightarrow> u32 \<Rightarrow> bool" where
  "bpf_test Jgt a b = (a > b)"
| "bpf_test Jge a b = (a \<ge> b)"
| "bpf_test Jeq a b = (a = b)"
| "bpf_test Jset a b = (a AND b \<noteq> 0)"

fun bpf_alu_exec :: "bpf_alu \<Rightarrow> bpf_src \<Rightarrow> bpf_state \<Rightarrow> u32 \<Rightarrow> bpf_result" where
  "bpf_alu_exec Add src s b = Next (s\<lparr>acc := acc s + b\<rparr>)"
| "bpf_alu_exec Sub src s b = Next (s\<lparr>acc := acc s - b\<rparr>)"
| "bpf_alu_exec Mul src s b = Next (s\<lparr>acc := acc s * b\<rparr>)"
| "bpf_alu_exec Div src s b =
     (if b = 0 then Stop (if src = SrcX then Ret 0 else Undef) else Next (s\<lparr>acc := acc s div b\<rparr>))"
| "bpf_alu_exec Mod src s b =
     (if b = 0 then Stop (if src = SrcX then Ret 0 else Undef) else Next (s\<lparr>acc := acc s mod b\<rparr>))"
| "bpf_alu_exec And src s b = Next (s\<lparr>acc := acc s AND b\<rparr>)"
| "bpf_alu_exec Or src s b = Next (s\<lparr>acc := acc s OR b\<rparr>)"
| "bpf_alu_exec Xor src s b = Next (s\<lparr>acc := acc s XOR b\<rparr>)"
| "bpf_alu_exec Lsh src s b =
     (if b \<ge> 32 then Stop Undef else Next (s\<lparr>acc := push_bit (unat b) (acc s)\<rparr>))"
| "bpf_alu_exec Rsh src s b =
     (if b \<ge> 32 then Stop Undef else Next (s\<lparr>acc := drop_bit (unat b) (acc s)\<rparr>))"

definition bpf_operand :: "bpf_src \<Rightarrow> bpf_state \<Rightarrow> bpf_insn \<Rightarrow> u32" where
  "bpf_operand src s i = (case src of SrcK \<Rightarrow> k i | SrcX \<Rightarrow> idx s)"

text \<open>
  The case bodies. The state is the one after \<^verbatim>\<open>++pc\<close>; a jump adds to \<open>pc\<close>, so that the next
  \<^verbatim>\<open>++pc\<close> lands behind it.
\<close>

fun bpf_exec :: "bpf_env \<Rightarrow> bpf_op \<Rightarrow> bpf_insn \<Rightarrow> bpf_state \<Rightarrow> bpf_result" where
  "bpf_exec e Ret_K i s = Stop (Ret (k i))"
| "bpf_exec e Ret_A i s = Stop (Ret (acc s))"
| "bpf_exec e Ld_W_Abs i s = bpf_ld_w_abs e s (k i)"
| "bpf_exec e Ld_H_Abs i s = bpf_ld_h_abs e s (k i)"
| "bpf_exec e Ld_B_Abs i s = bpf_ld_b_abs e s (k i)"
| "bpf_exec e Ld_W_Len i s = Next (s\<lparr>acc := wirelen e\<rparr>)"
| "bpf_exec e Ldx_W_Len i s = Next (s\<lparr>idx := wirelen e\<rparr>)"
| "bpf_exec e Ld_W_Ind i s = bpf_ld_w_ind e s (k i)"
| "bpf_exec e Ld_H_Ind i s = bpf_ld_h_ind e s (k i)"
| "bpf_exec e Ld_B_Ind i s = bpf_ld_b_ind e s (k i)"
| "bpf_exec e Ldx_Msh i s = bpf_ldx_msh e s (k i)"
| "bpf_exec e Ld_Imm i s = Next (s\<lparr>acc := k i\<rparr>)"
| "bpf_exec e Ldx_Imm i s = Next (s\<lparr>idx := k i\<rparr>)"
| "bpf_exec e Ld_Mem i s = set_acc s (rd (mem s) (unat (k i)))"
| "bpf_exec e Ldx_Mem i s = set_idx s (rd (mem s) (unat (k i)))"
| "bpf_exec e St i s = (case wr (mem s) (unat (k i)) (acc s) of
     None \<Rightarrow> Stop Undef | Some m \<Rightarrow> Next (s\<lparr>mem := m\<rparr>))"
| "bpf_exec e Stx i s = (case wr (mem s) (unat (k i)) (idx s) of
     None \<Rightarrow> Stop Undef | Some m \<Rightarrow> Next (s\<lparr>mem := m\<rparr>))"
| "bpf_exec e Ja i s = Next (s\<lparr>pc := pc s + sint (k i)\<rparr>)"
| "bpf_exec e (Jump c src) i s =
     Next (s\<lparr>pc := pc s + (if bpf_test c (acc s) (bpf_operand src s i) then uint (jt i) else uint (jf i))\<rparr>)"
| "bpf_exec e (Alu a src) i s = bpf_alu_exec a src s (bpf_operand src s i)"
| "bpf_exec e Neg i s = Next (s\<lparr>acc := - acc s\<rparr>)"
| "bpf_exec e Tax i s = Next (s\<lparr>idx := acc s\<rparr>)"
| "bpf_exec e Txa i s = Next (s\<lparr>acc := idx s\<rparr>)"

text \<open>One round of \<^verbatim>\<open>while (1) { ++pc; switch (pc->code) ...}\<close>.\<close>

definition bpf_step :: "bpf_env \<Rightarrow> bpf_insn list \<Rightarrow> bpf_state \<Rightarrow> bpf_result" where
  "bpf_step e prog s0 =
     (let s = s0\<lparr>pc := pc s0 + 1\<rparr> in
      if pc s < 0 \<or> int (length prog) \<le> pc s then Stop Undef
      else let i = prog ! nat (pc s) in
        (case bpf_decode (code i) of None \<Rightarrow> Stop Abort | Some opc \<Rightarrow> bpf_exec e opc i s))"

text \<open>The loop; \<open>None\<close> is a program that never returns.\<close>

partial_function (option) bpf_loop :: "bpf_env \<Rightarrow> bpf_insn list \<Rightarrow> bpf_state \<Rightarrow> outcome option" where
  "bpf_loop e prog s =
     (case bpf_step e prog s of Stop r \<Rightarrow> Some r | Next s' \<Rightarrow> bpf_loop e prog s')"

text \<open>
  \<open>mem\<close> is not initialised in C: its first contents are the parameter \<open>mem0\<close>. The null program
  accepts everything.
\<close>

definition bpf_init :: "u32 list \<Rightarrow> bpf_state" where
  "bpf_init mem0 = \<lparr>pc = -1, acc = 0, idx = 0, mem = mem0\<rparr>"

definition bpf_filter_with_aux_data :: "bpf_env \<Rightarrow> u32 list \<Rightarrow> bpf_insn list option \<Rightarrow> outcome option" where
  "bpf_filter_with_aux_data e mem0 prog =
     (case prog of None \<Rightarrow> Some (Ret (-1)) | Some f \<Rightarrow> bpf_loop e f (bpf_init mem0))"

definition bpf_filter :: "bpf_env \<Rightarrow> u32 list \<Rightarrow> bpf_insn list option \<Rightarrow> outcome option" where
  "bpf_filter e mem0 prog = bpf_filter_with_aux_data (e\<lparr>aux_data := None\<rparr>) mem0 prog"

subsection \<open>The validator\<close>

text \<open>
  The body of the loop for instruction \<open>p\<close> at index \<open>i\<close> of a program of \<open>len\<close> instructions. The
  index arithmetic is that of \<^verbatim>\<open>u_int\<close>.
\<close>

definition validate_load :: "bpf_insn \<Rightarrow> bool" where
  "validate_load p =
     (if BPF_MODE (code p) = BPF_IMM then True
      else if BPF_MODE (code p) = BPF_ABS \<or> BPF_MODE (code p) = BPF_IND \<or> BPF_MODE (code p) = BPF_MSH then True
      else if BPF_MODE (code p) = BPF_MEM then \<not> k p \<ge> of_nat BPF_MEMWORDS
      else BPF_MODE (code p) = BPF_LEN)"

definition validate_alu :: "bpf_insn \<Rightarrow> bool" where
  "validate_alu p =
     (if BPF_OP (code p) \<in> {BPF_ADD, BPF_SUB, BPF_MUL, BPF_OR, BPF_AND, BPF_XOR, BPF_LSH, BPF_RSH, BPF_NEG}
      then True
      else if BPF_OP (code p) = BPF_DIV \<or> BPF_OP (code p) = BPF_MOD
      then \<not> (BPF_SRC (code p) = BPF_K \<and> k p = 0)
      else False)"

definition validate_jump :: "u32 \<Rightarrow> u32 \<Rightarrow> bpf_insn \<Rightarrow> bool" where
  "validate_jump i len p =
     (let from = i + 1 in
      if BPF_OP (code p) = BPF_JA then \<not> from + k p \<ge> len
      else if BPF_OP (code p) \<in> {BPF_JEQ, BPF_JGT, BPF_JGE, BPF_JSET}
      then \<not> (from + ucast (jt p) \<ge> len \<or> from + ucast (jf p) \<ge> len)
      else False)"

definition validate_insn :: "u32 \<Rightarrow> u32 \<Rightarrow> bpf_insn \<Rightarrow> bool" where
  "validate_insn i len p =
     (let c = BPF_CLASS (code p) in
      if c = BPF_LD \<or> c = BPF_LDX then validate_load p
      else if c = BPF_ST \<or> c = BPF_STX then \<not> k p \<ge> of_nat BPF_MEMWORDS
      else if c = BPF_ALU then validate_alu p
      else if c = BPF_JMP then validate_jump i len p
      else c = BPF_RET \<or> c = BPF_MISC)"

fun validate_loop :: "u32 \<Rightarrow> u32 \<Rightarrow> bpf_insn list \<Rightarrow> bool" where
  "validate_loop i len [] = True"
| "validate_loop i len (p # f) = (if \<not> validate_insn i len p then False else validate_loop (i + 1) len f)"

definition bpf_validate :: "bpf_insn list \<Rightarrow> bool" where
  "bpf_validate f =
     (if length f < 1 then False
      else if \<not> validate_loop 0 (of_nat (length f)) f then False
      else BPF_CLASS (code (last f)) = BPF_RET)"

subsection \<open>What the validator checks of an instruction the interpreter knows\<close>

text \<open>The four bit fields of the code of each operation: class, mode, operation and source.\<close>

fun src_bits :: "bpf_src \<Rightarrow> u16" where
  "src_bits SrcK = 0x00"
| "src_bits SrcX = 0x08"

fun cond_bits :: "bpf_cond \<Rightarrow> u16" where
  "cond_bits Jeq = 0x10"
| "cond_bits Jgt = 0x20"
| "cond_bits Jge = 0x30"
| "cond_bits Jset = 0x40"

fun alu_bits :: "bpf_alu \<Rightarrow> u16" where
  "alu_bits Add = 0x00"
| "alu_bits Sub = 0x10"
| "alu_bits Mul = 0x20"
| "alu_bits Div = 0x30"
| "alu_bits Or = 0x40"
| "alu_bits And = 0x50"
| "alu_bits Lsh = 0x60"
| "alu_bits Rsh = 0x70"
| "alu_bits Mod = 0x90"
| "alu_bits Xor = 0xa0"

fun bpf_encode :: "bpf_op \<Rightarrow> u16" where
  "bpf_encode Ret_K = 0x06"
| "bpf_encode Ret_A = 0x16"
| "bpf_encode Ld_W_Abs = 0x20"
| "bpf_encode Ld_H_Abs = 0x28"
| "bpf_encode Ld_B_Abs = 0x30"
| "bpf_encode Ld_W_Len = 0x80"
| "bpf_encode Ldx_W_Len = 0x81"
| "bpf_encode Ld_W_Ind = 0x40"
| "bpf_encode Ld_H_Ind = 0x48"
| "bpf_encode Ld_B_Ind = 0x50"
| "bpf_encode Ldx_Msh = 0xb1"
| "bpf_encode Ld_Imm = 0x00"
| "bpf_encode Ldx_Imm = 0x01"
| "bpf_encode Ld_Mem = 0x60"
| "bpf_encode Ldx_Mem = 0x61"
| "bpf_encode St = 0x02"
| "bpf_encode Stx = 0x03"
| "bpf_encode Ja = 0x05"
| "bpf_encode (Jump c s) = 0x05 + cond_bits c + src_bits s"
| "bpf_encode (Alu a s) = 0x04 + alu_bits a + src_bits s"
| "bpf_encode Neg = 0x84"
| "bpf_encode Tax = 0x07"
| "bpf_encode Txa = 0x87"

lemma bpf_table_encode: "bpf_table = map (\<lambda>opc. (bpf_encode opc, opc)) (map snd bpf_table)"
  by (simp add: bpf_table_def)

lemma bpf_decode_encode: "bpf_decode c = Some opc \<Longrightarrow> c = bpf_encode opc"
proof -
  assume "bpf_decode c = Some opc"
  then have "(c, opc) \<in> set bpf_table" by (simp add: bpf_decode_def map_of_SomeD)
  then show ?thesis by (subst (asm) bpf_table_encode) auto
qed

lemma bpf_encode_decode: "bpf_decode (bpf_encode opc) = Some opc"
proof -
  show ?thesis
  proof (cases opc)
    case (Jump c s) then show ?thesis by (cases c; cases s; simp) (code_simp)+
  next
    case (Alu a s) then show ?thesis by (cases a; cases s; simp) (code_simp)+
  qed (simp, code_simp)+
qed

text \<open>\<open>insn_ok\<close> is what \<open>validate_insn\<close> asks of each operation.\<close>

fun insn_ok :: "u32 \<Rightarrow> u32 \<Rightarrow> bpf_insn \<Rightarrow> bpf_op \<Rightarrow> bool" where
  "insn_ok i len p Ld_Mem = (k p < 16)"
| "insn_ok i len p Ldx_Mem = (k p < 16)"
| "insn_ok i len p St = (k p < 16)"
| "insn_ok i len p Stx = (k p < 16)"
| "insn_ok i len p (Alu Div SrcK) = (k p \<noteq> 0)"
| "insn_ok i len p (Alu Mod SrcK) = (k p \<noteq> 0)"
| "insn_ok i len p Ja = (i + 1 + k p < len)"
| "insn_ok i len p (Jump c s) = (i + 1 + ucast (jt p) < len \<and> i + 1 + ucast (jf p) < len)"
| "insn_ok i len p _ = True"

lemmas bpf_fields = BPF_CLASS_def BPF_MODE_def BPF_OP_def BPF_SRC_def

lemmas validate_defs =
  validate_insn_def validate_load_def validate_alu_def validate_jump_def Let_def bpf_fields not_le

lemma validate_insn_decoded:
  assumes "bpf_decode (code p) = Some opc"
  shows "validate_insn i len p = insn_ok i len p opc"
proof -
  have c: "code p = bpf_encode opc" using assms by (rule bpf_decode_encode)
  show ?thesis
  proof (cases opc)
    case (Jump c s) with c show ?thesis by (cases c; cases s; simp add: validate_defs)
  next
    case (Alu a s) with c show ?thesis by (cases a; cases s; simp add: validate_defs)
  qed (use c in \<open>simp add: validate_defs\<close>)+
qed

lemma bpf_decode_ret:
  assumes "bpf_decode c = Some opc"
  shows "BPF_CLASS c = BPF_RET \<longleftrightarrow> opc = Ret_K \<or> opc = Ret_A"
proof -
  have c: "c = bpf_encode opc" using assms by (rule bpf_decode_encode)
  show ?thesis
  proof (cases opc)
    case (Jump c' s) with c show ?thesis by (cases c'; cases s; simp add: bpf_fields)
  next
    case (Alu a s) with c show ?thesis by (cases a; cases s; simp add: bpf_fields)
  qed (use c in \<open>simp add: bpf_fields\<close>)+
qed

subsection \<open>Memory safety of validated programs\<close>

text \<open>
  The invariant of the loop, at its head: the next instruction is in the program, and the scratch
  memory has its 16 words.
\<close>

definition bpf_inv :: "bpf_insn list \<Rightarrow> bpf_state \<Rightarrow> bool" where
  "bpf_inv f s \<longleftrightarrow> -1 \<le> pc s \<and> pc s + 1 < int (length f) \<and> length (mem s) = 16"

text \<open>
  The validator does not look at the count of a shift; \<open>shift_safe\<close> is the check it lacks.
\<close>

definition shift_safe :: "bpf_insn \<Rightarrow> bool" where
  "shift_safe p = (case bpf_decode (code p) of
     Some (Alu a src) \<Rightarrow> (a = Lsh \<or> a = Rsh) \<longrightarrow> src = SrcK \<and> k p < 32
   | _ \<Rightarrow> True)"

lemma validate_loop_nth:
  assumes "validate_loop i len f" "n < length f"
  shows "validate_insn (i + of_nat n) len (f ! n)"
  using assms
proof (induction i len f arbitrary: n rule: validate_loop.induct)
  case (2 i len p f)
  then show ?case
    by (cases n) (auto simp: ac_simps split: if_splits)
qed simp

lemma bpf_validate_nth:
  assumes "bpf_validate f" "n < length f"
  shows "validate_insn (of_nat n) (of_nat (length f)) (f ! n)"
  using assms validate_loop_nth [of 0 "of_nat (length f)" f n]
  by (auto simp: bpf_validate_def split: if_splits)

lemma EXTRACT_SHORT_Some: "i + 2 \<le> length p \<Longrightarrow> \<exists>v. EXTRACT_SHORT p i = Some v"
  by (simp add: EXTRACT_SHORT_def)

lemma EXTRACT_LONG_Some: "i + 4 \<le> length p \<Longrightarrow> \<exists>v. EXTRACT_LONG p i = Some v"
  by (simp add: EXTRACT_LONG_def)

lemma unat_u32: "unat (x :: u32) < 4294967296"
proof -
  have "unat x < 2 ^ LENGTH(32)" by (rule unsigned_less)
  then show ?thesis by simp
qed

text \<open>The guards of the loads, as facts about natural numbers.\<close>

lemma abs_guard:
  assumes "\<not> (kk > b \<or> n > b - kk)"
  shows "unat (kk :: u32) + unat n \<le> unat b"
  using assms by (auto simp: not_less word_le_nat_alt unat_sub)

lemma ind_guard:
  fixes x kk b n :: u32
  assumes "\<not> (kk > b \<or> x > b - kk \<or> n > b - (x + kk))"
  shows "unat (x + kk) + unat n \<le> unat b"
proof -
  have k: "kk \<le> b" and x: "x \<le> b - kk" and n: "n \<le> b - (x + kk)"
    using assms by (simp_all add: not_less)
  have "unat x + unat kk \<le> unat b" using k x by (simp add: word_le_nat_alt unat_sub)
  then have "unat (x + kk) = unat x + unat kk"
    using unat_u32 [of b] by (subst unat_plus_if') simp
  then have "x + kk \<le> b" using \<open>unat x + unat kk \<le> unat b\<close> by (simp add: word_le_nat_alt)
  then show ?thesis using n by (simp add: word_le_nat_alt unat_sub)
qed

lemma ind_guard_byte:
  fixes x kk b :: u32
  assumes "\<not> (kk \<ge> b \<or> x \<ge> b - kk)"
  shows "unat (x + kk) < unat b"
proof -
  have k: "unat kk < unat b" using assms by (simp add: not_le word_less_nat_alt)
  then have "unat (b - kk) = unat b - unat kk" by (simp add: unat_sub word_le_nat_alt)
  then have x: "unat x < unat b - unat kk"
    using assms by (simp add: not_le word_less_nat_alt)
  with k have "unat (x + kk) = unat x + unat kk"
    using unat_u32 [of b] by (subst unat_plus_if') simp
  then show ?thesis using k x by simp
qed

text \<open>A step result that is not undefined and keeps the invariant.\<close>

definition ok_result :: "bpf_insn list \<Rightarrow> bpf_result \<Rightarrow> bool" where
  "ok_result f r = (case r of Stop out \<Rightarrow> out \<noteq> Undef | Next s \<Rightarrow> bpf_inv f s)"

lemma ok_result_simps [simp]:
  "ok_result f (Stop out) = (out \<noteq> Undef)"
  "ok_result f (Next s) = bpf_inv f s"
  by (simp_all add: ok_result_def)

lemma ok_set [simp]:
  "bpf_inv f s \<Longrightarrow> ok_result f (set_acc s (Some v))"
  "bpf_inv f s \<Longrightarrow> ok_result f (set_idx s (Some v))"
  by (simp_all add: set_acc_def set_idx_def bpf_inv_def)

lemma bpf_inv_upd [simp]:
  "bpf_inv f (s\<lparr>acc := v\<rparr>) = bpf_inv f s"
  "bpf_inv f (s\<lparr>idx := v\<rparr>) = bpf_inv f s"
  "bpf_inv f (s\<lparr>mem := (mem s)[n := v]\<rparr>) = bpf_inv f s"
  by (simp_all add: bpf_inv_def)

lemma ok_guarded:
  assumes "bpf_inv f s" "\<not> g \<Longrightarrow> \<exists>v. r = Some v"
  shows "ok_result f (if g then Stop (Ret 0) else set_acc s r)"
    and "ok_result f (if g then Stop (Ret 0) else set_idx s r)"
  using assms by auto

lemma ok_loads:
  assumes inv: "bpf_inv f s" and buf: "unat (buflen e) \<le> length (pkt e)"
  shows ok_ld_w_abs: "ok_result f (bpf_ld_w_abs e s kk)"
    and ok_ld_h_abs: "ok_result f (bpf_ld_h_abs e s kk)"
    and ok_ld_b_abs: "ok_result f (bpf_ld_b_abs e s kk)"
    and ok_ld_w_ind: "ok_result f (bpf_ld_w_ind e s kk)"
    and ok_ld_h_ind: "ok_result f (bpf_ld_h_ind e s kk)"
    and ok_ld_b_ind: "ok_result f (bpf_ld_b_ind e s kk)"
    and ok_ldx_msh: "ok_result f (bpf_ldx_msh e s kk)"
proof -
  note in_pkt = le_trans [OF _ buf] less_le_trans [OF _ buf]
  show "ok_result f (bpf_ld_w_abs e s kk)"
    unfolding bpf_ld_w_abs_def
    by (intro ok_guarded inv EXTRACT_LONG_Some in_pkt) (use abs_guard [where kk = kk and b = "buflen e" and n = 4] in simp)
  show "ok_result f (bpf_ld_h_abs e s kk)"
    unfolding bpf_ld_h_abs_def
    by (intro ok_guarded inv EXTRACT_SHORT_Some in_pkt) (use abs_guard [where kk = kk and b = "buflen e" and n = 2] in simp)
  show "ok_result f (bpf_ld_b_abs e s kk)"
    using inv buf by (auto simp: bpf_ld_b_abs_def not_le word_less_nat_alt split: option.split)
  show "ok_result f (bpf_ld_w_ind e s kk)"
    unfolding bpf_ld_w_ind_def Let_def
    by (intro ok_guarded inv EXTRACT_LONG_Some in_pkt)
      (use ind_guard [where kk = kk and b = "buflen e" and x = "idx s" and n = 4] in simp)
  show "ok_result f (bpf_ld_h_ind e s kk)"
    unfolding bpf_ld_h_ind_def Let_def
    by (intro ok_guarded inv EXTRACT_SHORT_Some in_pkt)
      (use ind_guard [where kk = "idx s" and b = "buflen e" and x = kk and n = 2] in \<open>simp add: add.commute\<close>)
  show "ok_result f (bpf_ld_b_ind e s kk)"
    using inv buf ind_guard_byte [where b = "buflen e" and kk = kk and x = "idx s"]
    by (auto simp: bpf_ld_b_ind_def Let_def)
  show "ok_result f (bpf_ldx_msh e s kk)"
    using inv buf by (auto simp: bpf_ldx_msh_def not_le word_less_nat_alt)
qed

text \<open>Jumps: the validator's 32-bit sum is the integer the interpreter computes.\<close>

lemma jump_target:
  fixes d :: u32
  assumes n: "n < len" "len < 2 ^ 31" and ok: "of_nat n + 1 + d < (of_nat len :: u32)"
  shows "0 \<le> int n + 1 + sint d \<and> int n + 1 + sint d < int len"
proof -
  define t where "t = int n + 1 + sint d"
  have lenu: "uint (of_nat len :: u32) = int len" using n by (simp add: uint_nat unat_of_nat)
  have "word_of_int t = (of_nat n + 1 + d :: u32)" by (simp add: t_def)
  then have "uint (of_nat n + 1 + d :: u32) = t mod 2 ^ 32" by (simp add: uint_word_of_int flip: \<open>word_of_int t = _\<close>)
  then have m: "t mod 2 ^ 32 < int len" using ok lenu by (simp add: word_less_def)
  have d: "- (2 ^ 31) \<le> sint d" "sint d < 2 ^ 31"
    using sint_ge [of d] sint_lt [of d] by simp_all
  then have lo: "- (2 ^ 31) \<le> t" and hi: "t < 2 ^ 32" using n by (simp_all add: t_def)
  have "0 \<le> t"
  proof (rule ccontr)
    assume neg: "\<not> 0 \<le> t"
    then have "(t + 2 ^ 32) mod 2 ^ 32 = t + 2 ^ 32" using lo by (intro mod_pos_pos_trivial) simp_all
    then have "t mod 2 ^ 32 = t + 2 ^ 32" by simp
    then show False using m lo n by simp
  qed
  then have "t mod 2 ^ 32 = t" using hi by (simp add: mod_pos_pos_trivial)
  then show ?thesis using m \<open>0 \<le> t\<close> by (simp add: t_def)
qed

lemma cond_target:
  fixes d :: byte
  assumes n: "n < len" "len < 2 ^ 31" and ok: "of_nat n + 1 + ucast d < (of_nat len :: u32)"
  shows "int n + 1 + uint d < int len"
proof -
  have "uint d < 256" using uint_lt2p [of d] by simp
  then have "signed_take_bit 31 (uint d) = uint d"
    by (intro signed_take_bit_int_eq_self) (simp_all add: order_trans [OF _ uint_ge_0])
  then have "sint (ucast d :: u32) = uint d"
    by (simp add: sint_uint uint_up_ucast is_up)
  then show ?thesis using jump_target [OF n ok] by simp
qed

lemma ok_alu:
  assumes "bpf_inv f s" "a = Div \<or> a = Mod \<Longrightarrow> src = SrcK \<Longrightarrow> b \<noteq> 0" "a = Lsh \<or> a = Rsh \<Longrightarrow> b < 32"
  shows "ok_result f (bpf_alu_exec a src s b)"
  using assms by (cases a; cases src; auto simp: not_le)

lemma ok_mem:
  assumes "bpf_inv f s" "kk < (16 :: u32)"
  shows "ok_result f (set_acc s (rd (mem s) (unat kk)))"
    and "ok_result f (set_idx s (rd (mem s) (unat kk)))"
    and "ok_result f (case wr (mem s) (unat kk) v of
       None \<Rightarrow> Stop Undef | Some m \<Rightarrow> Next (s\<lparr>mem := m\<rparr>))"
proof -
  have "unat kk < length (mem s)" using assms by (simp add: bpf_inv_def word_less_nat_alt)
  then show "ok_result f (set_acc s (rd (mem s) (unat kk)))"
    and "ok_result f (set_idx s (rd (mem s) (unat kk)))"
    and "ok_result f (case wr (mem s) (unat kk) v of
       None \<Rightarrow> Stop Undef | Some m \<Rightarrow> Next (s\<lparr>mem := m\<rparr>))"
    using assms(1) by simp_all
qed

text \<open>Executing the validated instruction \<open>n\<close>, when the program goes on behind it.\<close>

lemma bpf_exec_ok:
  assumes inv: "bpf_inv f s" and pc: "pc s = int n" and n: "n < length f" and len: "length f < 2 ^ 31"
    and buf: "unat (buflen e) \<le> length (pkt e)"
    and dec: "bpf_decode (code i) = Some opc" and ok: "insn_ok (of_nat n) (of_nat (length f)) i opc"
    and sh: "shift_safe i"
  shows "ok_result f (bpf_exec e opc i s)"
proof (cases opc)
  case Ja
  then show ?thesis using inv pc ok jump_target [OF n len, of "k i"]
    by (simp add: bpf_inv_def algebra_simps)
next
  case (Jump c src)
  then have "int n + 1 + uint (jt i) < int (length f)" "int n + 1 + uint (jf i) < int (length f)"
    using ok by (auto intro!: cond_target [OF n len])
  moreover have "- 1 \<le> int n + uint (jt i)" "- 1 \<le> int n + uint (jf i)"
    using uint_ge_0 [of "jt i"] uint_ge_0 [of "jf i"] by linarith+
  ultimately show ?thesis using Jump inv pc by (simp add: bpf_inv_def)
next
  case (Alu a src)
  then show ?thesis using inv ok sh dec
    by (cases src; cases a; simp add: ok_alu shift_safe_def bpf_operand_def)
qed (use ok in \<open>simp_all add: inv ok_mem [OF inv] ok_loads [OF inv buf]\<close>)

text \<open>
  One round of the loop, from its head: in a validated program with safe shifts nothing undefined
  happens and the invariant is kept.
\<close>

lemma bpf_step_ok:
  assumes val: "bpf_validate f" and len: "length f < 2 ^ 31" and sh: "list_all shift_safe f"
    and buf: "unat (buflen e) \<le> length (pkt e)" and inv: "bpf_inv f s0"
  shows "ok_result f (bpf_step e f s0)"
proof -
  define n where "n = nat (pc s0 + 1)"
  define s where "s = s0\<lparr>pc := int n\<rparr>"
  define i where "i = f ! n"
  have pc: "pc s0 + 1 = int n" and n: "n < length f"
    using inv by (auto simp: n_def bpf_inv_def)
  have step: "bpf_step e f s0 =
      (case bpf_decode (code i) of None \<Rightarrow> Stop Abort | Some opc \<Rightarrow> bpf_exec e opc i s)"
    using n unfolding s_def i_def by (simp add: bpf_step_def Let_def pc)
  have vi: "validate_insn (of_nat n) (of_nat (length f)) i"
    using bpf_validate_nth [OF val n] by (simp add: i_def)
  show ?thesis
  proof (cases "bpf_decode (code i)")
    case None
    then show ?thesis by (simp add: step)
  next
    case (Some opc)
    then have ok: "insn_ok (of_nat n) (of_nat (length f)) i opc"
      using vi validate_insn_decoded by blast
    show ?thesis
    proof (cases "opc = Ret_K \<or> opc = Ret_A")
      case True
      then show ?thesis using Some step by auto
    next
      case False
      then have "BPF_CLASS (code i) \<noteq> BPF_RET" using bpf_decode_ret [OF Some] by blast
      moreover have "BPF_CLASS (code (last f)) = BPF_RET"
        using val by (auto simp: bpf_validate_def split: if_splits)
      ultimately have "n \<noteq> length f - 1" using n last_conv_nth [of f] by (cases f) (auto simp: i_def)
      then have "bpf_inv f s" using n inv by (simp add: bpf_inv_def s_def)
      moreover have "shift_safe i" using sh n by (simp add: list_all_length i_def)
      ultimately show ?thesis
        using bpf_exec_ok [OF _ _ n len buf Some ok] by (simp add: step Some s_def)
    qed
  qed
qed

subsection \<open>Runs\<close>

text \<open>The states a run of the loop goes through, and its end.\<close>

inductive bpf_steps :: "bpf_env \<Rightarrow> bpf_insn list \<Rightarrow> bpf_state \<Rightarrow> bpf_state \<Rightarrow> bool" for e f where
  bpf_steps_refl: "bpf_steps e f s s"
| bpf_steps_step: "bpf_step e f s = Next s' \<Longrightarrow> bpf_steps e f s' t \<Longrightarrow> bpf_steps e f s t"

inductive_cases bpf_steps_cases: "bpf_steps e f s t"

lemma bpf_steps_inv:
  assumes "bpf_steps e f s t" "bpf_inv f s"
    and "bpf_validate f" "length f < 2 ^ 31" "list_all shift_safe f" "unat (buflen e) \<le> length (pkt e)"
  shows "bpf_inv f t"
  using assms(1,2)
proof induction
  case (bpf_steps_step s s' t)
  then show ?case using bpf_step_ok [OF assms(3-6), of s] by simp
qed

lemma bpf_loop_stop: "bpf_step e f s = Stop r \<Longrightarrow> bpf_loop e f s = Some r"
  by (subst bpf_loop.simps) simp

lemma bpf_loop_next: "bpf_step e f s = Next s' \<Longrightarrow> bpf_loop e f s = bpf_loop e f s'"
  by (subst bpf_loop.simps) simp

lemma bpf_loop_run:
  "bpf_loop e f s = Some r \<longleftrightarrow> (\<exists>t. bpf_steps e f s t \<and> bpf_step e f t = Stop r)"
proof
  assume "bpf_loop e f s = Some r"
  then show "\<exists>t. bpf_steps e f s t \<and> bpf_step e f t = Stop r"
  proof (rule bpf_loop.raw_induct [rotated])
    fix loop e f s r
    assume IH: "\<And>e f s r. loop e f s = Some r \<Longrightarrow> \<exists>t. bpf_steps e f s t \<and> bpf_step e f t = Stop r"
      and body: "(case bpf_step e f s of Next s' \<Rightarrow> loop e f s' | Stop r \<Rightarrow> Some r) = Some r"
    show "\<exists>t. bpf_steps e f s t \<and> bpf_step e f t = Stop r"
    proof (cases "bpf_step e f s")
      case (Next s')
      then have "loop e f s' = Some r" using body by simp
      then have "\<exists>t. bpf_steps e f s' t \<and> bpf_step e f t = Stop r" by (rule IH)
      then show ?thesis using Next by (blast intro: bpf_steps_step)
    next
      case (Stop r')
      then show ?thesis using body by (auto intro: bpf_steps_refl)
    qed
  qed
next
  assume "\<exists>t. bpf_steps e f s t \<and> bpf_step e f t = Stop r"
  then obtain t where "bpf_steps e f s t" "bpf_step e f t = Stop r" by blast
  then show "bpf_loop e f s = Some r"
    by induction (simp_all add: bpf_loop_stop bpf_loop_next)
qed

lemma bpf_inv_init: "bpf_validate f \<Longrightarrow> length mem0 = 16 \<Longrightarrow> bpf_inv f (bpf_init mem0)"
  by (cases f) (simp_all add: bpf_inv_def bpf_init_def bpf_validate_def)

text \<open>
  C3: A validated program none of whose shifts is by 32 or more does nothing undefined, whatever the
  packet and the initial contents of the scratch memory: no access outside of the program, of the
  scratch memory or of the packet buffer, no division by zero.
\<close>

theorem bpf_validate_sound:
  assumes "bpf_validate f" "length f < 2 ^ 31" "list_all shift_safe f"
    and "unat (buflen e) \<le> length (pkt e)" "length mem0 = 16"
  shows "bpf_filter_with_aux_data e mem0 (Some f) \<noteq> Some Undef"
proof
  assume "bpf_filter_with_aux_data e mem0 (Some f) = Some Undef"
  then obtain t where "bpf_steps e f (bpf_init mem0) t" "bpf_step e f t = Stop Undef"
    by (auto simp: bpf_filter_with_aux_data_def bpf_loop_run)
  then show False
    using bpf_step_ok [OF assms(1-4)] bpf_steps_inv [OF _ bpf_inv_init [OF assms(1,5)] assms(1-4)]
    by (metis ok_result_simps(1))
qed

text \<open>
  \<^verbatim>\<open>ldh [12]; jeq #0x800, accept, reject\<close>, as compiled for \<^verbatim>\<open>ip\<close>.
\<close>

definition ip_filter :: "bpf_insn list" where
  "ip_filter = [
     \<lparr>code = 0x28, jt = 0, jf = 0, k = 12\<rparr>, \<lparr>code = 0x15, jt = 0, jf = 1, k = 0x800\<rparr>,
     \<lparr>code = 0x06, jt = 0, jf = 0, k = 262144\<rparr>, \<lparr>code = 0x06, jt = 0, jf = 0, k = 0\<rparr>]"

definition env14 :: "byte \<Rightarrow> byte \<Rightarrow> bpf_env" where
  "env14 a b = \<lparr>pkt = replicate 12 0 @ [a, b], wirelen = 14, buflen = 14, aux_data = None,
     skf_vlan_tag = 0xfffff02c, skf_vlan_tag_present = 0xfffff030\<rparr>"

lemma ip_filter_ok: "bpf_validate ip_filter" "list_all shift_safe ip_filter" "length ip_filter = 4"
  by code_simp+

theorem bpf_validate_sound_witness:
  "bpf_filter_with_aux_data (env14 8 0) (replicate 16 0) (Some ip_filter) \<noteq> Some Undef"
  by (rule bpf_validate_sound) (simp_all add: ip_filter_ok env14_def)

subsection \<open>Termination\<close>

text \<open>
  \<open>forward\<close>: an unconditional jump that does not go back; \<open>known\<close>: a code with a case label.
\<close>

definition forward :: "bpf_insn \<Rightarrow> bool" where
  "forward p = (if bpf_decode (code p) = Some Ja then 0 \<le> sint (k p) else True)"

definition known :: "bpf_insn \<Rightarrow> bool" where
  "known p = (bpf_decode (code p) \<noteq> None)"

lemma set_next [simp]:
  "set_acc s r = Next s' \<Longrightarrow> pc s' = pc s"
  "set_idx s r = Next s' \<Longrightarrow> pc s' = pc s"
  by (auto simp: set_acc_def set_idx_def split: option.splits)

lemma alu_next: "bpf_alu_exec a src s b = Next s' \<Longrightarrow> pc s' = pc s"
  by (cases a) (auto split: if_splits)

lemmas bpf_loads =
  bpf_ld_w_abs_def bpf_ld_h_abs_def bpf_ld_b_abs_def bpf_ld_w_ind_def bpf_ld_h_ind_def bpf_ld_b_ind_def
  bpf_ldx_msh_def

lemma bpf_exec_pc:
  assumes "bpf_exec e opc i s = Next s'" "opc = Ja \<Longrightarrow> 0 \<le> sint (k i)"
  shows "pc s \<le> pc s'"
proof (cases opc)
  case (Alu a src)
  then show ?thesis using assms alu_next by fastforce
qed (use assms in \<open>auto simp: bpf_loads Let_def split: if_splits option.splits dest: set_next\<close>)

lemma bpf_step_pc:
  assumes "bpf_step e f s = Next s'" "list_all forward f"
  shows "pc s < pc s'" and "pc s' \<ge> 0" and "pc s + 1 < int (length f)"
proof -
  have r: "0 \<le> pc s + 1" "pc s + 1 < int (length f)"
    using assms(1) by (auto simp: bpf_step_def Let_def split: if_splits)
  then obtain opc where opc: "bpf_decode (code (f ! nat (pc s + 1))) = Some opc"
      "bpf_exec e opc (f ! nat (pc s + 1)) (s\<lparr>pc := pc s + 1\<rparr>) = Next s'"
    using assms(1) by (auto simp: bpf_step_def Let_def split: option.splits)
  have "forward (f ! nat (pc s + 1))" using assms(2) r by (simp add: list_all_length)
  then have "pc (s\<lparr>pc := pc s + 1\<rparr>) \<le> pc s'"
    using opc by (intro bpf_exec_pc) (auto simp: forward_def)
  then show "pc s < pc s'" "pc s' \<ge> 0" "pc s + 1 < int (length f)" using r by simp_all
qed

lemma bpf_loop_forward:
  assumes "list_all forward f"
  shows "\<exists>r. bpf_loop e f s = Some r"
proof (induction "nat (int (length f) - pc s)" arbitrary: s rule: less_induct)
  case less
  show ?case
  proof (cases "bpf_step e f s")
    case (Next s')
    then have "\<exists>r. bpf_loop e f s' = Some r"
      using bpf_step_pc [OF Next assms] by (intro less) simp
    then show ?thesis by (simp add: bpf_loop_next [OF Next])
  next
    case (Stop r)
    then show ?thesis by (simp add: bpf_loop_stop)
  qed
qed

lemma set_no_abort [simp]: "set_acc s r \<noteq> Stop Abort" "set_idx s r \<noteq> Stop Abort"
  by (simp_all add: set_acc_def set_idx_def split: option.split)

lemma bpf_exec_no_abort: "bpf_exec e opc i s \<noteq> Stop Abort"
proof (cases opc)
  case (Alu a src)
  then show ?thesis by (cases a) auto
qed (simp_all add: bpf_loads Let_def split: option.split)

lemma bpf_step_no_abort:
  assumes "list_all known f"
  shows "bpf_step e f s \<noteq> Stop Abort"
proof (cases "pc s + 1 < 0 \<or> int (length f) \<le> pc s + 1")
  case True
  then show ?thesis by (simp add: bpf_step_def Let_def)
next
  case False
  then have "nat (pc s + 1) < length f" by linarith
  then have "known (f ! nat (pc s + 1))" using assms by (simp add: list_all_length)
  then show ?thesis using False
    by (auto simp: bpf_step_def Let_def bpf_exec_no_abort known_def)
qed

lemma bpf_filter_total_ok:
  assumes "bpf_validate f" "length f < 2 ^ 31"
    and "list_all shift_safe f" "list_all forward f" "list_all known f"
    and "unat (buflen e) \<le> length (pkt e)" "length mem0 = 16"
  shows "\<exists>v. bpf_filter_with_aux_data e mem0 (Some f) = Some (Ret v)"
proof -
  obtain r where r: "bpf_loop e f (bpf_init mem0) = Some r" using bpf_loop_forward [OF assms(4)] by blast
  then obtain t where t: "bpf_steps e f (bpf_init mem0) t" "bpf_step e f t = Stop r"
    by (auto simp: bpf_loop_run)
  have "bpf_inv f t" using t bpf_inv_init assms bpf_steps_inv by blast
  then have "r \<noteq> Undef" using bpf_step_ok [OF assms(1-3,6)] t by (metis ok_result_simps(1))
  moreover have "r \<noteq> Abort" using bpf_step_no_abort [OF assms(5)] t by metis
  ultimately show ?thesis using r by (cases r) (simp_all add: bpf_filter_with_aux_data_def)
qed

lemma ip_filter_forward: "list_all forward ip_filter" "list_all known ip_filter"
  by code_simp+

text \<open>
  C4: A validated program of known codes, with forward jumps and shifts below 32, returns a verdict
  on every packet: it terminates, does not abort and does nothing undefined.
\<close>

theorem bpf_filter_total:
  assumes "bpf_validate f" "length f < 2 ^ 31"
    and "list_all shift_safe f" "list_all forward f" "list_all known f"
    and "unat (buflen e) \<le> length (pkt e)" "length mem0 = 16"
  shows "\<exists>v. bpf_filter_with_aux_data e mem0 (Some f) = Some (Ret v)"
  using assms by (rule bpf_filter_total_ok)

theorem bpf_filter_total_witness:
  "\<exists>v. bpf_filter_with_aux_data (env14 8 6) (replicate 16 0) (Some ip_filter) = Some (Ret v)"
  by (rule bpf_filter_total) (simp_all add: ip_filter_ok ip_filter_forward env14_def)

subsection \<open>What the filter reads\<close>

lemma rd_take: "i < n \<Longrightarrow> rd (take n xs) i = rd xs i"
  by (simp add: rd_def)

lemma EXTRACT_SHORT_take: "i + 2 \<le> n \<Longrightarrow> EXTRACT_SHORT (take n p) i = EXTRACT_SHORT p i"
  by (simp add: EXTRACT_SHORT_def rd_take)

lemma EXTRACT_LONG_take: "i + 4 \<le> n \<Longrightarrow> EXTRACT_LONG (take n p) i = EXTRACT_LONG p i"
  by (simp add: EXTRACT_LONG_def rd_take)

lemma if_guard_cong: "(\<not> g \<Longrightarrow> a = b) \<Longrightarrow> (if g then c else a) = (if g then c else b)"
  by simp

abbreviation captured :: "bpf_env \<Rightarrow> bpf_env" where
  "captured e \<equiv> e\<lparr>pkt := take (unat (buflen e)) (pkt e)\<rparr>"

lemma bpf_loads_captured:
  "bpf_ld_w_abs (captured e) s kk = bpf_ld_w_abs e s kk"
  "bpf_ld_h_abs (captured e) s kk = bpf_ld_h_abs e s kk"
  "bpf_ld_b_abs (captured e) s kk = bpf_ld_b_abs e s kk"
  "bpf_ld_w_ind (captured e) s kk = bpf_ld_w_ind e s kk"
  "bpf_ld_h_ind (captured e) s kk = bpf_ld_h_ind e s kk"
  "bpf_ld_b_ind (captured e) s kk = bpf_ld_b_ind e s kk"
  "bpf_ldx_msh (captured e) s kk = bpf_ldx_msh e s kk"
proof -
  show "bpf_ld_w_abs (captured e) s kk = bpf_ld_w_abs e s kk"
    using abs_guard [where kk = kk and b = "buflen e" and n = 4]
    by (auto simp: bpf_ld_w_abs_def EXTRACT_LONG_take intro!: if_guard_cong)
  show "bpf_ld_h_abs (captured e) s kk = bpf_ld_h_abs e s kk"
    using abs_guard [where kk = kk and b = "buflen e" and n = 2]
    by (auto simp: bpf_ld_h_abs_def EXTRACT_SHORT_take intro!: if_guard_cong)
  show "bpf_ld_b_abs (captured e) s kk = bpf_ld_b_abs e s kk"
    by (auto simp: bpf_ld_b_abs_def rd_take word_le_nat_alt intro!: if_guard_cong)
  show "bpf_ld_w_ind (captured e) s kk = bpf_ld_w_ind e s kk"
    using ind_guard [where kk = kk and b = "buflen e" and x = "idx s" and n = 4]
    by (auto simp: bpf_ld_w_ind_def Let_def EXTRACT_LONG_take intro!: if_guard_cong)
  show "bpf_ld_h_ind (captured e) s kk = bpf_ld_h_ind e s kk"
    using ind_guard [where kk = "idx s" and b = "buflen e" and x = kk and n = 2]
    by (auto simp: bpf_ld_h_ind_def Let_def EXTRACT_SHORT_take add.commute intro!: if_guard_cong)
  show "bpf_ld_b_ind (captured e) s kk = bpf_ld_b_ind e s kk"
    using ind_guard_byte [where b = "buflen e" and kk = kk and x = "idx s"]
    by (auto simp: bpf_ld_b_ind_def Let_def rd_take intro!: if_guard_cong)
  show "bpf_ldx_msh (captured e) s kk = bpf_ldx_msh e s kk"
    by (auto simp: bpf_ldx_msh_def rd_take word_le_nat_alt intro!: if_guard_cong)
qed

lemma bpf_step_captured: "bpf_step (captured e) f s = bpf_step e f s"
proof -
  have "bpf_exec (captured e) opc i s = bpf_exec e opc i s" for opc i s
    by (cases opc) (simp_all add: bpf_loads_captured)
  then show ?thesis by (simp add: bpf_step_def Let_def cong: option.case_cong)
qed

lemma bpf_loop_cong:
  assumes "\<And>s. bpf_step e f s = bpf_step e' f s"
  shows "bpf_loop e f s = bpf_loop e' f s"
proof -
  have "bpf_steps e f s t \<Longrightarrow> bpf_steps e' f s t" for s t
    by (induction rule: bpf_steps.induct) (auto simp: assms intro: bpf_steps.intros)
  moreover have "bpf_steps e' f s t \<Longrightarrow> bpf_steps e f s t" for s t
    by (induction rule: bpf_steps.induct) (auto simp: assms intro: bpf_steps.intros)
  ultimately have "bpf_steps e f s = bpf_steps e' f s" by (intro ext) blast
  then have "bpf_loop e f s = Some r \<longleftrightarrow> bpf_loop e' f s = Some r" for r
    by (simp add: bpf_loop_run assms)
  then show ?thesis by (metis not_None_eq)
qed

text \<open>
  C7: The verdict depends on the \<open>buflen\<close> captured bytes only, never on memory behind them.
\<close>

theorem bpf_filter_reads_captured:
  "bpf_filter_with_aux_data (captured e) mem0 prog = bpf_filter_with_aux_data e mem0 prog"
  by (auto simp: bpf_filter_with_aux_data_def bpf_step_captured split: option.split
      intro!: bpf_loop_cong)

subsection \<open>What the validator lets through\<close>

text \<open>
  The header comment of \<open>bpf_validate\<close> promises forward jumps and programs that end with a verdict.
  The user-space build accepts a program that loops for ever, one that aborts the process, and one
  whose shift is undefined.
\<close>

definition loop_prog :: "bpf_insn list" where
  "loop_prog = [\<lparr>code = 0x05, jt = 0, jf = 0, k = 0xffffffff\<rparr>, \<lparr>code = 0x06, jt = 0, jf = 0, k = 0\<rparr>]"

lemma loop_prog_step: "bpf_step e loop_prog (bpf_init mem0) = Next (bpf_init mem0)"
proof -
  have "bpf_decode 0x05 = Some Ja" by code_simp
  moreover have "sint (0xffffffff :: u32) = -1" by code_simp
  ultimately show ?thesis by (simp add: bpf_step_def loop_prog_def bpf_init_def Let_def)
qed

lemma loop_prog_steps: "bpf_steps e loop_prog s t \<Longrightarrow> s = bpf_init mem0 \<Longrightarrow> t = bpf_init mem0"
  by (induction rule: bpf_steps.induct) (simp_all add: loop_prog_step)

text \<open>
  C23: The validator accepts a program that jumps back to itself, and that program never returns.
\<close>

theorem bpf_validate_accepts_loop:
  "bpf_validate loop_prog \<and> bpf_filter_with_aux_data e mem0 (Some loop_prog) = None"
proof -
  have "\<not> bpf_loop e loop_prog (bpf_init mem0) = Some r" for r
    using loop_prog_steps loop_prog_step by (fastforce simp: bpf_loop_run)
  moreover have "bpf_validate loop_prog" by code_simp
  ultimately show ?thesis
    by (cases "bpf_loop e loop_prog (bpf_init mem0)") (auto simp: bpf_filter_with_aux_data_def)
qed

text \<open>
  \<open>BPF_LD | BPF_H | BPF_IMM\<close> is an immediate load of the modes the validator allows, but no case
  label of the interpreter; a shift by 32 is not rejected like a division by zero.
\<close>

definition abort_prog :: "bpf_insn list" where
  "abort_prog = [\<lparr>code = 0x08, jt = 0, jf = 0, k = 0\<rparr>, \<lparr>code = 0x06, jt = 0, jf = 0, k = 0\<rparr>]"

definition shift_prog :: "bpf_insn list" where
  "shift_prog = [\<lparr>code = 0x64, jt = 0, jf = 0, k = 32\<rparr>, \<lparr>code = 0x16, jt = 0, jf = 0, k = 0\<rparr>]"


end
