(* ===== verification/Bpf_Image.thy ===== *)
theory Bpf_Image
  imports Bpf Fmt
begin

text \<open>
  The disassembler of the packet filter (\<^verbatim>\<open>bpf_image.c\<close>), which \<open>bpf_dump\<close> calls for each
  instruction: which codes it names, and that its fixed-size buffers hold every line it prints.
\<close>

subsection \<open>The disassembler\<close>

text \<open>
  \<open>bpf_image\<close> of \<^verbatim>\<open>bpf_image.c\<close>: the mnemonic and the operand's format of each code. Formats have
  the conversions \<open>%d\<close> and \<open>%x\<close> of one \<^verbatim>\<open>int\<close>.
\<close>

definition image_mem_table :: "(u16 \<times> string \<times> string) list" where
  "image_mem_table = [
     (BPF_RET OR BPF_K, (''ret'', ''#%d'')),
     (BPF_RET OR BPF_A, (''ret'', '''')),
     (BPF_LD OR BPF_W OR BPF_ABS, (''ld'', ''[%d]'')),
     (BPF_LD OR BPF_H OR BPF_ABS, (''ldh'', ''[%d]'')),
     (BPF_LD OR BPF_B OR BPF_ABS, (''ldb'', ''[%d]'')),
     (BPF_LD OR BPF_W OR BPF_LEN, (''ld'', ''#pktlen'')),
     (BPF_LD OR BPF_W OR BPF_IND, (''ld'', ''[x + %d]'')),
     (BPF_LD OR BPF_H OR BPF_IND, (''ldh'', ''[x + %d]'')),
     (BPF_LD OR BPF_B OR BPF_IND, (''ldb'', ''[x + %d]'')),
     (BPF_LD OR BPF_IMM, (''ld'', ''#0x%x'')),
     (BPF_LDX OR BPF_IMM, (''ldx'', ''#0x%x'')),
     (BPF_LDX OR BPF_MSH OR BPF_B, (''ldxb'', ''4*([%d]&0xf)'')),
     (BPF_LD OR BPF_MEM, (''ld'', ''M[%d]'')),
     (BPF_LDX OR BPF_MEM, (''ldx'', ''M[%d]'')),
     (BPF_ST, (''st'', ''M[%d]'')),
     (BPF_STX, (''stx'', ''M[%d]'')),
     (BPF_JMP OR BPF_JA, (''ja'', ''%d''))]"

definition image_alu_table :: "(u16 \<times> string \<times> string) list" where
  "image_alu_table = [
     (BPF_JMP OR BPF_JGT OR BPF_K, (''jgt'', ''#0x%x'')),
     (BPF_JMP OR BPF_JGE OR BPF_K, (''jge'', ''#0x%x'')),
     (BPF_JMP OR BPF_JEQ OR BPF_K, (''jeq'', ''#0x%x'')),
     (BPF_JMP OR BPF_JSET OR BPF_K, (''jset'', ''#0x%x'')),
     (BPF_JMP OR BPF_JGT OR BPF_X, (''jgt'', ''x'')),
     (BPF_JMP OR BPF_JGE OR BPF_X, (''jge'', ''x'')),
     (BPF_JMP OR BPF_JEQ OR BPF_X, (''jeq'', ''x'')),
     (BPF_JMP OR BPF_JSET OR BPF_X, (''jset'', ''x'')),
     (BPF_ALU OR BPF_ADD OR BPF_X, (''add'', ''x'')),
     (BPF_ALU OR BPF_SUB OR BPF_X, (''sub'', ''x'')),
     (BPF_ALU OR BPF_MUL OR BPF_X, (''mul'', ''x'')),
     (BPF_ALU OR BPF_DIV OR BPF_X, (''div'', ''x'')),
     (BPF_ALU OR BPF_MOD OR BPF_X, (''mod'', ''x'')),
     (BPF_ALU OR BPF_AND OR BPF_X, (''and'', ''x'')),
     (BPF_ALU OR BPF_OR OR BPF_X, (''or'', ''x'')),
     (BPF_ALU OR BPF_XOR OR BPF_X, (''xor'', ''x'')),
     (BPF_ALU OR BPF_LSH OR BPF_X, (''lsh'', ''x'')),
     (BPF_ALU OR BPF_RSH OR BPF_X, (''rsh'', ''x'')),
     (BPF_ALU OR BPF_ADD OR BPF_K, (''add'', ''#%d'')),
     (BPF_ALU OR BPF_SUB OR BPF_K, (''sub'', ''#%d'')),
     (BPF_ALU OR BPF_MUL OR BPF_K, (''mul'', ''#%d'')),
     (BPF_ALU OR BPF_DIV OR BPF_K, (''div'', ''#%d'')),
     (BPF_ALU OR BPF_MOD OR BPF_K, (''mod'', ''#%d'')),
     (BPF_ALU OR BPF_AND OR BPF_K, (''and'', ''#0x%x'')),
     (BPF_ALU OR BPF_OR OR BPF_K, (''or'', ''#0x%x'')),
     (BPF_ALU OR BPF_XOR OR BPF_K, (''xor'', ''#0x%x'')),
     (BPF_ALU OR BPF_LSH OR BPF_K, (''lsh'', ''#%d'')),
     (BPF_ALU OR BPF_RSH OR BPF_K, (''rsh'', ''#%d'')),
     (BPF_ALU OR BPF_NEG, (''neg'', '''')),
     (BPF_MISC OR BPF_TAX, (''tax'', '''')),
     (BPF_MISC OR BPF_TXA, (''txa'', ''''))]"

definition bpf_image_table :: "(u16 \<times> string \<times> string) list" where
  "bpf_image_table = image_mem_table @ image_alu_table"

fun printf1 :: "string \<Rightarrow> u32 \<Rightarrow> string" where
  "printf1 [] v = []"
| "printf1 [c] v = [c]"
| "printf1 (c # d # f) v =
     (if c = CHR ''%'' \<and> d = CHR ''d'' then dec_int (sint v) @ printf1 f v
      else if c = CHR ''%'' \<and> d = CHR ''x'' then hex_nat (unat v) @ printf1 f v
      else c # printf1 (d # f) v)"

text \<open>The switch: mnemonic, format and \<open>v\<close>.\<close>

definition image_case :: "nat \<Rightarrow> bpf_insn \<Rightarrow> string \<times> string \<times> u32" where
  "image_case n p = (case map_of bpf_image_table (code p) of
     None \<Rightarrow> (''unimp'', ''0x%x'', ucast (code p))
   | Some (opn, fmt) \<Rightarrow>
       (opn, fmt, if code p = BPF_JMP OR BPF_JA then of_nat n + 1 + k p else k p))"

definition image_line :: "nat \<Rightarrow> bpf_insn \<Rightarrow> string \<Rightarrow> string \<Rightarrow> string" where
  "image_line n p opn operand =
     (if BPF_CLASS (code p) = BPF_JMP \<and> BPF_OP (code p) \<noteq> BPF_JA then
        ''('' @ pad0 3 (dec_nat n) @ '') '' @ padr 8 opn @ '' '' @ padr 16 operand @
        '' jt '' @ dec_nat (n + 1 + unat (jt p)) @ [CHR 0x09] @ ''jf '' @ dec_nat (n + 1 + unat (jf p))
      else ''('' @ pad0 3 (dec_nat n) @ '') '' @ padr 8 opn @ '' '' @ operand)"

definition bpf_image :: "bpf_insn \<Rightarrow> nat \<Rightarrow> string" where
  "bpf_image p n =
     (let (opn, fmt, v) = image_case n p;
          operand = snprintf 64 (printf1 fmt v)
      in snprintf 256 (image_line n p opn operand))"

text \<open>
  C38: The disassembler knows exactly the codes the interpreter executes, but for one: it prints
  \<open>ldx #pktlen\<close> (\<open>BPF_LDX | BPF_W | BPF_LEN\<close>), which the interpreter runs, as \<open>unimp\<close>.
\<close>

theorem bpf_image_covers:
  "c \<in> fst ` set bpf_image_table \<longleftrightarrow> bpf_decode c \<noteq> None \<and> bpf_decode c \<noteq> Some Ldx_W_Len"
proof -
  have d: "bpf_decode c \<noteq> None \<longleftrightarrow> c \<in> set (map fst bpf_table)"
    by (simp add: bpf_decode_def map_of_eq_None_iff)
  have l: "bpf_decode c = Some Ldx_W_Len \<longleftrightarrow> c = 0x81"
    using bpf_decode_encode [of c Ldx_W_Len] bpf_encode_decode [of Ldx_W_Len] by auto
  have "set (map fst bpf_image_table) = set (map fst bpf_table) - {0x81}"
    by code_simp
  then show ?thesis unfolding d l by auto
qed

lemma bpf_image_ldx_len:
  "bpf_image \<lparr>code = 0x81, jt = 0, jf = 0, k = 0\<rparr> 0 = ''(000) unimp    0x81''"
  by code_simp

lemma length_printed:
  fixes v :: u32
  shows "length (dec_int (sint v)) \<le> 11" and "length (hex_nat (unat v)) \<le> 8"
proof -
  have "\<bar>sint v\<bar> < 10 ^ 10" using sint_ge [of v] sint_lt [of v] by simp
  then show "length (dec_int (sint v)) \<le> 11" by (rule length_dec_int)
  have "unat v < 16 ^ 8" using unat_u32 [of v] by simp
  then show "length (hex_nat (unat v)) \<le> 8" by (intro length_hex_nat) simp_all
qed

lemma length_printf1: "length (printf1 f v) \<le> length f + 9 * count_list f (CHR ''%'')"
  using length_printed [of v] by (induction f v rule: printf1.induct) auto

lemma image_case_short:
  assumes "image_case n p = (opn, fmt, v)"
  shows "length opn \<le> 8" and "length (printf1 fmt w) \<le> 21"
proof -
  have t: "list_all (\<lambda>(c, opn, fmt). length opn \<le> 8 \<and> length fmt \<le> 12 \<and> count_list fmt (CHR ''%'') \<le> 1)
      ((0, ''unimp'', ''0x%x'') # bpf_image_table)"
    by code_simp
  have "\<exists>c. (c, opn, fmt) \<in> set ((0, ''unimp'', ''0x%x'') # bpf_image_table)"
    using assms map_of_SomeD [of bpf_image_table "code p"]
    by (auto simp: image_case_def split: option.splits)
  then have "length opn \<le> 8 \<and> length fmt \<le> 12 \<and> count_list fmt (CHR ''%'') \<le> 1"
    using t unfolding list_all_iff by fastforce
  then show "length opn \<le> 8" "length (printf1 fmt w) \<le> 21"
    using length_printf1 [of fmt w] by linarith+
qed

lemma length_image_line:
  assumes "length opn \<le> 8" "length operand \<le> 21" "n < 10 ^ 9"
  shows "length (image_line n p opn operand) \<le> 100"
proof -
  have j: "unat (b :: byte) < 256" for b using unsigned_less [of b, where ?'a = nat] by simp
  have "n + 1 + unat (jt p) < 10 ^ 10" "n + 1 + unat (jf p) < 10 ^ 10"
    using assms(3) j [of "jt p"] j [of "jf p"] by simp_all
  then have "length (dec_nat (n + 1 + unat (jt p))) \<le> 10" "length (dec_nat (n + 1 + unat (jf p))) \<le> 10"
    by (auto intro!: length_dec_nat)
  moreover have "length (dec_nat n) \<le> 9" using assms(3) by (intro length_dec_nat) simp_all
  ultimately show ?thesis using assms(1,2) by (auto simp: image_line_def length_pads)
qed

text \<open>
  The fixed buffers of the disassembler are large enough: neither the operand nor the line is
  truncated.
\<close>

lemma bpf_image_fits:
  assumes "n < 10 ^ 9" "image_case n p = (opn, fmt, v)"
  shows "bpf_image p n = image_line n p opn (printf1 fmt v)"
proof -
  have op: "length opn \<le> 8" "length (printf1 fmt v) \<le> 21" using image_case_short [OF assms(2)] by blast+
  then have "length (image_line n p opn (printf1 fmt v)) \<le> 100" using assms(1) length_image_line by blast
  then show ?thesis using op by (simp add: bpf_image_def snprintf_def assms(2))
qed

lemma bpf_image_fits_example:
  "bpf_image (ip_filter ! 1) 1 = ''(001) jeq      #0x800           jt 2'' @ [CHR 0x09] @ ''jf 3''"
proof -
  have c: "image_case 1 (ip_filter ! 1) = (''jeq'', ''#0x%x'', 0x800)" by code_simp
  have "image_line 1 (ip_filter ! 1) ''jeq'' (printf1 ''#0x%x'' 0x800) =
      ''(001) jeq      #0x800           jt 2'' @ [CHR 0x09] @ ''jf 3''" by code_simp
  then show ?thesis using bpf_image_fits [OF _ c] by simp
qed

end
