(* ===== verification/Byte_Order.thy ===== *)
theory Byte_Order
  imports Prelude
begin

unbundle bit_operations_syntax

text \<open>
  Integers in memory: how the little-endian host that the code runs on lays out 16, 32 and 64 bit
  integers, loads and stores of them at an offset of a buffer, and the byte-swapping macros of
  libpcap (\<^verbatim>\<open>pcap-common.h\<close>, \<^verbatim>\<open>pcap-int.h\<close>). The locale \<open>scalar\<close> states what such a layout provides;
  a load, a swap and a store at one place then reverse the bytes there.
\<close>

subsection \<open>Layout\<close>

definition le16 :: "u16 \<Rightarrow> byte list" where
  "le16 w = [ucast w, ucast (drop_bit 8 w)]"

definition of_le16 :: "byte list \<Rightarrow> u16" where
  "of_le16 bs = (case bs of [a, b] \<Rightarrow> ucast a OR push_bit 8 (ucast b) | _ \<Rightarrow> 0)"

definition le32 :: "u32 \<Rightarrow> byte list" where
  "le32 w = [ucast w, ucast (drop_bit 8 w), ucast (drop_bit 16 w), ucast (drop_bit 24 w)]"

definition of_le32 :: "byte list \<Rightarrow> u32" where
  "of_le32 bs = (case bs of [a, b, c, d] \<Rightarrow>
     ucast a OR push_bit 8 (ucast b) OR push_bit 16 (ucast c) OR push_bit 24 (ucast d) | _ \<Rightarrow> 0)"

definition le64 :: "u64 \<Rightarrow> byte list" where
  "le64 w = [ucast w, ucast (drop_bit 8 w), ucast (drop_bit 16 w), ucast (drop_bit 24 w),
     ucast (drop_bit 32 w), ucast (drop_bit 40 w), ucast (drop_bit 48 w), ucast (drop_bit 56 w)]"

definition of_le64 :: "byte list \<Rightarrow> u64" where
  "of_le64 bs = (case bs of [a, b, c, d, e, f, g, h] \<Rightarrow>
     ucast a OR push_bit 8 (ucast b) OR push_bit 16 (ucast c) OR push_bit 24 (ucast d) OR
     push_bit 32 (ucast e) OR push_bit 40 (ucast f) OR push_bit 48 (ucast g) OR push_bit 56 (ucast h) | _ \<Rightarrow> 0)"

definition SWAPSHORT :: "u16 \<Rightarrow> u16" where
  "SWAPSHORT y = push_bit 8 (y AND 0xff) OR drop_bit 8 (y AND 0xff00)"

definition SWAPLONG :: "u32 \<Rightarrow> u32" where
  "SWAPLONG y = push_bit 24 (y AND 0xff) OR push_bit 8 (y AND 0xff00) OR
     drop_bit 8 (y AND 0xff0000) OR (drop_bit 24 y AND 0xff)"

definition SWAPLL :: "u64 \<Rightarrow> u64" where
  "SWAPLL ull = drop_bit 56 (ull AND 0xff00000000000000) OR drop_bit 40 (ull AND 0x00ff000000000000) OR
     drop_bit 24 (ull AND 0x0000ff0000000000) OR drop_bit 8 (ull AND 0x000000ff00000000) OR
     push_bit 8 (ull AND 0x00000000ff000000) OR push_bit 24 (ull AND 0x0000000000ff0000) OR
     push_bit 40 (ull AND 0x000000000000ff00) OR push_bit 56 (ull AND 0x00000000000000ff)"

subsection \<open>Loads, stores and swaps in place\<close>

definition ld16 :: "byte list \<Rightarrow> nat \<Rightarrow> u16 option" where
  "ld16 b i = map_option of_le16 (rd_bytes b i 2)"

definition st16 :: "byte list \<Rightarrow> nat \<Rightarrow> u16 \<Rightarrow> byte list option" where
  "st16 b i w = wr_bytes b i (le16 w)"

definition ld32 :: "byte list \<Rightarrow> nat \<Rightarrow> u32 option" where
  "ld32 b i = map_option of_le32 (rd_bytes b i 4)"

definition st32 :: "byte list \<Rightarrow> nat \<Rightarrow> u32 \<Rightarrow> byte list option" where
  "st32 b i w = wr_bytes b i (le32 w)"

definition ld64 :: "byte list \<Rightarrow> nat \<Rightarrow> u64 option" where
  "ld64 b i = map_option of_le64 (rd_bytes b i 8)"

definition st64 :: "byte list \<Rightarrow> nat \<Rightarrow> u64 \<Rightarrow> byte list option" where
  "st64 b i w = wr_bytes b i (le64 w)"

definition swap16_at :: "nat \<Rightarrow> byte list \<Rightarrow> byte list option" where
  "swap16_at i b = (case ld16 b i of None \<Rightarrow> None | Some w \<Rightarrow> st16 b i (SWAPSHORT w))"

definition swap32_at :: "nat \<Rightarrow> byte list \<Rightarrow> byte list option" where
  "swap32_at i b = (case ld32 b i of None \<Rightarrow> None | Some w \<Rightarrow> st32 b i (SWAPLONG w))"

definition swap64_at :: "nat \<Rightarrow> byte list \<Rightarrow> byte list option" where
  "swap64_at i b = (case ld64 b i of None \<Rightarrow> None | Some w \<Rightarrow> st64 b i (SWAPLL w))"

subsection \<open>What a layout provides\<close>

locale scalar =
  fixes enc :: "'w \<Rightarrow> byte list" and dec :: "byte list \<Rightarrow> 'w" and swap :: "'w \<Rightarrow> 'w" and n :: nat
  assumes enc_length [simp]: "length (enc w) = n"
    and dec_enc [simp]: "dec (enc w) = w"
    and enc_dec: "length bs = n \<Longrightarrow> enc (dec bs) = bs"
    and enc_swap: "enc (swap w) = rev (enc w)"
begin

lemma enc_inject: "enc v = enc w \<longleftrightarrow> v = w"
  by (metis dec_enc)

lemma swap_swap: "swap (swap w) = w"
  by (metis dec_enc enc_swap rev_rev_ident)

lemma dec_rev: "length bs = n \<Longrightarrow> dec (rev bs) = swap (dec bs)"
  by (metis dec_enc enc_dec enc_swap)

lemma ld_mid: "i = length pre \<Longrightarrow> length x = n \<Longrightarrow> map_option dec (rd_bytes (pre @ x @ post) i n) = Some (dec x)"
  by simp

lemma st_mid: "i = length pre \<Longrightarrow> length x = n \<Longrightarrow> wr_bytes (pre @ x @ post) i (enc w) = Some (pre @ enc w @ post)"
  by simp

lemma in_place:
  assumes "i + n \<le> length b"
  shows "(case map_option dec (rd_bytes b i n) of None \<Rightarrow> None | Some w \<Rightarrow> wr_bytes b i (enc (swap w))) =
    Some (take i b @ rev (take n (drop i b)) @ drop (i + n) b)"
  using assms by (simp add: enc_swap enc_dec)

end

lemma length_le [simp]: "length (le16 v) = 2" "length (le32 w) = 4" "length (le64 x) = 8"
  by (simp_all add: le16_def le32_def le64_def)

text \<open>One byte of a word, moved back to its place.\<close>

lemma bit_chunk0: "bit (ucast (ucast w :: byte) :: 'a::len word) n \<longleftrightarrow> n < 8 \<and> bit (w :: 'a word) n"
  by (auto simp: bit_simps dest: bit_imp_le_length)

lemma bit_chunk: "bit (push_bit k (ucast (ucast (drop_bit k w) :: byte)) :: 'a::len word) n \<longleftrightarrow>
    k \<le> n \<and> n < k + 8 \<and> bit (w :: 'a word) n"
  by (auto simp: bit_simps dest: bit_imp_le_length)

lemma of_le16_le16: "of_le16 (le16 w) = w"
proof (rule bit_word_eqI)
  fix n assume "n < LENGTH(16)"
  then have "n < 8 \<or> 8 \<le> n \<and> n < 8 + 8" by simp linarith
  then show "bit (of_le16 (le16 w)) n = bit w n"
    unfolding of_le16_def le16_def by (auto simp: bit_or_iff bit_chunk0 bit_chunk)
qed

lemma of_le32_le32: "of_le32 (le32 w) = w"
proof (rule bit_word_eqI)
  fix n assume "n < LENGTH(32)"
  then have "n < 8 \<or> 8 \<le> n \<and> n < 8 + 8 \<or> 16 \<le> n \<and> n < 16 + 8 \<or> 24 \<le> n \<and> n < 24 + 8" by simp linarith
  then show "bit (of_le32 (le32 w)) n = bit w n"
    unfolding of_le32_def le32_def by (auto simp: bit_or_iff bit_chunk0 bit_chunk)
qed

lemma of_le64_le64: "of_le64 (le64 w) = w"
proof (rule bit_word_eqI)
  fix n assume "n < LENGTH(64)"
  then have "n < 8 \<or> 8 \<le> n \<and> n < 8 + 8 \<or> 16 \<le> n \<and> n < 16 + 8 \<or> 24 \<le> n \<and> n < 24 + 8 \<or>
      32 \<le> n \<and> n < 32 + 8 \<or> 40 \<le> n \<and> n < 40 + 8 \<or> 48 \<le> n \<and> n < 48 + 8 \<or> 56 \<le> n \<and> n < 56 + 8"
    by simp linarith
  then show "bit (of_le64 (le64 w)) n = bit w n"
    unfolding of_le64_def le64_def by (auto simp: bit_or_iff bit_chunk0 bit_chunk)
qed

text \<open>And the bytes of a word that is put together from bytes.\<close>

lemma byte_of_or: "ucast (v OR w) = (ucast v OR ucast w :: byte)"
  by (rule bit_word_eqI) (auto simp: bit_simps)

lemma drop_bit_or_word: "drop_bit k (v OR w) = drop_bit k v OR drop_bit k (w :: 'a::len word)"
  by (rule bit_word_eqI) (auto simp: bit_simps)

lemma byte_of_place0: "8 \<le> LENGTH('a) \<Longrightarrow> ucast (ucast a :: 'a::len word) = (a :: byte)"
  by (rule bit_word_eqI) (auto simp: bit_simps)

lemma byte_of_drop0: "8 \<le> j \<Longrightarrow> ucast (drop_bit j (ucast (a :: byte) :: 'a::len word)) = (0 :: byte)"
  by (rule bit_word_eqI) (auto simp: bit_simps dest: bit_imp_le_length)

lemma byte_of_push0: "8 \<le> k \<Longrightarrow> ucast (push_bit k (ucast (a :: byte) :: 'a::len word)) = (0 :: byte)"
  by (rule bit_word_eqI) (auto simp: bit_simps)

lemma byte_of_same: "k + 8 \<le> LENGTH('a) \<Longrightarrow>
    ucast (drop_bit k (push_bit k (ucast (a :: byte) :: 'a::len word))) = a"
  by (rule bit_word_eqI) (auto simp: bit_simps)

lemma byte_of_lower: "j + 8 \<le> k \<Longrightarrow> ucast (drop_bit j (push_bit k (ucast (a :: byte) :: 'a::len word))) = (0 :: byte)"
  by (rule bit_word_eqI) (auto simp: bit_simps)

lemma byte_of_upper: "k + 8 \<le> j \<Longrightarrow> ucast (drop_bit j (push_bit k (ucast (a :: byte) :: 'a::len word))) = (0 :: byte)"
  by (rule bit_word_eqI) (auto simp: bit_simps dest: bit_imp_le_length)

lemmas byte_of_simps = byte_of_or drop_bit_or_word byte_of_place0 byte_of_drop0 byte_of_push0
  byte_of_same byte_of_lower byte_of_upper

lemma length_2E: "length bs = 2 \<Longrightarrow> \<exists>a b. bs = [a, b]"
  by (auto simp: numeral_2_eq_2 length_Suc_conv)

lemma length_4E: "length bs = 4 \<Longrightarrow> \<exists>a b c d. bs = [a, b, c, d]"
  by (auto simp: eval_nat_numeral length_Suc_conv)

lemma length_8E: "length bs = 8 \<Longrightarrow> \<exists>a b c d e f g h. bs = [a, b, c, d, e, f, g, h]"
  by (auto simp: eval_nat_numeral length_Suc_conv)

lemma le16_of_le16: "length bs = 2 \<Longrightarrow> le16 (of_le16 bs) = bs"
  by (drule length_2E) (auto simp: of_le16_def le16_def byte_of_simps)

lemma le32_of_le32: "length bs = 4 \<Longrightarrow> le32 (of_le32 bs) = bs"
  by (drule length_4E) (auto simp: of_le32_def le32_def byte_of_simps)

lemma le64_of_le64: "length bs = 8 \<Longrightarrow> le64 (of_le64 bs) = bs"
  by (drule length_8E) (auto simp: of_le64_def le64_def byte_of_simps)

text \<open>The masks and shifts of the macros move bytes.\<close>

lemma low_byte: "w AND 0xff = (ucast (ucast (w :: 'a::len word) :: byte) :: 'a word)"
proof -
  have "(0xff :: 'a word) = mask 8" by (simp add: mask_numeral)
  then show ?thesis by (auto simp: bit_eq_iff bit_simps possible_bit_word)
qed

lemma byte_at: "w AND push_bit k 0xff = push_bit k (ucast (ucast (drop_bit k (w :: 'a::len word)) :: byte) :: 'a word)"
proof -
  have "(0xff :: 'a word) = mask 8" by (simp add: mask_numeral)
  then show ?thesis by (auto simp: bit_eq_iff bit_simps possible_bit_word)
qed

lemma drop_push_byte: "j \<le> k \<Longrightarrow> k + 8 \<le> LENGTH('a) \<Longrightarrow>
    drop_bit j (push_bit k (ucast (a :: byte) :: 'a::len word)) = push_bit (k - j) (ucast a)"
proof (rule bit_word_eqI)
  fix n assume h: "j \<le> k" "k + 8 \<le> LENGTH('a)" "n < LENGTH('a)"
  have "j + n - k = n - (k - j)" "k \<le> j + n \<longleftrightarrow> k - j \<le> n" using h(1) by linarith+
  then show "bit (drop_bit j (push_bit k (ucast a :: 'a word))) n = bit (push_bit (k - j) (ucast a :: 'a word)) n"
    using h by (auto simp: bit_simps dest: bit_imp_le_length)
qed

lemma SWAPSHORT_rev: "SWAPSHORT w = of_le16 (rev (le16 w))"
proof -
  have "(0xff00 :: u16) = push_bit 8 0xff" by simp
  then show ?thesis
    by (simp add: SWAPSHORT_def low_byte byte_at drop_push_byte of_le16_def le16_def or.commute del: push_bit_numeral)
qed

lemma SWAPLONG_rev: "SWAPLONG w = of_le32 (rev (le32 w))"
proof -
  have m: "(0xff00 :: u32) = push_bit 8 0xff" "(0xff0000 :: u32) = push_bit 16 0xff" by simp_all
  show ?thesis unfolding SWAPLONG_def m low_byte byte_at
    by (simp add: drop_push_byte of_le32_def le32_def or.commute or.left_commute or.assoc)
qed

lemma SWAPLL_rev: "SWAPLL w = of_le64 (rev (le64 w))"
proof -
  have m: "(0xff00 :: u64) = push_bit 8 0xff" "(0xff0000 :: u64) = push_bit 16 0xff"
    "(0xff000000 :: u64) = push_bit 24 0xff" "(0xff00000000 :: u64) = push_bit 32 0xff"
    "(0xff0000000000 :: u64) = push_bit 40 0xff" "(0xff000000000000 :: u64) = push_bit 48 0xff"
    "(0xff00000000000000 :: u64) = push_bit 56 0xff" by simp_all
  show ?thesis unfolding SWAPLL_def m low_byte byte_at
    by (simp add: drop_push_byte of_le64_def le64_def or.commute or.left_commute or.assoc)
qed

interpretation scalar16: scalar le16 of_le16 SWAPSHORT 2
  by unfold_locales
    (simp_all add: of_le16_le16 le16_of_le16 SWAPSHORT_rev)

interpretation scalar32: scalar le32 of_le32 SWAPLONG 4
  by unfold_locales
    (simp_all add: of_le32_le32 le32_of_le32 SWAPLONG_rev)

interpretation scalar64: scalar le64 of_le64 SWAPLL 8
  by unfold_locales
    (simp_all add: of_le64_le64 le64_of_le64 SWAPLL_rev)

text \<open>A swap in place reverses the bytes of the field, and stays inside the buffer.\<close>

lemma swap16_at_eq: "i + 2 \<le> length b \<Longrightarrow> swap16_at i b = Some (take i b @ rev (take 2 (drop i b)) @ drop (i + 2) b)"
  unfolding swap16_at_def ld16_def st16_def by (rule scalar16.in_place)

lemma swap32_at_eq: "i + 4 \<le> length b \<Longrightarrow> swap32_at i b = Some (take i b @ rev (take 4 (drop i b)) @ drop (i + 4) b)"
  unfolding swap32_at_def ld32_def st32_def by (rule scalar32.in_place)

lemma swap64_at_eq: "i + 8 \<le> length b \<Longrightarrow> swap64_at i b = Some (take i b @ rev (take 8 (drop i b)) @ drop (i + 8) b)"
  unfolding swap64_at_def ld64_def st64_def by (rule scalar64.in_place)

lemma swap_at_mid:
  "i = length p \<Longrightarrow> length x = 2 \<Longrightarrow> swap16_at i (p @ x @ q) = Some (p @ rev x @ q)"
  "i = length p \<Longrightarrow> length x = 4 \<Longrightarrow> swap32_at i (p @ x @ q) = Some (p @ rev x @ q)"
  "i = length p \<Longrightarrow> length x = 8 \<Longrightarrow> swap64_at i (p @ x @ q) = Some (p @ rev x @ q)"
  by (simp_all add: swap16_at_eq swap32_at_eq swap64_at_eq)

end
