(* ===== verification/Pcap_Linktype.thy ===== *)
theory Pcap_Linktype
  imports Prelude
begin

text \<open>
  Link-layer header types of libpcap: the \<^verbatim>\<open>DLT_*\<close> constants of \<^verbatim>\<open>pcap/bpf.h\<close> on Linux, the
  \<^verbatim>\<open>LINKTYPE_*\<close> constants of \<^verbatim>\<open>pcap-common.c\<close> that stand for them in capture files, the
  translation between the two. The constants are listed by name in tables, too;
  C's \<^verbatim>\<open>int\<close> values are integers here, as no arithmetic is done on them.
\<close>

subsection \<open>The constants\<close>

abbreviation (input) DLT_NULL :: int where "DLT_NULL \<equiv> 0"
abbreviation (input) DLT_EN10MB :: int where "DLT_EN10MB \<equiv> 1"
abbreviation (input) DLT_EN3MB :: int where "DLT_EN3MB \<equiv> 2"
abbreviation (input) DLT_AX25 :: int where "DLT_AX25 \<equiv> 3"
abbreviation (input) DLT_PRONET :: int where "DLT_PRONET \<equiv> 4"
abbreviation (input) DLT_CHAOS :: int where "DLT_CHAOS \<equiv> 5"
abbreviation (input) DLT_IEEE802 :: int where "DLT_IEEE802 \<equiv> 6"
abbreviation (input) DLT_ARCNET :: int where "DLT_ARCNET \<equiv> 7"
abbreviation (input) DLT_SLIP :: int where "DLT_SLIP \<equiv> 8"
abbreviation (input) DLT_PPP :: int where "DLT_PPP \<equiv> 9"
abbreviation (input) DLT_FDDI :: int where "DLT_FDDI \<equiv> 10"
abbreviation (input) DLT_ATM_RFC1483 :: int where "DLT_ATM_RFC1483 \<equiv> 11"
abbreviation (input) DLT_RAW :: int where "DLT_RAW \<equiv> 12"
abbreviation (input) DLT_SLIP_BSDOS :: int where "DLT_SLIP_BSDOS \<equiv> 15"
abbreviation (input) DLT_PPP_BSDOS :: int where "DLT_PPP_BSDOS \<equiv> 16"
abbreviation (input) DLT_ATM_CLIP :: int where "DLT_ATM_CLIP \<equiv> 19"
abbreviation (input) DLT_REDBACK_SMARTEDGE :: int where "DLT_REDBACK_SMARTEDGE \<equiv> 32"
abbreviation (input) DLT_PPP_SERIAL :: int where "DLT_PPP_SERIAL \<equiv> 50"
abbreviation (input) DLT_PPP_ETHER :: int where "DLT_PPP_ETHER \<equiv> 51"
abbreviation (input) DLT_SYMANTEC_FIREWALL :: int where "DLT_SYMANTEC_FIREWALL \<equiv> 99"
abbreviation (input) DLT_MATCHING_MIN :: int where "DLT_MATCHING_MIN \<equiv> 104"
abbreviation (input) DLT_C_HDLC :: int where "DLT_C_HDLC \<equiv> 104"
abbreviation (input) DLT_CHDLC :: int where "DLT_CHDLC \<equiv> DLT_C_HDLC"
abbreviation (input) DLT_IEEE802_11 :: int where "DLT_IEEE802_11 \<equiv> 105"

definition dlt_defines_1 :: "(string \<times> int) list" where
  "dlt_defines_1 = [
    (''DLT_NULL'', DLT_NULL), (''DLT_EN10MB'', DLT_EN10MB), (''DLT_EN3MB'', DLT_EN3MB),
    (''DLT_AX25'', DLT_AX25), (''DLT_PRONET'', DLT_PRONET), (''DLT_CHAOS'', DLT_CHAOS),
    (''DLT_IEEE802'', DLT_IEEE802), (''DLT_ARCNET'', DLT_ARCNET), (''DLT_SLIP'', DLT_SLIP),
    (''DLT_PPP'', DLT_PPP), (''DLT_FDDI'', DLT_FDDI), (''DLT_ATM_RFC1483'', DLT_ATM_RFC1483),
    (''DLT_RAW'', DLT_RAW), (''DLT_SLIP_BSDOS'', DLT_SLIP_BSDOS),
    (''DLT_PPP_BSDOS'', DLT_PPP_BSDOS), (''DLT_ATM_CLIP'', DLT_ATM_CLIP),
    (''DLT_REDBACK_SMARTEDGE'', DLT_REDBACK_SMARTEDGE), (''DLT_PPP_SERIAL'', DLT_PPP_SERIAL),
    (''DLT_PPP_ETHER'', DLT_PPP_ETHER), (''DLT_SYMANTEC_FIREWALL'', DLT_SYMANTEC_FIREWALL),
    (''DLT_MATCHING_MIN'', DLT_MATCHING_MIN), (''DLT_C_HDLC'', DLT_C_HDLC),
    (''DLT_CHDLC'', DLT_CHDLC), (''DLT_IEEE802_11'', DLT_IEEE802_11)]"

abbreviation (input) DLT_FRELAY :: int where "DLT_FRELAY \<equiv> 107"
abbreviation (input) DLT_LOOP :: int where "DLT_LOOP \<equiv> 108"
abbreviation (input) DLT_ENC :: int where "DLT_ENC \<equiv> 109"
abbreviation (input) DLT_LINUX_SLL :: int where "DLT_LINUX_SLL \<equiv> 113"
abbreviation (input) DLT_LTALK :: int where "DLT_LTALK \<equiv> 114"
abbreviation (input) DLT_ECONET :: int where "DLT_ECONET \<equiv> 115"
abbreviation (input) DLT_IPFILTER :: int where "DLT_IPFILTER \<equiv> 116"
abbreviation (input) DLT_PFLOG :: int where "DLT_PFLOG \<equiv> 117"
abbreviation (input) DLT_CISCO_IOS :: int where "DLT_CISCO_IOS \<equiv> 118"
abbreviation (input) DLT_PRISM_HEADER :: int where "DLT_PRISM_HEADER \<equiv> 119"
abbreviation (input) DLT_AIRONET_HEADER :: int where "DLT_AIRONET_HEADER \<equiv> 120"
abbreviation (input) DLT_HHDLC :: int where "DLT_HHDLC \<equiv> 121"
abbreviation (input) DLT_IP_OVER_FC :: int where "DLT_IP_OVER_FC \<equiv> 122"
abbreviation (input) DLT_SUNATM :: int where "DLT_SUNATM \<equiv> 123"

definition dlt_defines_2 :: "(string \<times> int) list" where
  "dlt_defines_2 = [
    (''DLT_FRELAY'', DLT_FRELAY), (''DLT_LOOP'', DLT_LOOP), (''DLT_ENC'', DLT_ENC),
    (''DLT_LINUX_SLL'', DLT_LINUX_SLL), (''DLT_LTALK'', DLT_LTALK), (''DLT_ECONET'', DLT_ECONET),
    (''DLT_IPFILTER'', DLT_IPFILTER), (''DLT_PFLOG'', DLT_PFLOG),
    (''DLT_CISCO_IOS'', DLT_CISCO_IOS), (''DLT_PRISM_HEADER'', DLT_PRISM_HEADER),
    (''DLT_AIRONET_HEADER'', DLT_AIRONET_HEADER), (''DLT_HHDLC'', DLT_HHDLC),
    (''DLT_IP_OVER_FC'', DLT_IP_OVER_FC), (''DLT_SUNATM'', DLT_SUNATM)]"

abbreviation (input) DLT_RIO :: int where "DLT_RIO \<equiv> 124"
abbreviation (input) DLT_PCI_EXP :: int where "DLT_PCI_EXP \<equiv> 125"
abbreviation (input) DLT_AURORA :: int where "DLT_AURORA \<equiv> 126"
abbreviation (input) DLT_IEEE802_11_RADIO :: int where "DLT_IEEE802_11_RADIO \<equiv> 127"
abbreviation (input) DLT_TZSP :: int where "DLT_TZSP \<equiv> 128"
abbreviation (input) DLT_ARCNET_LINUX :: int where "DLT_ARCNET_LINUX \<equiv> 129"
abbreviation (input) DLT_JUNIPER_MLPPP :: int where "DLT_JUNIPER_MLPPP \<equiv> 130"
abbreviation (input) DLT_JUNIPER_MLFR :: int where "DLT_JUNIPER_MLFR \<equiv> 131"
abbreviation (input) DLT_JUNIPER_ES :: int where "DLT_JUNIPER_ES \<equiv> 132"
abbreviation (input) DLT_JUNIPER_GGSN :: int where "DLT_JUNIPER_GGSN \<equiv> 133"
abbreviation (input) DLT_JUNIPER_MFR :: int where "DLT_JUNIPER_MFR \<equiv> 134"
abbreviation (input) DLT_JUNIPER_ATM2 :: int where "DLT_JUNIPER_ATM2 \<equiv> 135"
abbreviation (input) DLT_JUNIPER_SERVICES :: int where "DLT_JUNIPER_SERVICES \<equiv> 136"
abbreviation (input) DLT_JUNIPER_ATM1 :: int where "DLT_JUNIPER_ATM1 \<equiv> 137"
abbreviation (input) DLT_APPLE_IP_OVER_IEEE1394 :: int where "DLT_APPLE_IP_OVER_IEEE1394 \<equiv> 138"
abbreviation (input) DLT_MTP2_WITH_PHDR :: int where "DLT_MTP2_WITH_PHDR \<equiv> 139"
abbreviation (input) DLT_MTP2 :: int where "DLT_MTP2 \<equiv> 140"
abbreviation (input) DLT_MTP3 :: int where "DLT_MTP3 \<equiv> 141"
abbreviation (input) DLT_SCCP :: int where "DLT_SCCP \<equiv> 142"
abbreviation (input) DLT_DOCSIS :: int where "DLT_DOCSIS \<equiv> 143"
abbreviation (input) DLT_LINUX_IRDA :: int where "DLT_LINUX_IRDA \<equiv> 144"
abbreviation (input) DLT_IBM_SP :: int where "DLT_IBM_SP \<equiv> 145"
abbreviation (input) DLT_IBM_SN :: int where "DLT_IBM_SN \<equiv> 146"
abbreviation (input) DLT_USER0 :: int where "DLT_USER0 \<equiv> 147"
abbreviation (input) DLT_USER1 :: int where "DLT_USER1 \<equiv> 148"
abbreviation (input) DLT_USER2 :: int where "DLT_USER2 \<equiv> 149"
abbreviation (input) DLT_USER3 :: int where "DLT_USER3 \<equiv> 150"
abbreviation (input) DLT_USER4 :: int where "DLT_USER4 \<equiv> 151"
abbreviation (input) DLT_USER5 :: int where "DLT_USER5 \<equiv> 152"
abbreviation (input) DLT_USER6 :: int where "DLT_USER6 \<equiv> 153"
abbreviation (input) DLT_USER7 :: int where "DLT_USER7 \<equiv> 154"
abbreviation (input) DLT_USER8 :: int where "DLT_USER8 \<equiv> 155"
abbreviation (input) DLT_USER9 :: int where "DLT_USER9 \<equiv> 156"
abbreviation (input) DLT_USER10 :: int where "DLT_USER10 \<equiv> 157"
abbreviation (input) DLT_USER11 :: int where "DLT_USER11 \<equiv> 158"
abbreviation (input) DLT_USER12 :: int where "DLT_USER12 \<equiv> 159"
abbreviation (input) DLT_USER13 :: int where "DLT_USER13 \<equiv> 160"
abbreviation (input) DLT_USER14 :: int where "DLT_USER14 \<equiv> 161"
abbreviation (input) DLT_USER15 :: int where "DLT_USER15 \<equiv> 162"

definition dlt_defines_3 :: "(string \<times> int) list" where
  "dlt_defines_3 = [
    (''DLT_RIO'', DLT_RIO), (''DLT_PCI_EXP'', DLT_PCI_EXP), (''DLT_AURORA'', DLT_AURORA),
    (''DLT_IEEE802_11_RADIO'', DLT_IEEE802_11_RADIO), (''DLT_TZSP'', DLT_TZSP),
    (''DLT_ARCNET_LINUX'', DLT_ARCNET_LINUX), (''DLT_JUNIPER_MLPPP'', DLT_JUNIPER_MLPPP),
    (''DLT_JUNIPER_MLFR'', DLT_JUNIPER_MLFR), (''DLT_JUNIPER_ES'', DLT_JUNIPER_ES),
    (''DLT_JUNIPER_GGSN'', DLT_JUNIPER_GGSN), (''DLT_JUNIPER_MFR'', DLT_JUNIPER_MFR),
    (''DLT_JUNIPER_ATM2'', DLT_JUNIPER_ATM2), (''DLT_JUNIPER_SERVICES'', DLT_JUNIPER_SERVICES),
    (''DLT_JUNIPER_ATM1'', DLT_JUNIPER_ATM1),
    (''DLT_APPLE_IP_OVER_IEEE1394'', DLT_APPLE_IP_OVER_IEEE1394),
    (''DLT_MTP2_WITH_PHDR'', DLT_MTP2_WITH_PHDR), (''DLT_MTP2'', DLT_MTP2),
    (''DLT_MTP3'', DLT_MTP3), (''DLT_SCCP'', DLT_SCCP), (''DLT_DOCSIS'', DLT_DOCSIS),
    (''DLT_LINUX_IRDA'', DLT_LINUX_IRDA), (''DLT_IBM_SP'', DLT_IBM_SP),
    (''DLT_IBM_SN'', DLT_IBM_SN), (''DLT_USER0'', DLT_USER0), (''DLT_USER1'', DLT_USER1),
    (''DLT_USER2'', DLT_USER2), (''DLT_USER3'', DLT_USER3), (''DLT_USER4'', DLT_USER4),
    (''DLT_USER5'', DLT_USER5), (''DLT_USER6'', DLT_USER6), (''DLT_USER7'', DLT_USER7),
    (''DLT_USER8'', DLT_USER8), (''DLT_USER9'', DLT_USER9), (''DLT_USER10'', DLT_USER10),
    (''DLT_USER11'', DLT_USER11), (''DLT_USER12'', DLT_USER12), (''DLT_USER13'', DLT_USER13),
    (''DLT_USER14'', DLT_USER14), (''DLT_USER15'', DLT_USER15)]"

abbreviation (input) DLT_IEEE802_11_RADIO_AVS :: int where "DLT_IEEE802_11_RADIO_AVS \<equiv> 163"
abbreviation (input) DLT_JUNIPER_MONITOR :: int where "DLT_JUNIPER_MONITOR \<equiv> 164"
abbreviation (input) DLT_BACNET_MS_TP :: int where "DLT_BACNET_MS_TP \<equiv> 165"
abbreviation (input) DLT_PPP_PPPD :: int where "DLT_PPP_PPPD \<equiv> 166"
abbreviation (input) DLT_PPP_WITH_DIRECTION :: int where "DLT_PPP_WITH_DIRECTION \<equiv> DLT_PPP_PPPD"
abbreviation (input) DLT_LINUX_PPP_WITHDIRECTION :: int where "DLT_LINUX_PPP_WITHDIRECTION \<equiv> DLT_PPP_PPPD"
abbreviation (input) DLT_JUNIPER_PPPOE :: int where "DLT_JUNIPER_PPPOE \<equiv> 167"
abbreviation (input) DLT_JUNIPER_PPPOE_ATM :: int where "DLT_JUNIPER_PPPOE_ATM \<equiv> 168"
abbreviation (input) DLT_GPRS_LLC :: int where "DLT_GPRS_LLC \<equiv> 169"
abbreviation (input) DLT_GPF_T :: int where "DLT_GPF_T \<equiv> 170"
abbreviation (input) DLT_GPF_F :: int where "DLT_GPF_F \<equiv> 171"
abbreviation (input) DLT_GCOM_T1E1 :: int where "DLT_GCOM_T1E1 \<equiv> 172"
abbreviation (input) DLT_GCOM_SERIAL :: int where "DLT_GCOM_SERIAL \<equiv> 173"
abbreviation (input) DLT_JUNIPER_PIC_PEER :: int where "DLT_JUNIPER_PIC_PEER \<equiv> 174"
abbreviation (input) DLT_ERF_ETH :: int where "DLT_ERF_ETH \<equiv> 175"
abbreviation (input) DLT_ERF_POS :: int where "DLT_ERF_POS \<equiv> 176"
abbreviation (input) DLT_LINUX_LAPD :: int where "DLT_LINUX_LAPD \<equiv> 177"
abbreviation (input) DLT_JUNIPER_ETHER :: int where "DLT_JUNIPER_ETHER \<equiv> 178"
abbreviation (input) DLT_JUNIPER_PPP :: int where "DLT_JUNIPER_PPP \<equiv> 179"
abbreviation (input) DLT_JUNIPER_FRELAY :: int where "DLT_JUNIPER_FRELAY \<equiv> 180"
abbreviation (input) DLT_JUNIPER_CHDLC :: int where "DLT_JUNIPER_CHDLC \<equiv> 181"
abbreviation (input) DLT_MFR :: int where "DLT_MFR \<equiv> 182"
abbreviation (input) DLT_JUNIPER_VP :: int where "DLT_JUNIPER_VP \<equiv> 183"
abbreviation (input) DLT_A429 :: int where "DLT_A429 \<equiv> 184"
abbreviation (input) DLT_A653_ICM :: int where "DLT_A653_ICM \<equiv> 185"
abbreviation (input) DLT_USB :: int where "DLT_USB \<equiv> 186"
abbreviation (input) DLT_BLUETOOTH_HCI_H4 :: int where "DLT_BLUETOOTH_HCI_H4 \<equiv> 187"
abbreviation (input) DLT_IEEE802_16_MAC_CPS :: int where "DLT_IEEE802_16_MAC_CPS \<equiv> 188"
abbreviation (input) DLT_USB_LINUX :: int where "DLT_USB_LINUX \<equiv> 189"

definition dlt_defines_4 :: "(string \<times> int) list" where
  "dlt_defines_4 = [
    (''DLT_IEEE802_11_RADIO_AVS'', DLT_IEEE802_11_RADIO_AVS),
    (''DLT_JUNIPER_MONITOR'', DLT_JUNIPER_MONITOR), (''DLT_BACNET_MS_TP'', DLT_BACNET_MS_TP),
    (''DLT_PPP_PPPD'', DLT_PPP_PPPD), (''DLT_PPP_WITH_DIRECTION'', DLT_PPP_WITH_DIRECTION),
    (''DLT_LINUX_PPP_WITHDIRECTION'', DLT_LINUX_PPP_WITHDIRECTION),
    (''DLT_JUNIPER_PPPOE'', DLT_JUNIPER_PPPOE), (''DLT_JUNIPER_PPPOE_ATM'', DLT_JUNIPER_PPPOE_ATM),
    (''DLT_GPRS_LLC'', DLT_GPRS_LLC), (''DLT_GPF_T'', DLT_GPF_T), (''DLT_GPF_F'', DLT_GPF_F),
    (''DLT_GCOM_T1E1'', DLT_GCOM_T1E1), (''DLT_GCOM_SERIAL'', DLT_GCOM_SERIAL),
    (''DLT_JUNIPER_PIC_PEER'', DLT_JUNIPER_PIC_PEER), (''DLT_ERF_ETH'', DLT_ERF_ETH),
    (''DLT_ERF_POS'', DLT_ERF_POS), (''DLT_LINUX_LAPD'', DLT_LINUX_LAPD),
    (''DLT_JUNIPER_ETHER'', DLT_JUNIPER_ETHER), (''DLT_JUNIPER_PPP'', DLT_JUNIPER_PPP),
    (''DLT_JUNIPER_FRELAY'', DLT_JUNIPER_FRELAY), (''DLT_JUNIPER_CHDLC'', DLT_JUNIPER_CHDLC),
    (''DLT_MFR'', DLT_MFR), (''DLT_JUNIPER_VP'', DLT_JUNIPER_VP), (''DLT_A429'', DLT_A429),
    (''DLT_A653_ICM'', DLT_A653_ICM), (''DLT_USB'', DLT_USB),
    (''DLT_BLUETOOTH_HCI_H4'', DLT_BLUETOOTH_HCI_H4),
    (''DLT_IEEE802_16_MAC_CPS'', DLT_IEEE802_16_MAC_CPS), (''DLT_USB_LINUX'', DLT_USB_LINUX)]"

abbreviation (input) DLT_CAN20B :: int where "DLT_CAN20B \<equiv> 190"
abbreviation (input) DLT_IEEE802_15_4_LINUX :: int where "DLT_IEEE802_15_4_LINUX \<equiv> 191"
abbreviation (input) DLT_PPI :: int where "DLT_PPI \<equiv> 192"
abbreviation (input) DLT_IEEE802_16_MAC_CPS_RADIO :: int where "DLT_IEEE802_16_MAC_CPS_RADIO \<equiv> 193"
abbreviation (input) DLT_JUNIPER_ISM :: int where "DLT_JUNIPER_ISM \<equiv> 194"
abbreviation (input) DLT_IEEE802_15_4 :: int where "DLT_IEEE802_15_4 \<equiv> 195"
abbreviation (input) DLT_SITA :: int where "DLT_SITA \<equiv> 196"
abbreviation (input) DLT_ERF :: int where "DLT_ERF \<equiv> 197"
abbreviation (input) DLT_RAIF1 :: int where "DLT_RAIF1 \<equiv> 198"
abbreviation (input) DLT_IPMB :: int where "DLT_IPMB \<equiv> 199"
abbreviation (input) DLT_JUNIPER_ST :: int where "DLT_JUNIPER_ST \<equiv> 200"
abbreviation (input) DLT_BLUETOOTH_HCI_H4_WITH_PHDR :: int where "DLT_BLUETOOTH_HCI_H4_WITH_PHDR \<equiv> 201"
abbreviation (input) DLT_AX25_KISS :: int where "DLT_AX25_KISS \<equiv> 202"
abbreviation (input) DLT_LAPD :: int where "DLT_LAPD \<equiv> 203"
abbreviation (input) DLT_PPP_WITH_DIR :: int where "DLT_PPP_WITH_DIR \<equiv> 204"
abbreviation (input) DLT_C_HDLC_WITH_DIR :: int where "DLT_C_HDLC_WITH_DIR \<equiv> 205"
abbreviation (input) DLT_FRELAY_WITH_DIR :: int where "DLT_FRELAY_WITH_DIR \<equiv> 206"
abbreviation (input) DLT_LAPB_WITH_DIR :: int where "DLT_LAPB_WITH_DIR \<equiv> 207"
abbreviation (input) DLT_IPMB_LINUX :: int where "DLT_IPMB_LINUX \<equiv> 209"
abbreviation (input) DLT_FLEXRAY :: int where "DLT_FLEXRAY \<equiv> 210"
abbreviation (input) DLT_MOST :: int where "DLT_MOST \<equiv> 211"
abbreviation (input) DLT_LIN :: int where "DLT_LIN \<equiv> 212"
abbreviation (input) DLT_X2E_SERIAL :: int where "DLT_X2E_SERIAL \<equiv> 213"
abbreviation (input) DLT_X2E_XORAYA :: int where "DLT_X2E_XORAYA \<equiv> 214"

definition dlt_defines_5 :: "(string \<times> int) list" where
  "dlt_defines_5 = [
    (''DLT_CAN20B'', DLT_CAN20B), (''DLT_IEEE802_15_4_LINUX'', DLT_IEEE802_15_4_LINUX),
    (''DLT_PPI'', DLT_PPI), (''DLT_IEEE802_16_MAC_CPS_RADIO'', DLT_IEEE802_16_MAC_CPS_RADIO),
    (''DLT_JUNIPER_ISM'', DLT_JUNIPER_ISM), (''DLT_IEEE802_15_4'', DLT_IEEE802_15_4),
    (''DLT_SITA'', DLT_SITA), (''DLT_ERF'', DLT_ERF), (''DLT_RAIF1'', DLT_RAIF1),
    (''DLT_IPMB'', DLT_IPMB), (''DLT_JUNIPER_ST'', DLT_JUNIPER_ST),
    (''DLT_BLUETOOTH_HCI_H4_WITH_PHDR'', DLT_BLUETOOTH_HCI_H4_WITH_PHDR),
    (''DLT_AX25_KISS'', DLT_AX25_KISS), (''DLT_LAPD'', DLT_LAPD),
    (''DLT_PPP_WITH_DIR'', DLT_PPP_WITH_DIR), (''DLT_C_HDLC_WITH_DIR'', DLT_C_HDLC_WITH_DIR),
    (''DLT_FRELAY_WITH_DIR'', DLT_FRELAY_WITH_DIR), (''DLT_LAPB_WITH_DIR'', DLT_LAPB_WITH_DIR),
    (''DLT_IPMB_LINUX'', DLT_IPMB_LINUX), (''DLT_FLEXRAY'', DLT_FLEXRAY), (''DLT_MOST'', DLT_MOST),
    (''DLT_LIN'', DLT_LIN), (''DLT_X2E_SERIAL'', DLT_X2E_SERIAL),
    (''DLT_X2E_XORAYA'', DLT_X2E_XORAYA)]"

abbreviation (input) DLT_IEEE802_15_4_NONASK_PHY :: int where "DLT_IEEE802_15_4_NONASK_PHY \<equiv> 215"
abbreviation (input) DLT_LINUX_EVDEV :: int where "DLT_LINUX_EVDEV \<equiv> 216"
abbreviation (input) DLT_GSMTAP_UM :: int where "DLT_GSMTAP_UM \<equiv> 217"
abbreviation (input) DLT_GSMTAP_ABIS :: int where "DLT_GSMTAP_ABIS \<equiv> 218"
abbreviation (input) DLT_MPLS :: int where "DLT_MPLS \<equiv> 219"
abbreviation (input) DLT_USB_LINUX_MMAPPED :: int where "DLT_USB_LINUX_MMAPPED \<equiv> 220"
abbreviation (input) DLT_DECT :: int where "DLT_DECT \<equiv> 221"
abbreviation (input) DLT_AOS :: int where "DLT_AOS \<equiv> 222"
abbreviation (input) DLT_WIHART :: int where "DLT_WIHART \<equiv> 223"
abbreviation (input) DLT_FC_2 :: int where "DLT_FC_2 \<equiv> 224"
abbreviation (input) DLT_FC_2_WITH_FRAME_DELIMS :: int where "DLT_FC_2_WITH_FRAME_DELIMS \<equiv> 225"
abbreviation (input) DLT_IPNET :: int where "DLT_IPNET \<equiv> 226"
abbreviation (input) DLT_CAN_SOCKETCAN :: int where "DLT_CAN_SOCKETCAN \<equiv> 227"
abbreviation (input) DLT_IPV4 :: int where "DLT_IPV4 \<equiv> 228"
abbreviation (input) DLT_IPV6 :: int where "DLT_IPV6 \<equiv> 229"
abbreviation (input) DLT_IEEE802_15_4_NOFCS :: int where "DLT_IEEE802_15_4_NOFCS \<equiv> 230"

definition dlt_defines_6 :: "(string \<times> int) list" where
  "dlt_defines_6 = [
    (''DLT_IEEE802_15_4_NONASK_PHY'', DLT_IEEE802_15_4_NONASK_PHY),
    (''DLT_LINUX_EVDEV'', DLT_LINUX_EVDEV), (''DLT_GSMTAP_UM'', DLT_GSMTAP_UM),
    (''DLT_GSMTAP_ABIS'', DLT_GSMTAP_ABIS), (''DLT_MPLS'', DLT_MPLS),
    (''DLT_USB_LINUX_MMAPPED'', DLT_USB_LINUX_MMAPPED), (''DLT_DECT'', DLT_DECT),
    (''DLT_AOS'', DLT_AOS), (''DLT_WIHART'', DLT_WIHART), (''DLT_FC_2'', DLT_FC_2),
    (''DLT_FC_2_WITH_FRAME_DELIMS'', DLT_FC_2_WITH_FRAME_DELIMS), (''DLT_IPNET'', DLT_IPNET),
    (''DLT_CAN_SOCKETCAN'', DLT_CAN_SOCKETCAN), (''DLT_IPV4'', DLT_IPV4), (''DLT_IPV6'', DLT_IPV6),
    (''DLT_IEEE802_15_4_NOFCS'', DLT_IEEE802_15_4_NOFCS)]"

abbreviation (input) DLT_DBUS :: int where "DLT_DBUS \<equiv> 231"
abbreviation (input) DLT_JUNIPER_VS :: int where "DLT_JUNIPER_VS \<equiv> 232"
abbreviation (input) DLT_JUNIPER_SRX_E2E :: int where "DLT_JUNIPER_SRX_E2E \<equiv> 233"
abbreviation (input) DLT_JUNIPER_FIBRECHANNEL :: int where "DLT_JUNIPER_FIBRECHANNEL \<equiv> 234"
abbreviation (input) DLT_DVB_CI :: int where "DLT_DVB_CI \<equiv> 235"
abbreviation (input) DLT_MUX27010 :: int where "DLT_MUX27010 \<equiv> 236"
abbreviation (input) DLT_STANAG_5066_D_PDU :: int where "DLT_STANAG_5066_D_PDU \<equiv> 237"
abbreviation (input) DLT_JUNIPER_ATM_CEMIC :: int where "DLT_JUNIPER_ATM_CEMIC \<equiv> 238"
abbreviation (input) DLT_NFLOG :: int where "DLT_NFLOG \<equiv> 239"
abbreviation (input) DLT_NETANALYZER :: int where "DLT_NETANALYZER \<equiv> 240"
abbreviation (input) DLT_NETANALYZER_TRANSPARENT :: int where "DLT_NETANALYZER_TRANSPARENT \<equiv> 241"
abbreviation (input) DLT_IPOIB :: int where "DLT_IPOIB \<equiv> 242"
abbreviation (input) DLT_MPEG_2_TS :: int where "DLT_MPEG_2_TS \<equiv> 243"
abbreviation (input) DLT_NG40 :: int where "DLT_NG40 \<equiv> 244"
abbreviation (input) DLT_NFC_LLCP :: int where "DLT_NFC_LLCP \<equiv> 245"
abbreviation (input) DLT_PFSYNC :: int where "DLT_PFSYNC \<equiv> 246"
abbreviation (input) DLT_INFINIBAND :: int where "DLT_INFINIBAND \<equiv> 247"
abbreviation (input) DLT_SCTP :: int where "DLT_SCTP \<equiv> 248"
abbreviation (input) DLT_USBPCAP :: int where "DLT_USBPCAP \<equiv> 249"
abbreviation (input) DLT_RTAC_SERIAL :: int where "DLT_RTAC_SERIAL \<equiv> 250"
abbreviation (input) DLT_BLUETOOTH_LE_LL :: int where "DLT_BLUETOOTH_LE_LL \<equiv> 251"

definition dlt_defines_7 :: "(string \<times> int) list" where
  "dlt_defines_7 = [
    (''DLT_DBUS'', DLT_DBUS), (''DLT_JUNIPER_VS'', DLT_JUNIPER_VS),
    (''DLT_JUNIPER_SRX_E2E'', DLT_JUNIPER_SRX_E2E),
    (''DLT_JUNIPER_FIBRECHANNEL'', DLT_JUNIPER_FIBRECHANNEL), (''DLT_DVB_CI'', DLT_DVB_CI),
    (''DLT_MUX27010'', DLT_MUX27010), (''DLT_STANAG_5066_D_PDU'', DLT_STANAG_5066_D_PDU),
    (''DLT_JUNIPER_ATM_CEMIC'', DLT_JUNIPER_ATM_CEMIC), (''DLT_NFLOG'', DLT_NFLOG),
    (''DLT_NETANALYZER'', DLT_NETANALYZER),
    (''DLT_NETANALYZER_TRANSPARENT'', DLT_NETANALYZER_TRANSPARENT), (''DLT_IPOIB'', DLT_IPOIB),
    (''DLT_MPEG_2_TS'', DLT_MPEG_2_TS), (''DLT_NG40'', DLT_NG40), (''DLT_NFC_LLCP'', DLT_NFC_LLCP),
    (''DLT_PFSYNC'', DLT_PFSYNC), (''DLT_INFINIBAND'', DLT_INFINIBAND), (''DLT_SCTP'', DLT_SCTP),
    (''DLT_USBPCAP'', DLT_USBPCAP), (''DLT_RTAC_SERIAL'', DLT_RTAC_SERIAL),
    (''DLT_BLUETOOTH_LE_LL'', DLT_BLUETOOTH_LE_LL)]"

abbreviation (input) DLT_WIRESHARK_UPPER_PDU :: int where "DLT_WIRESHARK_UPPER_PDU \<equiv> 252"
abbreviation (input) DLT_NETLINK :: int where "DLT_NETLINK \<equiv> 253"
abbreviation (input) DLT_BLUETOOTH_LINUX_MONITOR :: int where "DLT_BLUETOOTH_LINUX_MONITOR \<equiv> 254"
abbreviation (input) DLT_BLUETOOTH_BREDR_BB :: int where "DLT_BLUETOOTH_BREDR_BB \<equiv> 255"
abbreviation (input) DLT_BLUETOOTH_LE_LL_WITH_PHDR :: int where "DLT_BLUETOOTH_LE_LL_WITH_PHDR \<equiv> 256"
abbreviation (input) DLT_PROFIBUS_DL :: int where "DLT_PROFIBUS_DL \<equiv> 257"
abbreviation (input) DLT_PKTAP :: int where "DLT_PKTAP \<equiv> 258"
abbreviation (input) DLT_EPON :: int where "DLT_EPON \<equiv> 259"
abbreviation (input) DLT_IPMI_HPM_2 :: int where "DLT_IPMI_HPM_2 \<equiv> 260"
abbreviation (input) DLT_ZWAVE_R1_R2 :: int where "DLT_ZWAVE_R1_R2 \<equiv> 261"
abbreviation (input) DLT_ZWAVE_R3 :: int where "DLT_ZWAVE_R3 \<equiv> 262"
abbreviation (input) DLT_WATTSTOPPER_DLM :: int where "DLT_WATTSTOPPER_DLM \<equiv> 263"
abbreviation (input) DLT_MATCHING_MAX :: int where "DLT_MATCHING_MAX \<equiv> 263"

definition dlt_defines_8 :: "(string \<times> int) list" where
  "dlt_defines_8 = [
    (''DLT_WIRESHARK_UPPER_PDU'', DLT_WIRESHARK_UPPER_PDU), (''DLT_NETLINK'', DLT_NETLINK),
    (''DLT_BLUETOOTH_LINUX_MONITOR'', DLT_BLUETOOTH_LINUX_MONITOR),
    (''DLT_BLUETOOTH_BREDR_BB'', DLT_BLUETOOTH_BREDR_BB),
    (''DLT_BLUETOOTH_LE_LL_WITH_PHDR'', DLT_BLUETOOTH_LE_LL_WITH_PHDR),
    (''DLT_PROFIBUS_DL'', DLT_PROFIBUS_DL), (''DLT_PKTAP'', DLT_PKTAP), (''DLT_EPON'', DLT_EPON),
    (''DLT_IPMI_HPM_2'', DLT_IPMI_HPM_2), (''DLT_ZWAVE_R1_R2'', DLT_ZWAVE_R1_R2),
    (''DLT_ZWAVE_R3'', DLT_ZWAVE_R3), (''DLT_WATTSTOPPER_DLM'', DLT_WATTSTOPPER_DLM),
    (''DLT_MATCHING_MAX'', DLT_MATCHING_MAX)]"

definition dlt_defines :: "(string \<times> int) list" where
  "dlt_defines = dlt_defines_1 @ dlt_defines_2 @ dlt_defines_3 @ dlt_defines_4 @ dlt_defines_5 @ dlt_defines_6 @ dlt_defines_7 @ dlt_defines_8"

abbreviation (input) LINKTYPE_NULL :: int where "LINKTYPE_NULL \<equiv> DLT_NULL"
abbreviation (input) LINKTYPE_ETHERNET :: int where "LINKTYPE_ETHERNET \<equiv> DLT_EN10MB"
abbreviation (input) LINKTYPE_EXP_ETHERNET :: int where "LINKTYPE_EXP_ETHERNET \<equiv> DLT_EN3MB"
abbreviation (input) LINKTYPE_AX25 :: int where "LINKTYPE_AX25 \<equiv> DLT_AX25"
abbreviation (input) LINKTYPE_PRONET :: int where "LINKTYPE_PRONET \<equiv> DLT_PRONET"
abbreviation (input) LINKTYPE_CHAOS :: int where "LINKTYPE_CHAOS \<equiv> DLT_CHAOS"
abbreviation (input) LINKTYPE_IEEE802_5 :: int where "LINKTYPE_IEEE802_5 \<equiv> DLT_IEEE802"
abbreviation (input) LINKTYPE_ARCNET_BSD :: int where "LINKTYPE_ARCNET_BSD \<equiv> DLT_ARCNET"
abbreviation (input) LINKTYPE_SLIP :: int where "LINKTYPE_SLIP \<equiv> DLT_SLIP"
abbreviation (input) LINKTYPE_PPP :: int where "LINKTYPE_PPP \<equiv> DLT_PPP"
abbreviation (input) LINKTYPE_FDDI :: int where "LINKTYPE_FDDI \<equiv> DLT_FDDI"
abbreviation (input) LINKTYPE_PPP_HDLC :: int where "LINKTYPE_PPP_HDLC \<equiv> 50"
abbreviation (input) LINKTYPE_PPP_ETHER :: int where "LINKTYPE_PPP_ETHER \<equiv> 51"
abbreviation (input) LINKTYPE_SYMANTEC_FIREWALL :: int where "LINKTYPE_SYMANTEC_FIREWALL \<equiv> 99"
abbreviation (input) LINKTYPE_ATM_RFC1483 :: int where "LINKTYPE_ATM_RFC1483 \<equiv> 100"
abbreviation (input) LINKTYPE_RAW :: int where "LINKTYPE_RAW \<equiv> 101"
abbreviation (input) LINKTYPE_SLIP_BSDOS :: int where "LINKTYPE_SLIP_BSDOS \<equiv> 102"
abbreviation (input) LINKTYPE_PPP_BSDOS :: int where "LINKTYPE_PPP_BSDOS \<equiv> 103"
abbreviation (input) LINKTYPE_MATCHING_MIN :: int where "LINKTYPE_MATCHING_MIN \<equiv> 104"
abbreviation (input) LINKTYPE_C_HDLC :: int where "LINKTYPE_C_HDLC \<equiv> 104"
abbreviation (input) LINKTYPE_IEEE802_11 :: int where "LINKTYPE_IEEE802_11 \<equiv> 105"
abbreviation (input) LINKTYPE_ATM_CLIP :: int where "LINKTYPE_ATM_CLIP \<equiv> 106"
abbreviation (input) LINKTYPE_FRELAY :: int where "LINKTYPE_FRELAY \<equiv> 107"
abbreviation (input) LINKTYPE_LOOP :: int where "LINKTYPE_LOOP \<equiv> 108"
abbreviation (input) LINKTYPE_ENC :: int where "LINKTYPE_ENC \<equiv> 109"
abbreviation (input) LINKTYPE_LANE8023 :: int where "LINKTYPE_LANE8023 \<equiv> 110"
abbreviation (input) LINKTYPE_HIPPI :: int where "LINKTYPE_HIPPI \<equiv> 111"
abbreviation (input) LINKTYPE_HDLC :: int where "LINKTYPE_HDLC \<equiv> 112"
abbreviation (input) LINKTYPE_LINUX_SLL :: int where "LINKTYPE_LINUX_SLL \<equiv> 113"
abbreviation (input) LINKTYPE_LTALK :: int where "LINKTYPE_LTALK \<equiv> 114"
abbreviation (input) LINKTYPE_ECONET :: int where "LINKTYPE_ECONET \<equiv> 115"
abbreviation (input) LINKTYPE_IPFILTER :: int where "LINKTYPE_IPFILTER \<equiv> 116"
abbreviation (input) LINKTYPE_PFLOG :: int where "LINKTYPE_PFLOG \<equiv> 117"
abbreviation (input) LINKTYPE_CISCO_IOS :: int where "LINKTYPE_CISCO_IOS \<equiv> 118"
abbreviation (input) LINKTYPE_IEEE802_11_PRISM :: int where "LINKTYPE_IEEE802_11_PRISM \<equiv> 119"
abbreviation (input) LINKTYPE_IEEE802_11_AIRONET :: int where "LINKTYPE_IEEE802_11_AIRONET \<equiv> 120"
abbreviation (input) LINKTYPE_HHDLC :: int where "LINKTYPE_HHDLC \<equiv> 121"
abbreviation (input) LINKTYPE_IP_OVER_FC :: int where "LINKTYPE_IP_OVER_FC \<equiv> 122"
abbreviation (input) LINKTYPE_SUNATM :: int where "LINKTYPE_SUNATM \<equiv> 123"
abbreviation (input) LINKTYPE_RIO :: int where "LINKTYPE_RIO \<equiv> 124"
abbreviation (input) LINKTYPE_PCI_EXP :: int where "LINKTYPE_PCI_EXP \<equiv> 125"
abbreviation (input) LINKTYPE_AURORA :: int where "LINKTYPE_AURORA \<equiv> 126"
abbreviation (input) LINKTYPE_IEEE802_11_RADIOTAP :: int where "LINKTYPE_IEEE802_11_RADIOTAP \<equiv> 127"
abbreviation (input) LINKTYPE_TZSP :: int where "LINKTYPE_TZSP \<equiv> 128"
abbreviation (input) LINKTYPE_ARCNET_LINUX :: int where "LINKTYPE_ARCNET_LINUX \<equiv> 129"
abbreviation (input) LINKTYPE_JUNIPER_MLPPP :: int where "LINKTYPE_JUNIPER_MLPPP \<equiv> 130"
abbreviation (input) LINKTYPE_JUNIPER_MLFR :: int where "LINKTYPE_JUNIPER_MLFR \<equiv> 131"
abbreviation (input) LINKTYPE_JUNIPER_ES :: int where "LINKTYPE_JUNIPER_ES \<equiv> 132"
abbreviation (input) LINKTYPE_JUNIPER_GGSN :: int where "LINKTYPE_JUNIPER_GGSN \<equiv> 133"
abbreviation (input) LINKTYPE_JUNIPER_MFR :: int where "LINKTYPE_JUNIPER_MFR \<equiv> 134"
abbreviation (input) LINKTYPE_JUNIPER_ATM2 :: int where "LINKTYPE_JUNIPER_ATM2 \<equiv> 135"
abbreviation (input) LINKTYPE_JUNIPER_SERVICES :: int where "LINKTYPE_JUNIPER_SERVICES \<equiv> 136"
abbreviation (input) LINKTYPE_JUNIPER_ATM1 :: int where "LINKTYPE_JUNIPER_ATM1 \<equiv> 137"
abbreviation (input) LINKTYPE_APPLE_IP_OVER_IEEE1394 :: int where "LINKTYPE_APPLE_IP_OVER_IEEE1394 \<equiv> 138"
abbreviation (input) LINKTYPE_MTP2_WITH_PHDR :: int where "LINKTYPE_MTP2_WITH_PHDR \<equiv> 139"
abbreviation (input) LINKTYPE_MTP2 :: int where "LINKTYPE_MTP2 \<equiv> 140"
abbreviation (input) LINKTYPE_MTP3 :: int where "LINKTYPE_MTP3 \<equiv> 141"
abbreviation (input) LINKTYPE_SCCP :: int where "LINKTYPE_SCCP \<equiv> 142"
abbreviation (input) LINKTYPE_DOCSIS :: int where "LINKTYPE_DOCSIS \<equiv> 143"
abbreviation (input) LINKTYPE_LINUX_IRDA :: int where "LINKTYPE_LINUX_IRDA \<equiv> 144"
abbreviation (input) LINKTYPE_IBM_SP :: int where "LINKTYPE_IBM_SP \<equiv> 145"
abbreviation (input) LINKTYPE_IBM_SN :: int where "LINKTYPE_IBM_SN \<equiv> 146"

definition linktype_defines_1 :: "(string \<times> int) list" where
  "linktype_defines_1 = [
    (''LINKTYPE_NULL'', LINKTYPE_NULL), (''LINKTYPE_ETHERNET'', LINKTYPE_ETHERNET),
    (''LINKTYPE_EXP_ETHERNET'', LINKTYPE_EXP_ETHERNET), (''LINKTYPE_AX25'', LINKTYPE_AX25),
    (''LINKTYPE_PRONET'', LINKTYPE_PRONET), (''LINKTYPE_CHAOS'', LINKTYPE_CHAOS),
    (''LINKTYPE_IEEE802_5'', LINKTYPE_IEEE802_5), (''LINKTYPE_ARCNET_BSD'', LINKTYPE_ARCNET_BSD),
    (''LINKTYPE_SLIP'', LINKTYPE_SLIP), (''LINKTYPE_PPP'', LINKTYPE_PPP),
    (''LINKTYPE_FDDI'', LINKTYPE_FDDI), (''LINKTYPE_PPP_HDLC'', LINKTYPE_PPP_HDLC),
    (''LINKTYPE_PPP_ETHER'', LINKTYPE_PPP_ETHER),
    (''LINKTYPE_SYMANTEC_FIREWALL'', LINKTYPE_SYMANTEC_FIREWALL),
    (''LINKTYPE_ATM_RFC1483'', LINKTYPE_ATM_RFC1483), (''LINKTYPE_RAW'', LINKTYPE_RAW),
    (''LINKTYPE_SLIP_BSDOS'', LINKTYPE_SLIP_BSDOS), (''LINKTYPE_PPP_BSDOS'', LINKTYPE_PPP_BSDOS),
    (''LINKTYPE_MATCHING_MIN'', LINKTYPE_MATCHING_MIN), (''LINKTYPE_C_HDLC'', LINKTYPE_C_HDLC),
    (''LINKTYPE_IEEE802_11'', LINKTYPE_IEEE802_11), (''LINKTYPE_ATM_CLIP'', LINKTYPE_ATM_CLIP),
    (''LINKTYPE_FRELAY'', LINKTYPE_FRELAY), (''LINKTYPE_LOOP'', LINKTYPE_LOOP),
    (''LINKTYPE_ENC'', LINKTYPE_ENC), (''LINKTYPE_LANE8023'', LINKTYPE_LANE8023),
    (''LINKTYPE_HIPPI'', LINKTYPE_HIPPI), (''LINKTYPE_HDLC'', LINKTYPE_HDLC),
    (''LINKTYPE_LINUX_SLL'', LINKTYPE_LINUX_SLL), (''LINKTYPE_LTALK'', LINKTYPE_LTALK),
    (''LINKTYPE_ECONET'', LINKTYPE_ECONET), (''LINKTYPE_IPFILTER'', LINKTYPE_IPFILTER),
    (''LINKTYPE_PFLOG'', LINKTYPE_PFLOG), (''LINKTYPE_CISCO_IOS'', LINKTYPE_CISCO_IOS),
    (''LINKTYPE_IEEE802_11_PRISM'', LINKTYPE_IEEE802_11_PRISM),
    (''LINKTYPE_IEEE802_11_AIRONET'', LINKTYPE_IEEE802_11_AIRONET),
    (''LINKTYPE_HHDLC'', LINKTYPE_HHDLC), (''LINKTYPE_IP_OVER_FC'', LINKTYPE_IP_OVER_FC),
    (''LINKTYPE_SUNATM'', LINKTYPE_SUNATM), (''LINKTYPE_RIO'', LINKTYPE_RIO),
    (''LINKTYPE_PCI_EXP'', LINKTYPE_PCI_EXP), (''LINKTYPE_AURORA'', LINKTYPE_AURORA),
    (''LINKTYPE_IEEE802_11_RADIOTAP'', LINKTYPE_IEEE802_11_RADIOTAP),
    (''LINKTYPE_TZSP'', LINKTYPE_TZSP), (''LINKTYPE_ARCNET_LINUX'', LINKTYPE_ARCNET_LINUX),
    (''LINKTYPE_JUNIPER_MLPPP'', LINKTYPE_JUNIPER_MLPPP),
    (''LINKTYPE_JUNIPER_MLFR'', LINKTYPE_JUNIPER_MLFR),
    (''LINKTYPE_JUNIPER_ES'', LINKTYPE_JUNIPER_ES),
    (''LINKTYPE_JUNIPER_GGSN'', LINKTYPE_JUNIPER_GGSN),
    (''LINKTYPE_JUNIPER_MFR'', LINKTYPE_JUNIPER_MFR),
    (''LINKTYPE_JUNIPER_ATM2'', LINKTYPE_JUNIPER_ATM2),
    (''LINKTYPE_JUNIPER_SERVICES'', LINKTYPE_JUNIPER_SERVICES),
    (''LINKTYPE_JUNIPER_ATM1'', LINKTYPE_JUNIPER_ATM1),
    (''LINKTYPE_APPLE_IP_OVER_IEEE1394'', LINKTYPE_APPLE_IP_OVER_IEEE1394),
    (''LINKTYPE_MTP2_WITH_PHDR'', LINKTYPE_MTP2_WITH_PHDR), (''LINKTYPE_MTP2'', LINKTYPE_MTP2),
    (''LINKTYPE_MTP3'', LINKTYPE_MTP3), (''LINKTYPE_SCCP'', LINKTYPE_SCCP),
    (''LINKTYPE_DOCSIS'', LINKTYPE_DOCSIS), (''LINKTYPE_LINUX_IRDA'', LINKTYPE_LINUX_IRDA),
    (''LINKTYPE_IBM_SP'', LINKTYPE_IBM_SP), (''LINKTYPE_IBM_SN'', LINKTYPE_IBM_SN)]"

abbreviation (input) LINKTYPE_USER0 :: int where "LINKTYPE_USER0 \<equiv> 147"
abbreviation (input) LINKTYPE_USER1 :: int where "LINKTYPE_USER1 \<equiv> 148"
abbreviation (input) LINKTYPE_USER2 :: int where "LINKTYPE_USER2 \<equiv> 149"
abbreviation (input) LINKTYPE_USER3 :: int where "LINKTYPE_USER3 \<equiv> 150"
abbreviation (input) LINKTYPE_USER4 :: int where "LINKTYPE_USER4 \<equiv> 151"
abbreviation (input) LINKTYPE_USER5 :: int where "LINKTYPE_USER5 \<equiv> 152"
abbreviation (input) LINKTYPE_USER6 :: int where "LINKTYPE_USER6 \<equiv> 153"
abbreviation (input) LINKTYPE_USER7 :: int where "LINKTYPE_USER7 \<equiv> 154"
abbreviation (input) LINKTYPE_USER8 :: int where "LINKTYPE_USER8 \<equiv> 155"
abbreviation (input) LINKTYPE_USER9 :: int where "LINKTYPE_USER9 \<equiv> 156"
abbreviation (input) LINKTYPE_USER10 :: int where "LINKTYPE_USER10 \<equiv> 157"
abbreviation (input) LINKTYPE_USER11 :: int where "LINKTYPE_USER11 \<equiv> 158"
abbreviation (input) LINKTYPE_USER12 :: int where "LINKTYPE_USER12 \<equiv> 159"
abbreviation (input) LINKTYPE_USER13 :: int where "LINKTYPE_USER13 \<equiv> 160"
abbreviation (input) LINKTYPE_USER14 :: int where "LINKTYPE_USER14 \<equiv> 161"
abbreviation (input) LINKTYPE_USER15 :: int where "LINKTYPE_USER15 \<equiv> 162"
abbreviation (input) LINKTYPE_IEEE802_11_AVS :: int where "LINKTYPE_IEEE802_11_AVS \<equiv> 163"
abbreviation (input) LINKTYPE_JUNIPER_MONITOR :: int where "LINKTYPE_JUNIPER_MONITOR \<equiv> 164"
abbreviation (input) LINKTYPE_BACNET_MS_TP :: int where "LINKTYPE_BACNET_MS_TP \<equiv> 165"
abbreviation (input) LINKTYPE_PPP_PPPD :: int where "LINKTYPE_PPP_PPPD \<equiv> 166"
abbreviation (input) LINKTYPE_JUNIPER_PPPOE :: int where "LINKTYPE_JUNIPER_PPPOE \<equiv> 167"
abbreviation (input) LINKTYPE_JUNIPER_PPPOE_ATM :: int where "LINKTYPE_JUNIPER_PPPOE_ATM \<equiv> 168"
abbreviation (input) LINKTYPE_GPRS_LLC :: int where "LINKTYPE_GPRS_LLC \<equiv> 169"
abbreviation (input) LINKTYPE_GPF_T :: int where "LINKTYPE_GPF_T \<equiv> 170"
abbreviation (input) LINKTYPE_GPF_F :: int where "LINKTYPE_GPF_F \<equiv> 171"
abbreviation (input) LINKTYPE_GCOM_T1E1 :: int where "LINKTYPE_GCOM_T1E1 \<equiv> 172"
abbreviation (input) LINKTYPE_GCOM_SERIAL :: int where "LINKTYPE_GCOM_SERIAL \<equiv> 173"
abbreviation (input) LINKTYPE_JUNIPER_PIC_PEER :: int where "LINKTYPE_JUNIPER_PIC_PEER \<equiv> 174"
abbreviation (input) LINKTYPE_ERF_ETH :: int where "LINKTYPE_ERF_ETH \<equiv> 175"
abbreviation (input) LINKTYPE_ERF_POS :: int where "LINKTYPE_ERF_POS \<equiv> 176"
abbreviation (input) LINKTYPE_LINUX_LAPD :: int where "LINKTYPE_LINUX_LAPD \<equiv> 177"
abbreviation (input) LINKTYPE_JUNIPER_ETHER :: int where "LINKTYPE_JUNIPER_ETHER \<equiv> 178"
abbreviation (input) LINKTYPE_JUNIPER_PPP :: int where "LINKTYPE_JUNIPER_PPP \<equiv> 179"
abbreviation (input) LINKTYPE_JUNIPER_FRELAY :: int where "LINKTYPE_JUNIPER_FRELAY \<equiv> 180"
abbreviation (input) LINKTYPE_JUNIPER_CHDLC :: int where "LINKTYPE_JUNIPER_CHDLC \<equiv> 181"
abbreviation (input) LINKTYPE_MFR :: int where "LINKTYPE_MFR \<equiv> 182"
abbreviation (input) LINKTYPE_JUNIPER_VP :: int where "LINKTYPE_JUNIPER_VP \<equiv> 183"
abbreviation (input) LINKTYPE_A429 :: int where "LINKTYPE_A429 \<equiv> 184"
abbreviation (input) LINKTYPE_A653_ICM :: int where "LINKTYPE_A653_ICM \<equiv> 185"
abbreviation (input) LINKTYPE_USB :: int where "LINKTYPE_USB \<equiv> 186"

definition linktype_defines_2 :: "(string \<times> int) list" where
  "linktype_defines_2 = [
    (''LINKTYPE_USER0'', LINKTYPE_USER0), (''LINKTYPE_USER1'', LINKTYPE_USER1),
    (''LINKTYPE_USER2'', LINKTYPE_USER2), (''LINKTYPE_USER3'', LINKTYPE_USER3),
    (''LINKTYPE_USER4'', LINKTYPE_USER4), (''LINKTYPE_USER5'', LINKTYPE_USER5),
    (''LINKTYPE_USER6'', LINKTYPE_USER6), (''LINKTYPE_USER7'', LINKTYPE_USER7),
    (''LINKTYPE_USER8'', LINKTYPE_USER8), (''LINKTYPE_USER9'', LINKTYPE_USER9),
    (''LINKTYPE_USER10'', LINKTYPE_USER10), (''LINKTYPE_USER11'', LINKTYPE_USER11),
    (''LINKTYPE_USER12'', LINKTYPE_USER12), (''LINKTYPE_USER13'', LINKTYPE_USER13),
    (''LINKTYPE_USER14'', LINKTYPE_USER14), (''LINKTYPE_USER15'', LINKTYPE_USER15),
    (''LINKTYPE_IEEE802_11_AVS'', LINKTYPE_IEEE802_11_AVS),
    (''LINKTYPE_JUNIPER_MONITOR'', LINKTYPE_JUNIPER_MONITOR),
    (''LINKTYPE_BACNET_MS_TP'', LINKTYPE_BACNET_MS_TP), (''LINKTYPE_PPP_PPPD'', LINKTYPE_PPP_PPPD),
    (''LINKTYPE_JUNIPER_PPPOE'', LINKTYPE_JUNIPER_PPPOE),
    (''LINKTYPE_JUNIPER_PPPOE_ATM'', LINKTYPE_JUNIPER_PPPOE_ATM),
    (''LINKTYPE_GPRS_LLC'', LINKTYPE_GPRS_LLC), (''LINKTYPE_GPF_T'', LINKTYPE_GPF_T),
    (''LINKTYPE_GPF_F'', LINKTYPE_GPF_F), (''LINKTYPE_GCOM_T1E1'', LINKTYPE_GCOM_T1E1),
    (''LINKTYPE_GCOM_SERIAL'', LINKTYPE_GCOM_SERIAL),
    (''LINKTYPE_JUNIPER_PIC_PEER'', LINKTYPE_JUNIPER_PIC_PEER),
    (''LINKTYPE_ERF_ETH'', LINKTYPE_ERF_ETH), (''LINKTYPE_ERF_POS'', LINKTYPE_ERF_POS),
    (''LINKTYPE_LINUX_LAPD'', LINKTYPE_LINUX_LAPD),
    (''LINKTYPE_JUNIPER_ETHER'', LINKTYPE_JUNIPER_ETHER),
    (''LINKTYPE_JUNIPER_PPP'', LINKTYPE_JUNIPER_PPP),
    (''LINKTYPE_JUNIPER_FRELAY'', LINKTYPE_JUNIPER_FRELAY),
    (''LINKTYPE_JUNIPER_CHDLC'', LINKTYPE_JUNIPER_CHDLC), (''LINKTYPE_MFR'', LINKTYPE_MFR),
    (''LINKTYPE_JUNIPER_VP'', LINKTYPE_JUNIPER_VP), (''LINKTYPE_A429'', LINKTYPE_A429),
    (''LINKTYPE_A653_ICM'', LINKTYPE_A653_ICM), (''LINKTYPE_USB'', LINKTYPE_USB)]"

abbreviation (input) LINKTYPE_BLUETOOTH_HCI_H4 :: int where "LINKTYPE_BLUETOOTH_HCI_H4 \<equiv> 187"
abbreviation (input) LINKTYPE_IEEE802_16_MAC_CPS :: int where "LINKTYPE_IEEE802_16_MAC_CPS \<equiv> 188"
abbreviation (input) LINKTYPE_USB_LINUX :: int where "LINKTYPE_USB_LINUX \<equiv> 189"
abbreviation (input) LINKTYPE_CAN20B :: int where "LINKTYPE_CAN20B \<equiv> 190"
abbreviation (input) LINKTYPE_IEEE802_15_4_LINUX :: int where "LINKTYPE_IEEE802_15_4_LINUX \<equiv> 191"
abbreviation (input) LINKTYPE_PPI :: int where "LINKTYPE_PPI \<equiv> 192"
abbreviation (input) LINKTYPE_IEEE802_16_MAC_CPS_RADIO :: int where "LINKTYPE_IEEE802_16_MAC_CPS_RADIO \<equiv> 193"
abbreviation (input) LINKTYPE_JUNIPER_ISM :: int where "LINKTYPE_JUNIPER_ISM \<equiv> 194"
abbreviation (input) LINKTYPE_IEEE802_15_4 :: int where "LINKTYPE_IEEE802_15_4 \<equiv> 195"
abbreviation (input) LINKTYPE_SITA :: int where "LINKTYPE_SITA \<equiv> 196"
abbreviation (input) LINKTYPE_ERF :: int where "LINKTYPE_ERF \<equiv> 197"
abbreviation (input) LINKTYPE_RAIF1 :: int where "LINKTYPE_RAIF1 \<equiv> 198"
abbreviation (input) LINKTYPE_IPMB :: int where "LINKTYPE_IPMB \<equiv> 199"
abbreviation (input) LINKTYPE_JUNIPER_ST :: int where "LINKTYPE_JUNIPER_ST \<equiv> 200"
abbreviation (input) LINKTYPE_BLUETOOTH_HCI_H4_WITH_PHDR :: int where "LINKTYPE_BLUETOOTH_HCI_H4_WITH_PHDR \<equiv> 201"
abbreviation (input) LINKTYPE_AX25_KISS :: int where "LINKTYPE_AX25_KISS \<equiv> 202"
abbreviation (input) LINKTYPE_LAPD :: int where "LINKTYPE_LAPD \<equiv> 203"
abbreviation (input) LINKTYPE_PPP_WITH_DIR :: int where "LINKTYPE_PPP_WITH_DIR \<equiv> 204"
abbreviation (input) LINKTYPE_C_HDLC_WITH_DIR :: int where "LINKTYPE_C_HDLC_WITH_DIR \<equiv> 205"
abbreviation (input) LINKTYPE_FRELAY_WITH_DIR :: int where "LINKTYPE_FRELAY_WITH_DIR \<equiv> 206"
abbreviation (input) LINKTYPE_LAPB_WITH_DIR :: int where "LINKTYPE_LAPB_WITH_DIR \<equiv> 207"
abbreviation (input) LINKTYPE_IPMB_LINUX :: int where "LINKTYPE_IPMB_LINUX \<equiv> 209"
abbreviation (input) LINKTYPE_FLEXRAY :: int where "LINKTYPE_FLEXRAY \<equiv> 210"
abbreviation (input) LINKTYPE_MOST :: int where "LINKTYPE_MOST \<equiv> 211"

definition linktype_defines_3 :: "(string \<times> int) list" where
  "linktype_defines_3 = [
    (''LINKTYPE_BLUETOOTH_HCI_H4'', LINKTYPE_BLUETOOTH_HCI_H4),
    (''LINKTYPE_IEEE802_16_MAC_CPS'', LINKTYPE_IEEE802_16_MAC_CPS),
    (''LINKTYPE_USB_LINUX'', LINKTYPE_USB_LINUX), (''LINKTYPE_CAN20B'', LINKTYPE_CAN20B),
    (''LINKTYPE_IEEE802_15_4_LINUX'', LINKTYPE_IEEE802_15_4_LINUX),
    (''LINKTYPE_PPI'', LINKTYPE_PPI),
    (''LINKTYPE_IEEE802_16_MAC_CPS_RADIO'', LINKTYPE_IEEE802_16_MAC_CPS_RADIO),
    (''LINKTYPE_JUNIPER_ISM'', LINKTYPE_JUNIPER_ISM),
    (''LINKTYPE_IEEE802_15_4'', LINKTYPE_IEEE802_15_4), (''LINKTYPE_SITA'', LINKTYPE_SITA),
    (''LINKTYPE_ERF'', LINKTYPE_ERF), (''LINKTYPE_RAIF1'', LINKTYPE_RAIF1),
    (''LINKTYPE_IPMB'', LINKTYPE_IPMB), (''LINKTYPE_JUNIPER_ST'', LINKTYPE_JUNIPER_ST),
    (''LINKTYPE_BLUETOOTH_HCI_H4_WITH_PHDR'', LINKTYPE_BLUETOOTH_HCI_H4_WITH_PHDR),
    (''LINKTYPE_AX25_KISS'', LINKTYPE_AX25_KISS), (''LINKTYPE_LAPD'', LINKTYPE_LAPD),
    (''LINKTYPE_PPP_WITH_DIR'', LINKTYPE_PPP_WITH_DIR),
    (''LINKTYPE_C_HDLC_WITH_DIR'', LINKTYPE_C_HDLC_WITH_DIR),
    (''LINKTYPE_FRELAY_WITH_DIR'', LINKTYPE_FRELAY_WITH_DIR),
    (''LINKTYPE_LAPB_WITH_DIR'', LINKTYPE_LAPB_WITH_DIR),
    (''LINKTYPE_IPMB_LINUX'', LINKTYPE_IPMB_LINUX), (''LINKTYPE_FLEXRAY'', LINKTYPE_FLEXRAY),
    (''LINKTYPE_MOST'', LINKTYPE_MOST)]"

abbreviation (input) LINKTYPE_LIN :: int where "LINKTYPE_LIN \<equiv> 212"
abbreviation (input) LINKTYPE_X2E_SERIAL :: int where "LINKTYPE_X2E_SERIAL \<equiv> 213"
abbreviation (input) LINKTYPE_X2E_XORAYA :: int where "LINKTYPE_X2E_XORAYA \<equiv> 214"
abbreviation (input) LINKTYPE_IEEE802_15_4_NONASK_PHY :: int where "LINKTYPE_IEEE802_15_4_NONASK_PHY \<equiv> 215"
abbreviation (input) LINKTYPE_LINUX_EVDEV :: int where "LINKTYPE_LINUX_EVDEV \<equiv> 216"
abbreviation (input) LINKTYPE_GSMTAP_UM :: int where "LINKTYPE_GSMTAP_UM \<equiv> 217"
abbreviation (input) LINKTYPE_GSMTAP_ABIS :: int where "LINKTYPE_GSMTAP_ABIS \<equiv> 218"
abbreviation (input) LINKTYPE_MPLS :: int where "LINKTYPE_MPLS \<equiv> 219"
abbreviation (input) LINKTYPE_USB_LINUX_MMAPPED :: int where "LINKTYPE_USB_LINUX_MMAPPED \<equiv> 220"
abbreviation (input) LINKTYPE_DECT :: int where "LINKTYPE_DECT \<equiv> 221"
abbreviation (input) LINKTYPE_AOS :: int where "LINKTYPE_AOS \<equiv> 222"
abbreviation (input) LINKTYPE_WIHART :: int where "LINKTYPE_WIHART \<equiv> 223"
abbreviation (input) LINKTYPE_FC_2 :: int where "LINKTYPE_FC_2 \<equiv> 224"
abbreviation (input) LINKTYPE_FC_2_WITH_FRAME_DELIMS :: int where "LINKTYPE_FC_2_WITH_FRAME_DELIMS \<equiv> 225"
abbreviation (input) LINKTYPE_IPNET :: int where "LINKTYPE_IPNET \<equiv> 226"

definition linktype_defines_4 :: "(string \<times> int) list" where
  "linktype_defines_4 = [
    (''LINKTYPE_LIN'', LINKTYPE_LIN), (''LINKTYPE_X2E_SERIAL'', LINKTYPE_X2E_SERIAL),
    (''LINKTYPE_X2E_XORAYA'', LINKTYPE_X2E_XORAYA),
    (''LINKTYPE_IEEE802_15_4_NONASK_PHY'', LINKTYPE_IEEE802_15_4_NONASK_PHY),
    (''LINKTYPE_LINUX_EVDEV'', LINKTYPE_LINUX_EVDEV), (''LINKTYPE_GSMTAP_UM'', LINKTYPE_GSMTAP_UM),
    (''LINKTYPE_GSMTAP_ABIS'', LINKTYPE_GSMTAP_ABIS), (''LINKTYPE_MPLS'', LINKTYPE_MPLS),
    (''LINKTYPE_USB_LINUX_MMAPPED'', LINKTYPE_USB_LINUX_MMAPPED),
    (''LINKTYPE_DECT'', LINKTYPE_DECT), (''LINKTYPE_AOS'', LINKTYPE_AOS),
    (''LINKTYPE_WIHART'', LINKTYPE_WIHART), (''LINKTYPE_FC_2'', LINKTYPE_FC_2),
    (''LINKTYPE_FC_2_WITH_FRAME_DELIMS'', LINKTYPE_FC_2_WITH_FRAME_DELIMS),
    (''LINKTYPE_IPNET'', LINKTYPE_IPNET)]"

abbreviation (input) LINKTYPE_CAN_SOCKETCAN :: int where "LINKTYPE_CAN_SOCKETCAN \<equiv> 227"
abbreviation (input) LINKTYPE_IPV4 :: int where "LINKTYPE_IPV4 \<equiv> 228"
abbreviation (input) LINKTYPE_IPV6 :: int where "LINKTYPE_IPV6 \<equiv> 229"
abbreviation (input) LINKTYPE_IEEE802_15_4_NOFCS :: int where "LINKTYPE_IEEE802_15_4_NOFCS \<equiv> 230"
abbreviation (input) LINKTYPE_DBUS :: int where "LINKTYPE_DBUS \<equiv> 231"
abbreviation (input) LINKTYPE_JUNIPER_VS :: int where "LINKTYPE_JUNIPER_VS \<equiv> 232"
abbreviation (input) LINKTYPE_JUNIPER_SRX_E2E :: int where "LINKTYPE_JUNIPER_SRX_E2E \<equiv> 233"
abbreviation (input) LINKTYPE_JUNIPER_FIBRECHANNEL :: int where "LINKTYPE_JUNIPER_FIBRECHANNEL \<equiv> 234"
abbreviation (input) LINKTYPE_DVB_CI :: int where "LINKTYPE_DVB_CI \<equiv> 235"
abbreviation (input) LINKTYPE_MUX27010 :: int where "LINKTYPE_MUX27010 \<equiv> 236"
abbreviation (input) LINKTYPE_STANAG_5066_D_PDU :: int where "LINKTYPE_STANAG_5066_D_PDU \<equiv> 237"
abbreviation (input) LINKTYPE_JUNIPER_ATM_CEMIC :: int where "LINKTYPE_JUNIPER_ATM_CEMIC \<equiv> 238"
abbreviation (input) LINKTYPE_NFLOG :: int where "LINKTYPE_NFLOG \<equiv> 239"
abbreviation (input) LINKTYPE_NETANALYZER :: int where "LINKTYPE_NETANALYZER \<equiv> 240"
abbreviation (input) LINKTYPE_NETANALYZER_TRANSPARENT :: int where "LINKTYPE_NETANALYZER_TRANSPARENT \<equiv> 241"
abbreviation (input) LINKTYPE_IPOIB :: int where "LINKTYPE_IPOIB \<equiv> 242"
abbreviation (input) LINKTYPE_MPEG_2_TS :: int where "LINKTYPE_MPEG_2_TS \<equiv> 243"
abbreviation (input) LINKTYPE_NG40 :: int where "LINKTYPE_NG40 \<equiv> 244"
abbreviation (input) LINKTYPE_NFC_LLCP :: int where "LINKTYPE_NFC_LLCP \<equiv> 245"
abbreviation (input) LINKTYPE_PFSYNC :: int where "LINKTYPE_PFSYNC \<equiv> 246"
abbreviation (input) LINKTYPE_INFINIBAND :: int where "LINKTYPE_INFINIBAND \<equiv> 247"

definition linktype_defines_5 :: "(string \<times> int) list" where
  "linktype_defines_5 = [
    (''LINKTYPE_CAN_SOCKETCAN'', LINKTYPE_CAN_SOCKETCAN), (''LINKTYPE_IPV4'', LINKTYPE_IPV4),
    (''LINKTYPE_IPV6'', LINKTYPE_IPV6),
    (''LINKTYPE_IEEE802_15_4_NOFCS'', LINKTYPE_IEEE802_15_4_NOFCS),
    (''LINKTYPE_DBUS'', LINKTYPE_DBUS), (''LINKTYPE_JUNIPER_VS'', LINKTYPE_JUNIPER_VS),
    (''LINKTYPE_JUNIPER_SRX_E2E'', LINKTYPE_JUNIPER_SRX_E2E),
    (''LINKTYPE_JUNIPER_FIBRECHANNEL'', LINKTYPE_JUNIPER_FIBRECHANNEL),
    (''LINKTYPE_DVB_CI'', LINKTYPE_DVB_CI), (''LINKTYPE_MUX27010'', LINKTYPE_MUX27010),
    (''LINKTYPE_STANAG_5066_D_PDU'', LINKTYPE_STANAG_5066_D_PDU),
    (''LINKTYPE_JUNIPER_ATM_CEMIC'', LINKTYPE_JUNIPER_ATM_CEMIC),
    (''LINKTYPE_NFLOG'', LINKTYPE_NFLOG), (''LINKTYPE_NETANALYZER'', LINKTYPE_NETANALYZER),
    (''LINKTYPE_NETANALYZER_TRANSPARENT'', LINKTYPE_NETANALYZER_TRANSPARENT),
    (''LINKTYPE_IPOIB'', LINKTYPE_IPOIB), (''LINKTYPE_MPEG_2_TS'', LINKTYPE_MPEG_2_TS),
    (''LINKTYPE_NG40'', LINKTYPE_NG40), (''LINKTYPE_NFC_LLCP'', LINKTYPE_NFC_LLCP),
    (''LINKTYPE_PFSYNC'', LINKTYPE_PFSYNC), (''LINKTYPE_INFINIBAND'', LINKTYPE_INFINIBAND)]"

abbreviation (input) LINKTYPE_SCTP :: int where "LINKTYPE_SCTP \<equiv> 248"
abbreviation (input) LINKTYPE_USBPCAP :: int where "LINKTYPE_USBPCAP \<equiv> 249"
abbreviation (input) LINKTYPE_BLUETOOTH_LE_LL :: int where "LINKTYPE_BLUETOOTH_LE_LL \<equiv> 251"
abbreviation (input) LINKTYPE_WIRESHARK_UPPER_PDU :: int where "LINKTYPE_WIRESHARK_UPPER_PDU \<equiv> 252"
abbreviation (input) LINKTYPE_NETLINK :: int where "LINKTYPE_NETLINK \<equiv> 253"
abbreviation (input) LINKTYPE_BLUETOOTH_LINUX_MONITOR :: int where "LINKTYPE_BLUETOOTH_LINUX_MONITOR \<equiv> 254"
abbreviation (input) LINKTYPE_BLUETOOTH_BREDR_BB :: int where "LINKTYPE_BLUETOOTH_BREDR_BB \<equiv> 255"
abbreviation (input) LINKTYPE_BLUETOOTH_LE_LL_WITH_PHDR :: int where "LINKTYPE_BLUETOOTH_LE_LL_WITH_PHDR \<equiv> 256"
abbreviation (input) LINKTYPE_PROFIBUS_DL :: int where "LINKTYPE_PROFIBUS_DL \<equiv> 257"
abbreviation (input) LINKTYPE_PKTAP :: int where "LINKTYPE_PKTAP \<equiv> 258"
abbreviation (input) LINKTYPE_EPON :: int where "LINKTYPE_EPON \<equiv> 259"
abbreviation (input) LINKTYPE_IPMI_HPM_2 :: int where "LINKTYPE_IPMI_HPM_2 \<equiv> 260"
abbreviation (input) LINKTYPE_ZWAVE_R1_R2 :: int where "LINKTYPE_ZWAVE_R1_R2 \<equiv> 261"
abbreviation (input) LINKTYPE_ZWAVE_R3 :: int where "LINKTYPE_ZWAVE_R3 \<equiv> 262"
abbreviation (input) LINKTYPE_MATCHING_MAX :: int where "LINKTYPE_MATCHING_MAX \<equiv> 262"

definition linktype_defines_6 :: "(string \<times> int) list" where
  "linktype_defines_6 = [
    (''LINKTYPE_SCTP'', LINKTYPE_SCTP), (''LINKTYPE_USBPCAP'', LINKTYPE_USBPCAP),
    (''LINKTYPE_BLUETOOTH_LE_LL'', LINKTYPE_BLUETOOTH_LE_LL),
    (''LINKTYPE_WIRESHARK_UPPER_PDU'', LINKTYPE_WIRESHARK_UPPER_PDU),
    (''LINKTYPE_NETLINK'', LINKTYPE_NETLINK),
    (''LINKTYPE_BLUETOOTH_LINUX_MONITOR'', LINKTYPE_BLUETOOTH_LINUX_MONITOR),
    (''LINKTYPE_BLUETOOTH_BREDR_BB'', LINKTYPE_BLUETOOTH_BREDR_BB),
    (''LINKTYPE_BLUETOOTH_LE_LL_WITH_PHDR'', LINKTYPE_BLUETOOTH_LE_LL_WITH_PHDR),
    (''LINKTYPE_PROFIBUS_DL'', LINKTYPE_PROFIBUS_DL), (''LINKTYPE_PKTAP'', LINKTYPE_PKTAP),
    (''LINKTYPE_EPON'', LINKTYPE_EPON), (''LINKTYPE_IPMI_HPM_2'', LINKTYPE_IPMI_HPM_2),
    (''LINKTYPE_ZWAVE_R1_R2'', LINKTYPE_ZWAVE_R1_R2), (''LINKTYPE_ZWAVE_R3'', LINKTYPE_ZWAVE_R3),
    (''LINKTYPE_MATCHING_MAX'', LINKTYPE_MATCHING_MAX)]"

definition linktype_defines :: "(string \<times> int) list" where
  "linktype_defines = linktype_defines_1 @ linktype_defines_2 @ linktype_defines_3 @ linktype_defines_4 @ linktype_defines_5 @ linktype_defines_6"

subsection \<open>Translation\<close>

definition linktype_map :: "(int \<times> int) list" where
  "linktype_map = [
    (DLT_NULL, LINKTYPE_NULL),
    (DLT_EN10MB, LINKTYPE_ETHERNET),
    (DLT_EN3MB, LINKTYPE_EXP_ETHERNET),
    (DLT_AX25, LINKTYPE_AX25),
    (DLT_PRONET, LINKTYPE_PRONET),
    (DLT_CHAOS, LINKTYPE_CHAOS),
    (DLT_IEEE802, LINKTYPE_IEEE802_5),
    (DLT_ARCNET, LINKTYPE_ARCNET_BSD),
    (DLT_SLIP, LINKTYPE_SLIP),
    (DLT_PPP, LINKTYPE_PPP),
    (DLT_FDDI, LINKTYPE_FDDI),
    (DLT_SYMANTEC_FIREWALL, LINKTYPE_SYMANTEC_FIREWALL),
    (DLT_ATM_RFC1483, LINKTYPE_ATM_RFC1483),
    (DLT_RAW, LINKTYPE_RAW),
    (DLT_SLIP_BSDOS, LINKTYPE_SLIP_BSDOS),
    (DLT_PPP_BSDOS, LINKTYPE_PPP_BSDOS),
    (DLT_C_HDLC, LINKTYPE_C_HDLC),
    (DLT_ATM_CLIP, LINKTYPE_ATM_CLIP),
    (DLT_PPP_SERIAL, LINKTYPE_PPP_HDLC),
    (DLT_PPP_ETHER, LINKTYPE_PPP_ETHER),
    (-1, -1)]"

text \<open>The loops over the table, up to its sentinel.\<close>

fun map_dlt :: "(int \<times> int) list \<Rightarrow> int \<Rightarrow> int option" where
  "map_dlt [] d = None"
| "map_dlt ((d1, l1) # m) d = (if d1 = -1 then None else if d1 = d then Some l1 else map_dlt m d)"

fun map_linktype :: "(int \<times> int) list \<Rightarrow> int \<Rightarrow> int option" where
  "map_linktype [] l = None"
| "map_linktype ((d1, l1) # m) l = (if l1 = -1 then None else if l1 = l then Some d1 else map_linktype m l)"

definition dlt_to_linktype :: "int \<Rightarrow> int" where
  "dlt_to_linktype d =
     (if d = DLT_PFSYNC then LINKTYPE_PFSYNC
      else if d = DLT_PKTAP then LINKTYPE_PKTAP
      else if DLT_MATCHING_MIN \<le> d \<and> d \<le> DLT_MATCHING_MAX then d
      else (case map_dlt linktype_map d of Some l \<Rightarrow> l | None \<Rightarrow> -1))"

definition linktype_to_dlt :: "int \<Rightarrow> int" where
  "linktype_to_dlt l =
     (if l = LINKTYPE_PFSYNC then DLT_PFSYNC
      else if l = LINKTYPE_PKTAP then DLT_PKTAP
      else if LINKTYPE_MATCHING_MIN \<le> l \<and> l \<le> LINKTYPE_MATCHING_MAX then l
      else (case map_linktype linktype_map l of Some d \<Rightarrow> d | None \<Rightarrow> l))"

subsection \<open>Saving and loading a link-layer type\<close>

lemma map_dlt_inverse:
  "map_dlt linktype_map d = Some l \<Longrightarrow> d \<noteq> DLT_ATM_CLIP \<Longrightarrow> linktype_to_dlt l = d"
  unfolding linktype_map_def
  by (simp add: linktype_to_dlt_def linktype_map_def split: if_splits)

lemma map_dlt_not_minus1: "map_dlt linktype_map d = Some l \<Longrightarrow> l \<noteq> -1"
  unfolding linktype_map_def by (simp split: if_splits)

lemma linktype_to_dlt_to_linktype:
  assumes "dlt_to_linktype d \<noteq> -1" "d \<noteq> DLT_ATM_CLIP"
  shows "linktype_to_dlt (dlt_to_linktype d) = d"
proof (cases "DLT_MATCHING_MIN \<le> d \<and> d \<le> DLT_MATCHING_MAX")
  case True
  then have "dlt_to_linktype d = d" by (simp add: dlt_to_linktype_def)
  moreover have "d = 263 \<or> d \<le> 262" using True by arith
  then have "linktype_to_dlt d = d"
    using True by (auto simp: linktype_to_dlt_def linktype_map_def)
  ultimately show ?thesis by simp
next
  case False
  then obtain l where "map_dlt linktype_map d = Some l" "dlt_to_linktype d = l"
    using assms(1) by (auto simp: dlt_to_linktype_def split: option.splits if_splits)
  with assms(2) show ?thesis by (simp add: map_dlt_inverse)
qed

interpretation savefile_type:
  codec dlt_to_linktype "\<lambda>l. Some (linktype_to_dlt l)" "\<lambda>d. dlt_to_linktype d \<noteq> -1 \<and> d \<noteq> DLT_ATM_CLIP"
  by unfold_locales (simp add: linktype_to_dlt_to_linktype)

lemma defined_dlts_saved:
  "list_all (\<lambda>(n, d). d = DLT_REDBACK_SMARTEDGE \<or> dlt_to_linktype d \<noteq> -1) dlt_defines"
  by code_simp

lemma linktypes_loaded:
  "list_all (\<lambda>(n, l). dlt_to_linktype (linktype_to_dlt l) = l) linktype_defines"
  by code_simp

text \<open>
  C32: A capture that is saved and read again keeps its link-layer type, for every type that can be
  saved but Linux Classical IP over ATM; two such types are never saved alike; and every
  \<^verbatim>\<open>LINKTYPE_*\<close> constant read from a file is written back unchanged.
\<close>

theorem linktype_roundtrip:
  "(dlt_to_linktype d \<noteq> -1 \<and> d \<noteq> DLT_ATM_CLIP \<longrightarrow> linktype_to_dlt (dlt_to_linktype d) = d \<and>
     (dlt_to_linktype d' = dlt_to_linktype d \<and> d' \<noteq> DLT_ATM_CLIP \<longrightarrow> d' = d)) \<and>
   list_all (\<lambda>(n, l). dlt_to_linktype (linktype_to_dlt l) = l) linktype_defines"
  using linktype_to_dlt_to_linktype savefile_type.enc_inj linktypes_loaded by metis

theorem linktype_roundtrip_witness:
  "linktype_to_dlt (dlt_to_linktype DLT_RAW) = DLT_RAW \<and> dlt_to_linktype DLT_RAW = LINKTYPE_RAW"
proof -
  have r: "dlt_to_linktype DLT_RAW = LINKTYPE_RAW" by code_simp
  then have "dlt_to_linktype DLT_RAW \<noteq> -1 \<and> DLT_RAW \<noteq> DLT_ATM_CLIP" by simp
  with linktype_roundtrip [of DLT_RAW] r show ?thesis by blast
qed

text \<open>
  Linux Classical IP over ATM does not survive: its link type lies in the range of link types
  that are taken for the equal \<^verbatim>\<open>DLT_*\<close> value, before the table is consulted, so a capture of that type
  comes back with an undefined type.
\<close>

lemma linktype_atm_clip_lost:
  "dlt_to_linktype DLT_ATM_CLIP = LINKTYPE_ATM_CLIP \<and> linktype_to_dlt LINKTYPE_ATM_CLIP \<noteq> DLT_ATM_CLIP \<and>
   map_linktype linktype_map LINKTYPE_ATM_CLIP = Some DLT_ATM_CLIP \<and>
   list_all (\<lambda>(n, d). d \<noteq> linktype_to_dlt LINKTYPE_ATM_CLIP) dlt_defines"
  by code_simp

end
