(* ===== verification/Pcap_Dltname.thy ===== *)
theory Pcap_Dltname
  imports Pcap_Linktype
begin

text \<open>
  The names and descriptions of link-layer types in libpcap's \<^verbatim>\<open>pcap.c\<close>, and their look-up without
  regard to case through a table of folded characters.
\<close>

subsection \<open>The tables\<close>

definition charmap :: "byte list" where
  "charmap = [
    0x00, 0x01, 0x02, 0x03, 0x04, 0x05, 0x06, 0x07, 0x08, 0x09, 0x0A, 0x0B, 0x0C, 0x0D, 0x0E, 0x0F,
    0x10, 0x11, 0x12, 0x13, 0x14, 0x15, 0x16, 0x17, 0x18, 0x19, 0x1A, 0x1B, 0x1C, 0x1D, 0x1E, 0x1F,
    0x20, 0x21, 0x22, 0x23, 0x24, 0x25, 0x26, 0x27, 0x28, 0x29, 0x2A, 0x2B, 0x2C, 0x2D, 0x2E, 0x2F,
    0x30, 0x31, 0x32, 0x33, 0x34, 0x35, 0x36, 0x37, 0x38, 0x39, 0x3A, 0x3B, 0x3C, 0x3D, 0x3E, 0x3F,
    0x40, 0x61, 0x62, 0x63, 0x64, 0x65, 0x66, 0x67, 0x68, 0x69, 0x6A, 0x6B, 0x6C, 0x6D, 0x6E, 0x6F,
    0x70, 0x71, 0x72, 0x73, 0x74, 0x75, 0x76, 0x77, 0x78, 0x79, 0x7A, 0x5B, 0x5C, 0x5D, 0x5E, 0x5F,
    0x60, 0x61, 0x62, 0x63, 0x64, 0x65, 0x66, 0x67, 0x68, 0x69, 0x6A, 0x6B, 0x6C, 0x6D, 0x6E, 0x6F,
    0x70, 0x71, 0x72, 0x73, 0x74, 0x75, 0x76, 0x77, 0x78, 0x79, 0x7A, 0x7B, 0x7C, 0x7D, 0x7E, 0x7F,
    0x80, 0x81, 0x82, 0x83, 0x84, 0x85, 0x86, 0x87, 0x88, 0x89, 0x8A, 0x8B, 0x8C, 0x8D, 0x8E, 0x8F,
    0x90, 0x91, 0x92, 0x93, 0x94, 0x95, 0x96, 0x97, 0x98, 0x99, 0x9A, 0x9B, 0x9C, 0x9D, 0x9E, 0x9F,
    0xA0, 0xA1, 0xA2, 0xA3, 0xA4, 0xA5, 0xA6, 0xA7, 0xA8, 0xA9, 0xAA, 0xAB, 0xAC, 0xAD, 0xAE, 0xAF,
    0xB0, 0xB1, 0xB2, 0xB3, 0xB4, 0xB5, 0xB6, 0xB7, 0xB8, 0xB9, 0xBA, 0xBB, 0xBC, 0xBD, 0xBE, 0xBF,
    0xC0, 0xE1, 0xE2, 0xE3, 0xE4, 0xE5, 0xE6, 0xE7, 0xE8, 0xE9, 0xEA, 0xEB, 0xEC, 0xED, 0xEE, 0xEF,
    0xF0, 0xF1, 0xF2, 0xF3, 0xF4, 0xF5, 0xF6, 0xF7, 0xF8, 0xF9, 0xFA, 0xDB, 0xDC, 0xDD, 0xDE, 0xDF,
    0xE0, 0xE1, 0xE2, 0xE3, 0xE4, 0xE5, 0xE6, 0xE7, 0xE8, 0xE9, 0xEA, 0xEB, 0xEC, 0xED, 0xEE, 0xEF,
    0xF0, 0xF1, 0xF2, 0xF3, 0xF4, 0xF5, 0xF6, 0xF7, 0xF8, 0xF9, 0xFA, 0xFB, 0xFC, 0xFD, 0xFE, 0xFF]"

text \<open>
  Comparison of two C strings, given with their terminating NUL; \<open>None\<close> is a read behind the end.
\<close>

fun pcap_strcasecmp :: "byte list \<Rightarrow> byte list \<Rightarrow> int option" where
  "pcap_strcasecmp (a # s1) (b # s2) =
     (if charmap ! unat a = charmap ! unat b then (if a = 0 then Some 0 else pcap_strcasecmp s1 s2)
      else Some (uint (charmap ! unat a) - uint (charmap ! unat b)))"
| "pcap_strcasecmp s1 s2 = None"

text \<open>The macro \<^verbatim>\<open>DLT_CHOICE\<close>, with the macro's argument as a string and as a value.\<close>

definition DLT_CHOICE :: "string \<Rightarrow> int \<Rightarrow> string \<Rightarrow> string \<times> string \<times> int" where
  "DLT_CHOICE code v descr = (code, descr, v)"

definition dlt_choices :: "(string \<times> string \<times> int) list" where
  "dlt_choices = [
    DLT_CHOICE ''DLT_NULL'' DLT_NULL ''BSD loopback'',
    DLT_CHOICE ''DLT_EN10MB'' DLT_EN10MB ''Ethernet'',
    DLT_CHOICE ''DLT_IEEE802'' DLT_IEEE802 ''Token ring'',
    DLT_CHOICE ''DLT_ARCNET'' DLT_ARCNET ''BSD ARCNET'',
    DLT_CHOICE ''DLT_SLIP'' DLT_SLIP ''SLIP'',
    DLT_CHOICE ''DLT_PPP'' DLT_PPP ''PPP'',
    DLT_CHOICE ''DLT_FDDI'' DLT_FDDI ''FDDI'',
    DLT_CHOICE ''DLT_ATM_RFC1483'' DLT_ATM_RFC1483 ''RFC 1483 LLC-encapsulated ATM'',
    DLT_CHOICE ''DLT_RAW'' DLT_RAW ''Raw IP'',
    DLT_CHOICE ''DLT_SLIP_BSDOS'' DLT_SLIP_BSDOS ''BSD/OS SLIP'',
    DLT_CHOICE ''DLT_PPP_BSDOS'' DLT_PPP_BSDOS ''BSD/OS PPP'',
    DLT_CHOICE ''DLT_ATM_CLIP'' DLT_ATM_CLIP ''Linux Classical IP-over-ATM'',
    DLT_CHOICE ''DLT_PPP_SERIAL'' DLT_PPP_SERIAL ''PPP over serial'',
    DLT_CHOICE ''DLT_PPP_ETHER'' DLT_PPP_ETHER ''PPPoE'',
    DLT_CHOICE ''DLT_SYMANTEC_FIREWALL'' DLT_SYMANTEC_FIREWALL ''Symantec Firewall'',
    DLT_CHOICE ''DLT_C_HDLC'' DLT_C_HDLC ''Cisco HDLC'',
    DLT_CHOICE ''DLT_IEEE802_11'' DLT_IEEE802_11 ''802.11'',
    DLT_CHOICE ''DLT_FRELAY'' DLT_FRELAY ''Frame Relay'',
    DLT_CHOICE ''DLT_LOOP'' DLT_LOOP ''OpenBSD loopback'',
    DLT_CHOICE ''DLT_ENC'' DLT_ENC ''OpenBSD encapsulated IP'',
    DLT_CHOICE ''DLT_LINUX_SLL'' DLT_LINUX_SLL ''Linux cooked'',
    DLT_CHOICE ''DLT_LTALK'' DLT_LTALK ''Localtalk'',
    DLT_CHOICE ''DLT_PFLOG'' DLT_PFLOG ''OpenBSD pflog file'',
    DLT_CHOICE ''DLT_PFSYNC'' DLT_PFSYNC ''Packet filter state syncing'',
    DLT_CHOICE ''DLT_PRISM_HEADER'' DLT_PRISM_HEADER ''802.11 plus Prism header'',
    DLT_CHOICE ''DLT_IP_OVER_FC'' DLT_IP_OVER_FC ''RFC 2625 IP-over-Fibre Channel'',
    DLT_CHOICE ''DLT_SUNATM'' DLT_SUNATM ''Sun raw ATM'',
    DLT_CHOICE ''DLT_IEEE802_11_RADIO'' DLT_IEEE802_11_RADIO ''802.11 plus radiotap header'',
    DLT_CHOICE ''DLT_ARCNET_LINUX'' DLT_ARCNET_LINUX ''Linux ARCNET'',
    DLT_CHOICE ''DLT_JUNIPER_MLPPP'' DLT_JUNIPER_MLPPP ''Juniper Multi-Link PPP'',
    DLT_CHOICE ''DLT_JUNIPER_MLFR'' DLT_JUNIPER_MLFR ''Juniper Multi-Link Frame Relay'',
    DLT_CHOICE ''DLT_JUNIPER_ES'' DLT_JUNIPER_ES ''Juniper Encryption Services PIC'',
    DLT_CHOICE ''DLT_JUNIPER_GGSN'' DLT_JUNIPER_GGSN ''Juniper GGSN PIC'',
    DLT_CHOICE ''DLT_JUNIPER_MFR'' DLT_JUNIPER_MFR ''Juniper FRF.16 Frame Relay'',
    DLT_CHOICE ''DLT_JUNIPER_ATM2'' DLT_JUNIPER_ATM2 ''Juniper ATM2 PIC'',
    DLT_CHOICE ''DLT_JUNIPER_SERVICES'' DLT_JUNIPER_SERVICES ''Juniper Advanced Services PIC'',
    DLT_CHOICE ''DLT_JUNIPER_ATM1'' DLT_JUNIPER_ATM1 ''Juniper ATM1 PIC'',
    DLT_CHOICE ''DLT_APPLE_IP_OVER_IEEE1394'' DLT_APPLE_IP_OVER_IEEE1394 ''Apple IP-over-IEEE 1394'',
    DLT_CHOICE ''DLT_MTP2_WITH_PHDR'' DLT_MTP2_WITH_PHDR ''SS7 MTP2 with Pseudo-header'',
    DLT_CHOICE ''DLT_MTP2'' DLT_MTP2 ''SS7 MTP2'',
    DLT_CHOICE ''DLT_MTP3'' DLT_MTP3 ''SS7 MTP3'',
    DLT_CHOICE ''DLT_SCCP'' DLT_SCCP ''SS7 SCCP'',
    DLT_CHOICE ''DLT_DOCSIS'' DLT_DOCSIS ''DOCSIS'',
    DLT_CHOICE ''DLT_LINUX_IRDA'' DLT_LINUX_IRDA ''Linux IrDA'',
    DLT_CHOICE ''DLT_IEEE802_11_RADIO_AVS'' DLT_IEEE802_11_RADIO_AVS ''802.11 plus AVS radio information header'',
    DLT_CHOICE ''DLT_JUNIPER_MONITOR'' DLT_JUNIPER_MONITOR ''Juniper Passive Monitor PIC'',
    DLT_CHOICE ''DLT_BACNET_MS_TP'' DLT_BACNET_MS_TP ''BACnet MS/TP'',
    DLT_CHOICE ''DLT_PPP_PPPD'' DLT_PPP_PPPD ''PPP for pppd, with direction flag'',
    DLT_CHOICE ''DLT_JUNIPER_PPPOE'' DLT_JUNIPER_PPPOE ''Juniper PPPoE'',
    DLT_CHOICE ''DLT_JUNIPER_PPPOE_ATM'' DLT_JUNIPER_PPPOE_ATM ''Juniper PPPoE/ATM'',
    DLT_CHOICE ''DLT_GPRS_LLC'' DLT_GPRS_LLC ''GPRS LLC'',
    DLT_CHOICE ''DLT_GPF_T'' DLT_GPF_T ''GPF-T'',
    DLT_CHOICE ''DLT_GPF_F'' DLT_GPF_F ''GPF-F'',
    DLT_CHOICE ''DLT_JUNIPER_PIC_PEER'' DLT_JUNIPER_PIC_PEER ''Juniper PIC Peer'',
    DLT_CHOICE ''DLT_ERF_ETH'' DLT_ERF_ETH ''Ethernet with Endace ERF header'',
    DLT_CHOICE ''DLT_ERF_POS'' DLT_ERF_POS ''Packet-over-SONET with Endace ERF header'',
    DLT_CHOICE ''DLT_LINUX_LAPD'' DLT_LINUX_LAPD ''Linux vISDN LAPD'',
    DLT_CHOICE ''DLT_JUNIPER_ETHER'' DLT_JUNIPER_ETHER ''Juniper Ethernet'',
    DLT_CHOICE ''DLT_JUNIPER_PPP'' DLT_JUNIPER_PPP ''Juniper PPP'',
    DLT_CHOICE ''DLT_JUNIPER_FRELAY'' DLT_JUNIPER_FRELAY ''Juniper Frame Relay'',
    DLT_CHOICE ''DLT_JUNIPER_CHDLC'' DLT_JUNIPER_CHDLC ''Juniper C-HDLC'',
    DLT_CHOICE ''DLT_MFR'' DLT_MFR ''FRF.16 Frame Relay'',
    DLT_CHOICE ''DLT_JUNIPER_VP'' DLT_JUNIPER_VP ''Juniper Voice PIC'',
    DLT_CHOICE ''DLT_A429'' DLT_A429 ''Arinc 429'',
    DLT_CHOICE ''DLT_A653_ICM'' DLT_A653_ICM ''Arinc 653 Interpartition Communication'',
    DLT_CHOICE ''DLT_USB'' DLT_USB ''USB'',
    DLT_CHOICE ''DLT_BLUETOOTH_HCI_H4'' DLT_BLUETOOTH_HCI_H4 ''Bluetooth HCI UART transport layer'',
    DLT_CHOICE ''DLT_IEEE802_16_MAC_CPS'' DLT_IEEE802_16_MAC_CPS ''IEEE 802.16 MAC Common Part Sublayer'',
    DLT_CHOICE ''DLT_USB_LINUX'' DLT_USB_LINUX ''USB with Linux header'',
    DLT_CHOICE ''DLT_CAN20B'' DLT_CAN20B ''Controller Area Network (CAN) v. 2.0B'',
    DLT_CHOICE ''DLT_IEEE802_15_4_LINUX'' DLT_IEEE802_15_4_LINUX ''IEEE 802.15.4 with Linux padding'',
    DLT_CHOICE ''DLT_PPI'' DLT_PPI ''Per-Packet Information'',
    DLT_CHOICE ''DLT_IEEE802_16_MAC_CPS_RADIO'' DLT_IEEE802_16_MAC_CPS_RADIO ''IEEE 802.16 MAC Common Part Sublayer plus radiotap header'',
    DLT_CHOICE ''DLT_JUNIPER_ISM'' DLT_JUNIPER_ISM ''Juniper Integrated Service Module'',
    DLT_CHOICE ''DLT_IEEE802_15_4'' DLT_IEEE802_15_4 ''IEEE 802.15.4 with FCS'',
    DLT_CHOICE ''DLT_SITA'' DLT_SITA ''SITA pseudo-header'',
    DLT_CHOICE ''DLT_ERF'' DLT_ERF ''Endace ERF header'',
    DLT_CHOICE ''DLT_RAIF1'' DLT_RAIF1 ''Ethernet with u10 Networks pseudo-header'',
    DLT_CHOICE ''DLT_IPMB'' DLT_IPMB ''IPMB'',
    DLT_CHOICE ''DLT_JUNIPER_ST'' DLT_JUNIPER_ST ''Juniper Secure Tunnel'',
    DLT_CHOICE ''DLT_BLUETOOTH_HCI_H4_WITH_PHDR'' DLT_BLUETOOTH_HCI_H4_WITH_PHDR ''Bluetooth HCI UART transport layer plus pseudo-header'',
    DLT_CHOICE ''DLT_AX25_KISS'' DLT_AX25_KISS ''AX.25 with KISS header'',
    DLT_CHOICE ''DLT_IEEE802_15_4_NONASK_PHY'' DLT_IEEE802_15_4_NONASK_PHY ''IEEE 802.15.4 with non-ASK PHY data'',
    DLT_CHOICE ''DLT_MPLS'' DLT_MPLS ''MPLS with label as link-layer header'',
    DLT_CHOICE ''DLT_LINUX_EVDEV'' DLT_LINUX_EVDEV ''Linux evdev events'',
    DLT_CHOICE ''DLT_USB_LINUX_MMAPPED'' DLT_USB_LINUX_MMAPPED ''USB with padded Linux header'',
    DLT_CHOICE ''DLT_DECT'' DLT_DECT ''DECT'',
    DLT_CHOICE ''DLT_AOS'' DLT_AOS ''AOS Space Data Link protocol'',
    DLT_CHOICE ''DLT_WIHART'' DLT_WIHART ''Wireless HART'',
    DLT_CHOICE ''DLT_FC_2'' DLT_FC_2 ''Fibre Channel FC-2'',
    DLT_CHOICE ''DLT_FC_2_WITH_FRAME_DELIMS'' DLT_FC_2_WITH_FRAME_DELIMS ''Fibre Channel FC-2 with frame delimiters'',
    DLT_CHOICE ''DLT_IPNET'' DLT_IPNET ''Solaris ipnet'',
    DLT_CHOICE ''DLT_CAN_SOCKETCAN'' DLT_CAN_SOCKETCAN ''CAN-bus with SocketCAN headers'',
    DLT_CHOICE ''DLT_IPV4'' DLT_IPV4 ''Raw IPv4'',
    DLT_CHOICE ''DLT_IPV6'' DLT_IPV6 ''Raw IPv6'',
    DLT_CHOICE ''DLT_IEEE802_15_4_NOFCS'' DLT_IEEE802_15_4_NOFCS ''IEEE 802.15.4 without FCS'',
    DLT_CHOICE ''DLT_DBUS'' DLT_DBUS ''D-Bus'',
    DLT_CHOICE ''DLT_JUNIPER_VS'' DLT_JUNIPER_VS ''Juniper Virtual Server'',
    DLT_CHOICE ''DLT_JUNIPER_SRX_E2E'' DLT_JUNIPER_SRX_E2E ''Juniper SRX E2E'',
    DLT_CHOICE ''DLT_JUNIPER_FIBRECHANNEL'' DLT_JUNIPER_FIBRECHANNEL ''Juniper Fibre Channel'',
    DLT_CHOICE ''DLT_DVB_CI'' DLT_DVB_CI ''DVB-CI'',
    DLT_CHOICE ''DLT_MUX27010'' DLT_MUX27010 ''MUX27010'',
    DLT_CHOICE ''DLT_STANAG_5066_D_PDU'' DLT_STANAG_5066_D_PDU ''STANAG 5066 D_PDUs'',
    DLT_CHOICE ''DLT_JUNIPER_ATM_CEMIC'' DLT_JUNIPER_ATM_CEMIC ''Juniper ATM CEMIC'',
    DLT_CHOICE ''DLT_NFLOG'' DLT_NFLOG ''Linux netfilter log messages'',
    DLT_CHOICE ''DLT_NETANALYZER'' DLT_NETANALYZER ''Ethernet with Hilscher netANALYZER pseudo-header'',
    DLT_CHOICE ''DLT_NETANALYZER_TRANSPARENT'' DLT_NETANALYZER_TRANSPARENT ''Ethernet with Hilscher netANALYZER pseudo-header and with preamble and SFD'',
    DLT_CHOICE ''DLT_IPOIB'' DLT_IPOIB ''RFC 4391 IP-over-Infiniband'',
    DLT_CHOICE ''DLT_MPEG_2_TS'' DLT_MPEG_2_TS ''MPEG-2 transport stream'',
    DLT_CHOICE ''DLT_NG40'' DLT_NG40 ''ng40 protocol tester Iub/Iur'',
    DLT_CHOICE ''DLT_NFC_LLCP'' DLT_NFC_LLCP ''NFC LLCP PDUs with pseudo-header'',
    DLT_CHOICE ''DLT_INFINIBAND'' DLT_INFINIBAND ''InfiniBand'',
    DLT_CHOICE ''DLT_SCTP'' DLT_SCTP ''SCTP'',
    DLT_CHOICE ''DLT_USBPCAP'' DLT_USBPCAP ''USB with USBPcap header'',
    DLT_CHOICE ''DLT_RTAC_SERIAL'' DLT_RTAC_SERIAL ''Schweitzer Engineering Laboratories RTAC packets'',
    DLT_CHOICE ''DLT_BLUETOOTH_LE_LL'' DLT_BLUETOOTH_LE_LL ''Bluetooth Low Energy air interface'',
    DLT_CHOICE ''DLT_NETLINK'' DLT_NETLINK ''Linux netlink'',
    DLT_CHOICE ''DLT_BLUETOOTH_LINUX_MONITOR'' DLT_BLUETOOTH_LINUX_MONITOR ''Bluetooth Linux Monitor'',
    DLT_CHOICE ''DLT_BLUETOOTH_BREDR_BB'' DLT_BLUETOOTH_BREDR_BB ''Bluetooth Basic Rate/Enhanced Data Rate baseband packets'',
    DLT_CHOICE ''DLT_BLUETOOTH_LE_LL_WITH_PHDR'' DLT_BLUETOOTH_LE_LL_WITH_PHDR ''Bluetooth Low Energy air interface with pseudo-header'',
    DLT_CHOICE ''DLT_PROFIBUS_DL'' DLT_PROFIBUS_DL ''PROFIBUS data link layer'',
    DLT_CHOICE ''DLT_PKTAP'' DLT_PKTAP ''Apple DLT_PKTAP'',
    DLT_CHOICE ''DLT_EPON'' DLT_EPON ''Ethernet with 802.3 Clause 65 EPON preamble'']"

definition c_str :: "byte list \<Rightarrow> byte list" where
  "c_str s = s @ [0]"

fun name_to_val :: "(string \<times> string \<times> int) list \<Rightarrow> byte list \<Rightarrow> int option" where
  "name_to_val [] name = Some (-1)"
| "name_to_val ((n, _, d) # cs) name =
     (case pcap_strcasecmp (c_str (cstr (drop 4 n))) name of None \<Rightarrow> None
      | Some r \<Rightarrow> if r = 0 then Some d else name_to_val cs name)"

definition pcap_datalink_name_to_val :: "byte list \<Rightarrow> int option" where
  "pcap_datalink_name_to_val name = name_to_val dlt_choices name"

definition pcap_datalink_val_to_name :: "int \<Rightarrow> string option" where
  "pcap_datalink_val_to_name d = map_option (\<lambda>(n, _, _). drop 4 n) (find (\<lambda>(_, _, v). v = d) dlt_choices)"

definition pcap_datalink_val_to_description :: "int \<Rightarrow> string option" where
  "pcap_datalink_val_to_description d = map_option (\<lambda>(_, t, _). t) (find (\<lambda>(_, _, v). v = d) dlt_choices)"

subsection \<open>Names of link-layer types\<close>

lemma length_charmap: "length charmap = 256"
  by (simp add: charmap_def)

definition fold_case :: "byte \<Rightarrow> byte" where
  "fold_case b = (if 0x41 \<le> b \<and> b \<le> 0x5A \<or> 0xC1 \<le> b \<and> b \<le> 0xDA then b + 0x20 else b)"

lemma charmap_table: "charmap = map (\<lambda>k. fold_case (of_nat k)) [0..<256]"
  by code_simp

lemma charmap_fold: "charmap ! unat b = fold_case b"
proof -
  have "unat b < 256" using unsigned_less [of b] by simp
  then show ?thesis unfolding charmap_table by simp
qed

lemma fold_case_0: "fold_case b = 0 \<longleftrightarrow> b = 0"
proof (rule byte_induct_nat [of _ b])
  fix k :: nat
  have "list_all (\<lambda>k. (fold_case (of_nat k) = 0) = (of_nat k = (0 :: byte))) [0..<256]" by code_simp
  then show "k < 256 \<Longrightarrow> (fold_case (of_nat k) = 0) = (of_nat k = (0 :: byte))"
    by (rule all_below)
qed

lemma pcap_strcasecmp_c_str:
  "0 \<notin> set s \<Longrightarrow> 0 \<notin> set t \<Longrightarrow>
     \<exists>r. pcap_strcasecmp (c_str s) (c_str t) = Some r \<and> (r = 0 \<longleftrightarrow> map fold_case s = map fold_case t)"
proof (induction s arbitrary: t)
  case Nil
  have z: "charmap ! 0 = 0" by (simp add: charmap_def)
  show ?case
  proof (cases t)
    case (Cons b t')
    then have "b \<noteq> 0" using Nil by auto
    then have "fold_case b \<noteq> 0" "uint (fold_case b) \<noteq> 0"
      by (simp_all add: fold_case_0 unsigned_eq_0_iff)
    with Cons show ?thesis by (auto simp: c_str_def charmap_fold z)
  qed (simp add: c_str_def)
next
  case (Cons a s)
  have a: "fold_case a \<noteq> 0" "uint (fold_case a) \<noteq> 0"
    using Cons.prems by (auto simp: fold_case_0 unsigned_eq_0_iff)
  have z: "charmap ! 0 = 0" by (simp add: charmap_def)
  show ?case
  proof (cases t)
    case Nil
    then show ?thesis using a Cons.prems by (auto simp: c_str_def charmap_fold z)
  next
    case (Cons b t')
    then have t: "0 \<notin> set s" "0 \<notin> set t'" "a \<noteq> 0" using Cons.prems by auto
    from Cons.IH [OF t(1,2)] show ?thesis
      using t(3) \<open>t = b # t'\<close> by (auto simp: c_str_def charmap_fold simp flip: word_uint_eq_iff)
  qed
qed


definition choice_name :: "string \<times> string \<times> int \<Rightarrow> byte list" where
  "choice_name ch = cstr (drop 4 (fst ch))"

text \<open>The names as numbers, so that they can be told apart by evaluation.\<close>

definition name_key :: "byte list \<Rightarrow> int" where
  "name_key s = foldl (\<lambda>k b. 256 * k + uint b) 1 s"

lemma choices_upper:
  "list_all (\<lambda>ch. list_all (\<lambda>b. b \<noteq> 0 \<and> \<not> (0x61 \<le> b \<and> b \<le> 0x7A) \<and> b < 0x80) (choice_name ch)) dlt_choices"
  by code_simp

lemma choices_keys: "distinct (map (\<lambda>ch. name_key (choice_name ch)) dlt_choices)"
  by code_simp


definition to_upper :: "byte \<Rightarrow> byte" where
  "to_upper b = (if 0x61 \<le> b \<and> b \<le> 0x7A then b - 0x20 else b)"

definition no_lower :: "byte \<Rightarrow> bool" where
  "no_lower b \<longleftrightarrow> b \<noteq> 0 \<and> \<not> (0x61 \<le> b \<and> b \<le> 0x7A) \<and> b < 0x80"

lemma to_upper_fold_case: "no_lower b \<Longrightarrow> to_upper (fold_case b) = b"
proof (rule byte_induct_nat [of _ b, THEN mp])
  fix k :: nat
  have "list_all (\<lambda>k. no_lower (of_nat k) \<longrightarrow> to_upper (fold_case (of_nat k)) = of_nat k) [0..<256]"
    by code_simp
  then show "k < 256 \<Longrightarrow> no_lower (of_nat k) \<longrightarrow> to_upper (fold_case (of_nat k)) = of_nat k"
    by (rule all_below)
qed

lemma map_to_upper: "list_all no_lower s \<Longrightarrow> map to_upper (map fold_case s) = s"
  by (induction s) (simp_all add: to_upper_fold_case)

lemma choices_no_lower: "ch \<in> set dlt_choices \<Longrightarrow> list_all no_lower (choice_name ch)"
  using choices_upper by (simp add: list_all_iff no_lower_def)

lemma choices_inj:
  assumes "a \<in> set dlt_choices" "b \<in> set dlt_choices"
    and "map fold_case (choice_name a) = map fold_case (choice_name b)"
  shows "a = b"
proof -
  have "choice_name a = choice_name b"
    using map_to_upper [OF choices_no_lower [OF assms(1)]] map_to_upper [OF choices_no_lower [OF assms(2)]]
      assms(3) by metis
  then show ?thesis using choices_keys assms(1,2) by (simp add: distinct_map inj_on_def)
qed

lemma name_to_val_find:
  assumes "0 \<notin> set m"
  shows "list_all (\<lambda>ch. list_all no_lower (choice_name ch)) cs \<Longrightarrow> name_to_val cs (c_str m) =
    Some (case find (\<lambda>ch. map fold_case (choice_name ch) = map fold_case m) cs of None \<Rightarrow> -1 | Some ch \<Rightarrow> snd (snd ch))"
proof (induction cs)
  case (Cons ch cs)
  obtain n t d where ch: "ch = (n, t, d)" by (cases ch)
  have "0 \<notin> set (choice_name ch)" using Cons.prems by (auto simp: list_all_iff no_lower_def)
  with pcap_strcasecmp_c_str [OF this assms] Cons ch show ?case
    by (auto simp: choice_name_def)
qed simp

lemma datalink_name_to_val_find:
  "0 \<notin> set m \<Longrightarrow> pcap_datalink_name_to_val (c_str m) =
    Some (case find (\<lambda>ch. map fold_case (choice_name ch) = map fold_case m) dlt_choices of
            None \<Rightarrow> -1 | Some ch \<Rightarrow> snd (snd ch))"
  unfolding pcap_datalink_name_to_val_def
  by (rule name_to_val_find) (auto simp only: list_all_iff [of _ dlt_choices] intro: choices_no_lower)

lemma find_unique:
  assumes "x \<in> set xs" "P x" "\<And>y. y \<in> set xs \<Longrightarrow> P y \<Longrightarrow> y = x"
  shows "find P xs = Some x"
proof -
  obtain y where y: "find P xs = Some y" using assms(1,2) by (metis find_None_iff not_None_eq)
  then have "P y" "y \<in> set xs" by (auto simp: find_Some_iff)
  then show ?thesis using y assms(3) by simp
qed

lemma datalink_name_val_ok:
  assumes "pcap_datalink_val_to_name d = Some n" "map fold_case m = map fold_case (cstr n)" "0 \<notin> set m"
  shows "pcap_datalink_name_to_val (c_str m) = Some d"
proof -
  obtain ch where ch: "ch \<in> set dlt_choices" "snd (snd ch) = d" "choice_name ch = cstr n"
    using assms(1) unfolding pcap_datalink_val_to_name_def
    by (fastforce simp: choice_name_def find_Some_iff in_set_conv_nth)
  have "find (\<lambda>ch. map fold_case (choice_name ch) = map fold_case m) dlt_choices = Some ch"
    using ch assms(2) by (intro find_unique) (auto intro: choices_inj)
  then show ?thesis using datalink_name_to_val_find [OF assms(3)] ch(2) by simp
qed

text \<open>
  C33: The names of link-layer types can be looked up again: the name that libpcap gives a type,
  in any mixture of upper and lower case, is the name of that type.
\<close>

theorem datalink_name_val:
  assumes "pcap_datalink_val_to_name d = Some n" "map fold_case m = map fold_case (cstr n)" "0 \<notin> set m"
  shows "pcap_datalink_name_to_val (c_str m) = Some d"
  using assms by (rule datalink_name_val_ok)

theorem datalink_name_val_witness:
  "pcap_datalink_val_to_name DLT_IEEE802_11 = Some ''IEEE802_11'' \<and>
   pcap_datalink_name_to_val (c_str (cstr ''Ieee802_11'')) = Some DLT_IEEE802_11"
proof -
  have "pcap_datalink_val_to_name DLT_IEEE802_11 = Some ''IEEE802_11''" by code_simp
  moreover have "map fold_case (cstr ''Ieee802_11'') = map fold_case (cstr ''IEEE802_11'')" by code_simp
  moreover have "0 \<notin> set (cstr ''Ieee802_11'')" by simp
  ultimately show ?thesis using datalink_name_val by blast
qed

text \<open>An unknown name is reported as such.\<close>

lemma datalink_name_unknown:
  assumes "0 \<notin> set m" "list_all (\<lambda>ch. map fold_case (choice_name ch) \<noteq> map fold_case m) dlt_choices"
  shows "pcap_datalink_name_to_val (c_str m) = Some (-1)"
proof -
  have "find (\<lambda>ch. map fold_case (choice_name ch) = map fold_case m) dlt_choices = None"
    using assms(2) by (auto simp: find_None_iff list_all_iff)
  then show ?thesis using datalink_name_to_val_find [OF assms(1)] by simp
qed

end
