(* ===== verification/Pcap_Swap.thy ===== *)
theory Pcap_Swap
  imports Byte_Order Pcap_Linktype
begin

text \<open>
  Byte-order conversion of the pseudo-headers that capture files keep in the order of the host that
  wrote them (\<^verbatim>\<open>pcap-common.c\<close>): the headers of Linux USB captures and the netfilter log's
  type-length-value list. The packet is the byte list \<open>b\<close>, the C structures are offsets in it, and
  \<open>caplen\<close> and the running \<open>offset\<close> are 32-bit words as in the code. \<open>None\<close> is an access outside of
  the packet's buffer.
\<close>

subsection \<open>Linux USB headers\<close>

text \<open>One field: give up when the captured data ends before \<open>off\<close>, swap it and go on otherwise.\<close>

definition fld :: "u32 \<Rightarrow> u32 \<Rightarrow> (byte list \<Rightarrow> byte list option) \<Rightarrow> (byte list \<Rightarrow> byte list option) \<Rightarrow> byte list \<Rightarrow> byte list option" where
  "fld caplen off sw k b = (if caplen < off then Some b else (case sw b of None \<Rightarrow> None | Some b' \<Rightarrow> k b'))"

abbreviation (input) URB_ISOCHRONOUS :: byte where "URB_ISOCHRONOUS \<equiv> 0"

text \<open>
  The isochronous descriptors from \<open>p\<close> on, which the loop counts up to \<^verbatim>\<open>ndesc\<close>; it writes behind that
  field only.
\<close>

primrec swap_isodescs :: "nat \<Rightarrow> u32 \<Rightarrow> u32 \<Rightarrow> nat \<Rightarrow> byte list \<Rightarrow> byte list option" where
  "swap_isodescs 0 caplen off p = Some"
| "swap_isodescs (Suc n) caplen off p =
     fld caplen (off + 4) (swap32_at p)
     (fld caplen (off + 4 + 4) (swap32_at (p + 4))
     (fld caplen (off + 4 + 4 + 4) (swap32_at (p + 8))
     (swap_isodescs n caplen (off + 4 + 4 + 4 + 4) (p + 16))))"

definition usb_descs :: "u32 \<Rightarrow> byte list \<Rightarrow> byte list option" where
  "usb_descs caplen b =
     (case rd b 9 of None \<Rightarrow> None | Some t \<Rightarrow>
        if t = URB_ISOCHRONOUS then
          (case ld32 b 60 of None \<Rightarrow> None | Some nd \<Rightarrow> swap_isodescs (unat nd) caplen 64 64 b)
        else Some b)"

definition usb_trailer :: "u32 \<Rightarrow> bool \<Rightarrow> byte list \<Rightarrow> byte list option" where
  "usb_trailer caplen hdr64 b =
     (if \<not> hdr64 then Some b
      else fld caplen (48 + 4) (swap32_at 48)
          (fld caplen (48 + 4 + 4) (swap32_at 52)
          (fld caplen (48 + 4 + 4 + 4) (swap32_at 56)
          (fld caplen (48 + 4 + 4 + 4 + 4) (swap32_at 60)
          (usb_descs caplen)))) b)"

definition usb_union :: "u32 \<Rightarrow> bool \<Rightarrow> byte list \<Rightarrow> byte list option" where
  "usb_union caplen hdr64 b =
     (case rd b 9 of None \<Rightarrow> None | Some t \<Rightarrow>
        if t = URB_ISOCHRONOUS then
          fld caplen (40 + 4) (swap32_at 40) (fld caplen (40 + 4 + 4) (swap32_at 44) (usb_trailer caplen hdr64)) b
        else usb_trailer caplen hdr64 b)"

definition swap_linux_usb_header :: "u32 \<Rightarrow> bool \<Rightarrow> byte list \<Rightarrow> byte list option" where
  "swap_linux_usb_header caplen hdr64 =
     fld caplen 8 (swap64_at 0)
     (fld caplen (8 + 4 + 2) (swap16_at 12)
     (fld caplen (8 + 4 + 2 + 2 + 8) (swap64_at 16)
     (fld caplen (8 + 4 + 2 + 2 + 8 + 4) (swap32_at 24)
     (fld caplen (8 + 4 + 2 + 2 + 8 + 4 + 4) (swap32_at 28)
     (fld caplen (8 + 4 + 2 + 2 + 8 + 4 + 4 + 4) (swap32_at 32)
     (fld caplen (8 + 4 + 2 + 2 + 8 + 4 + 4 + 4 + 4) (swap32_at 36)
     (usb_union caplen hdr64)))))))"

subsection \<open>Netfilter log headers\<close>

text \<open>The length of a value is a 16-bit number, which rounding up to a multiple of 4 may wrap around.\<close>

definition tlv_size :: "u16 \<Rightarrow> u16" where
  "tlv_size len = (if len mod 4 \<noteq> 0 then len + (4 - len mod 4) else len)"

lemma unat_sub_less: "\<not> sz < 4 \<Longrightarrow> \<not> caplen < sz \<Longrightarrow> unat (caplen - sz) < unat (caplen :: u32)"
  by (simp add: unat_sub word_le_nat_alt word_less_nat_alt not_less)

function swap_nflog_loop :: "u32 \<Rightarrow> u32 \<Rightarrow> nat \<Rightarrow> byte list \<Rightarrow> byte list option" where
  "swap_nflog_loop caplen len p b =
     (if caplen < 4 then Some b
      else (case swap16_at (p + 2) b of None \<Rightarrow> None
      | Some b1 \<Rightarrow> (case swap16_at p b1 of None \<Rightarrow> None
      | Some b2 \<Rightarrow> (case ld16 b2 p of None \<Rightarrow> None
      | Some l \<Rightarrow>
          let sz = (ucast (tlv_size l) :: u32) in
          if sz < 4 then Some b2
          else if caplen < sz \<or> len < sz then Some b2
          else swap_nflog_loop (caplen - sz) (len - sz) (p + unat sz) b2))))"
  by pat_completeness auto

termination by (relation "measure (\<lambda>(caplen, len, p, b). unat caplen)") (auto intro: unat_sub_less)

declare swap_nflog_loop.simps [simp del]

definition swap_nflog_header :: "u32 \<Rightarrow> u32 \<Rightarrow> byte list \<Rightarrow> byte list option" where
  "swap_nflog_header caplen len b =
     (if caplen < 4 \<or> len < 4 then Some b
      else (case rd b 1 of None \<Rightarrow> None | Some version \<Rightarrow>
        if version \<noteq> 0 then Some b
        else swap_nflog_loop (caplen - 4) (len - 4) 4 b))"

definition swap_pseudo_headers :: "int \<Rightarrow> u32 \<Rightarrow> u32 \<Rightarrow> byte list \<Rightarrow> byte list option" where
  "swap_pseudo_headers linktype caplen len data =
     (if linktype = DLT_USB_LINUX then swap_linux_usb_header caplen False data
      else if linktype = DLT_USB_LINUX_MMAPPED then swap_linux_usb_header caplen True data
      else if linktype = DLT_NFLOG then swap_nflog_header caplen len data
      else Some data)"

subsection \<open>Only captured bytes are touched\<close>

text \<open>
  An operation on buffers of \<open>n\<close> bytes is tame for \<open>c\<close> when it stays inside the buffer and leaves
  everything from \<open>c\<close> on as it was.
\<close>

definition tame :: "nat \<Rightarrow> nat \<Rightarrow> (byte list \<Rightarrow> byte list option) \<Rightarrow> bool" where
  "tame c n f \<longleftrightarrow> (\<forall>b. length b = n \<longrightarrow> (\<exists>b'. f b = Some b' \<and> length b' = n \<and> drop c b' = drop c b))"

lemma tameD: "tame c n f \<Longrightarrow> length b = n \<Longrightarrow> \<exists>b'. f b = Some b' \<and> length b' = n \<and> drop c b' = drop c b"
  by (simp add: tame_def)

lemma tame_Some [simp]: "tame c n Some"
  by (simp add: tame_def)

lemma drop_reversed: "i + w \<le> c \<Longrightarrow> c \<le> length b \<Longrightarrow>
    drop c (take i b @ rev (take w (drop i b)) @ drop (i + w) b) = drop c b"
  by simp

lemma tame_swap:
  "i + 2 \<le> c \<Longrightarrow> c \<le> n \<Longrightarrow> tame c n (swap16_at i)"
  "i + 4 \<le> c \<Longrightarrow> c \<le> n \<Longrightarrow> tame c n (swap32_at i)"
  "i + 8 \<le> c \<Longrightarrow> c \<le> n \<Longrightarrow> tame c n (swap64_at i)"
  by (auto simp: tame_def swap16_at_eq swap32_at_eq swap64_at_eq drop_reversed simp del: add_2_eq_Suc add_2_eq_Suc')

lemma tame_fld:
  assumes "unat off \<le> unat caplen \<Longrightarrow> tame (unat caplen) n sw"
    and "unat off \<le> unat caplen \<Longrightarrow> tame (unat caplen) n k"
  shows "tame (unat caplen) n (fld caplen off sw k)"
proof (cases "caplen < off")
  case False
  then have "tame (unat caplen) n sw" "tame (unat caplen) n k"
    using assms by (simp_all add: word_less_nat_alt)
  then show ?thesis using False by (fastforce simp: tame_def fld_def)
qed (simp add: tame_def fld_def)

lemma unat_add4: "unat (off :: u32) < 2 ^ 31 \<Longrightarrow> unat (off + 4) = unat off + 4"
  by (simp add: unat_word_ariths)

lemma tame_isodescs:
  "unat caplen < 2 ^ 31 \<Longrightarrow> unat caplen \<le> n \<Longrightarrow> unat off = p \<Longrightarrow> p \<le> unat caplen + 4 \<Longrightarrow>
     tame (unat caplen) n (swap_isodescs k caplen off p)"
proof (induction k arbitrary: off p)
  case (Suc k)
  have u: "unat (off + 4) = p + 4" "unat (off + 8) = p + 8" "unat (off + 12) = p + 12"
      "unat (off + 16) = p + 16"
    using Suc.prems by (simp_all add: unat_word_ariths)
  have "tame (unat caplen) n (swap_isodescs k caplen (off + 16) (p + 16))" if "p + 12 \<le> unat caplen"
    by (rule Suc.IH) (use Suc.prems u that in simp_all)
  then have "tame (unat caplen) n
      (fld caplen (off + 4) (swap32_at p) (fld caplen (off + 8) (swap32_at (p + 4))
      (fld caplen (off + 12) (swap32_at (p + 8)) (swap_isodescs k caplen (off + 16) (p + 16)))))"
    by (intro tame_fld tame_swap) (simp_all add: u Suc.prems(2))
  then show ?case by (simp add: add.assoc)
qed simp

lemma tame_descs: "unat caplen < 2 ^ 31 \<Longrightarrow> unat caplen \<le> n \<Longrightarrow> 64 \<le> unat caplen \<Longrightarrow>
    tame (unat caplen) n (usb_descs caplen)"
  using tame_isodescs [of caplen n 64 64]
  by (auto simp: tame_def usb_descs_def ld32_def)

lemma tame_trailer: "unat caplen < 2 ^ 31 \<Longrightarrow> unat caplen \<le> n \<Longrightarrow> 40 \<le> unat caplen \<Longrightarrow>
    tame (unat caplen) n (usb_trailer caplen hdr64)"
proof (cases hdr64)
  assume h: "unat caplen < 2 ^ 31" "unat caplen \<le> n" "40 \<le> unat caplen" hdr64
  have "tame (unat caplen) n (fld caplen 52 (swap32_at 48) (fld caplen 56 (swap32_at 52)
      (fld caplen 60 (swap32_at 56) (fld caplen 64 (swap32_at 60) (usb_descs caplen)))))"
    by (intro tame_fld tame_swap tame_descs h(1,2)) (insert h(2), simp_all)
  then show ?thesis using h(4) by (simp add: tame_def usb_trailer_def)
next
  assume "\<not> hdr64"
  then show ?thesis by (simp add: tame_def usb_trailer_def)
qed

lemma tame_union: 
  assumes h: "unat caplen < 2 ^ 31" "unat caplen \<le> n" "40 \<le> unat caplen"
  shows "tame (unat caplen) n (usb_union caplen hdr64)"
proof -
  have "tame (unat caplen) n (fld caplen 44 (swap32_at 40) (fld caplen 48 (swap32_at 44) (usb_trailer caplen hdr64)))"
    by (intro tame_fld tame_swap tame_trailer h) (insert h(2), simp_all)
  with tame_trailer [OF h, of hdr64] h show ?thesis
    by (auto simp: tame_def usb_union_def)
qed

lemma tame_usb: "unat caplen < 2 ^ 31 \<Longrightarrow> unat caplen \<le> n \<Longrightarrow>
    tame (unat caplen) n (swap_linux_usb_header caplen hdr64)"
  unfolding swap_linux_usb_header_def
  by (intro tame_fld tame_swap tame_union) simp_all

lemma tlv_size_value: "unat (ucast (tlv_size l) :: u32) = unat (tlv_size l)"
proof -
  have "unat (tlv_size l) < 2 ^ 32" using unsigned_less [of "tlv_size l", where ?'a = nat] by simp
  then show ?thesis by (simp add: unsigned_ucast_eq take_bit_nat_eq_self)
qed

lemma tame_nflog_loop:
  "p + unat caplen \<le> n \<Longrightarrow> tame (p + unat caplen) n (swap_nflog_loop caplen len p)"
proof (unfold tame_def, intro allI impI)
  fix b :: "byte list"
  show "p + unat caplen \<le> n \<Longrightarrow> length b = n \<Longrightarrow>
     \<exists>b'. swap_nflog_loop caplen len p b = Some b' \<and> length b' = n \<and> drop (p + unat caplen) b' = drop (p + unat caplen) b"
  proof (induction caplen len p b rule: swap_nflog_loop.induct)
    case (1 caplen len p b)
    let ?c = "p + unat caplen"
    show ?case
    proof (cases "caplen < 4")
      case True
      then show ?thesis using 1 by (simp add: swap_nflog_loop.simps)
    next
      case False
      then have c: "4 \<le> unat caplen" by (simp add: word_less_nat_alt not_less)
      have w: "tame ?c n (swap16_at (p + 2))" "tame ?c n (swap16_at p)"
        using c 1(2) by (auto intro!: tame_swap)
      obtain b1 where b1: "swap16_at (p + 2) b = Some b1" "length b1 = n" "drop ?c b1 = drop ?c b"
        using tameD [OF w(1) 1(3)] by blast
      obtain b2 where b2: "swap16_at p b1 = Some b2" "length b2 = n" "drop ?c b2 = drop ?c b"
        using tameD [OF w(2) b1(2)] b1(3) by auto
      obtain l where l: "ld16 b2 p = Some l"
        using c 1(2) b2(2) by (simp add: ld16_def)
      define sz where "sz = (ucast (tlv_size l) :: u32)"
      show ?thesis
      proof (cases "sz < 4 \<or> caplen < sz \<or> len < sz")
        case True
        then show ?thesis
          using False b1 b2 l by (subst swap_nflog_loop.simps) (auto simp: Let_def sz_def)
      next
        case ok: False
        then have s: "unat (caplen - sz) = unat caplen - unat sz" "unat sz \<le> unat caplen"
          by (simp_all add: unat_sub word_le_nat_alt word_less_nat_alt not_less)
        then have e: "p + unat sz + unat (caplen - sz) = ?c" by simp
        have "swap_nflog_loop caplen len p b = swap_nflog_loop (caplen - sz) (len - sz) (p + unat sz) b2"
          using False b1 b2 l ok by (subst swap_nflog_loop.simps) (auto simp: Let_def sz_def)
        moreover have "\<exists>b'. swap_nflog_loop (caplen - sz) (len - sz) (p + unat sz) b2 = Some b' \<and>
            length b' = n \<and> drop ?c b' = drop ?c b2"
          using 1(1) [OF False b1(1) b2(1) l sz_def] ok 1(2) b2(2) unfolding e by simp
        ultimately show ?thesis using b2(3) by simp
      qed
    qed
  qed
qed

lemma tame_nflog: "unat caplen \<le> n \<Longrightarrow> tame (unat caplen) n (swap_nflog_header caplen len)"
proof (unfold tame_def, intro allI impI)
  fix b :: "byte list"
  assume h: "unat caplen \<le> n" "length b = n"
  show "\<exists>b'. swap_nflog_header caplen len b = Some b' \<and> length b' = n \<and> drop (unat caplen) b' = drop (unat caplen) b"
  proof (cases "caplen < 4")
    case False
    then have c: "4 + unat (caplen - 4) = unat caplen" "4 \<le> n"
      using h(1) by (simp_all add: unat_sub word_le_nat_alt word_less_nat_alt not_less)
    have "\<exists>b'. swap_nflog_loop (caplen - 4) (len - 4) 4 b = Some b' \<and> length b' = n \<and> drop (unat caplen) b' = drop (unat caplen) b"
      using tameD [OF tame_nflog_loop [of 4 "caplen - 4" n "len - 4"] h(2)] c h by simp
    then show ?thesis using c h by (auto simp: swap_nflog_header_def rd_def)
  qed (use h in \<open>simp add: swap_nflog_header_def\<close>)
qed

lemma tame_pseudo: "unat caplen < 2 ^ 31 \<Longrightarrow> unat caplen \<le> n \<Longrightarrow> tame (unat caplen) n (swap_pseudo_headers t caplen len)"
  using tame_usb [of caplen n] tame_nflog [of caplen n len] by (simp add: tame_def swap_pseudo_headers_def)

text \<open>
  C27: The conversion of pseudo-headers stays inside the captured bytes of the packet whatever they
  are: it neither reads nor writes outside of the buffer and leaves what lies behind them alone.
\<close>

theorem swap_pseudo_headers_safe:
  assumes "unat caplen \<le> length b" "unat caplen < 2 ^ 31"
  shows "\<exists>b'. swap_pseudo_headers t caplen len b = Some b' \<and> length b' = length b \<and>
    drop (unat caplen) b' = drop (unat caplen) b"
  using tameD [OF tame_pseudo] assms by blast

theorem swap_pseudo_headers_safe_witness:
  "\<exists>b'. swap_pseudo_headers DLT_USB_LINUX_MMAPPED 14 20 (replicate 10 0 @ [1, 2, 3, 4, 5, 6]) = Some b' \<and> drop 14 b' = [5, 6]"
  using swap_pseudo_headers_safe [of 14 "replicate 10 0 @ [1, 2, 3, 4, 5, 6]" DLT_USB_LINUX_MMAPPED 20]
  by auto

subsection \<open>What the conversion yields\<close>

definition enc16 :: "bool \<Rightarrow> u16 \<Rightarrow> byte list" where
  "enc16 be w = (if be then rev (le16 w) else le16 w)"

definition enc32 :: "bool \<Rightarrow> u32 \<Rightarrow> byte list" where
  "enc32 be w = (if be then rev (le32 w) else le32 w)"

definition enc64 :: "bool \<Rightarrow> u64 \<Rightarrow> byte list" where
  "enc64 be w = (if be then rev (le64 w) else le64 w)"

lemma length_enc [simp]: "length (enc16 be v) = 2" "length (enc32 be w) = 4" "length (enc64 be x) = 8"
  by (simp_all add: enc16_def enc32_def enc64_def)

lemma rev_enc [simp]: "rev (enc16 True v) = enc16 False v" "rev (enc32 True w) = enc32 False w"
    "rev (enc64 True x) = enc64 False x"
  by (simp_all add: enc16_def enc32_def enc64_def)

lemma of_enc [simp]: "of_le16 (enc16 False v) = v" "of_le32 (enc32 False w) = w" "of_le64 (enc64 False x) = x"
  by (simp_all add: enc16_def enc32_def enc64_def)

text \<open>A netfilter log packet as a host of either byte order writes it.\<close>

definition tlv_enc :: "bool \<Rightarrow> u16 \<times> byte list \<Rightarrow> byte list" where
  "tlv_enc be x = enc16 be (of_nat (length (snd x) + 4)) @ enc16 be (fst x) @ snd x @
     replicate ((4 - length (snd x) mod 4) mod 4) 0"

definition nflog_enc :: "bool \<Rightarrow> byte \<Rightarrow> byte list \<Rightarrow> (u16 \<times> byte list) list \<Rightarrow> byte list" where
  "nflog_enc be family rid tlvs = family # 0 # rid @ concat (map (tlv_enc be) tlvs)"

lemma tlv_size_padded:
  assumes "length v + 7 < 2 ^ 16"
  shows "unat (tlv_size (of_nat (length v + 4))) = length (tlv_enc be (t, v))"
proof -
  define k where "k = length v + 4"
  have k: "k + 3 < 2 ^ 16" using assms by (simp add: k_def)
  have u: "unat (of_nat k :: u16) = k" using k by (simp add: unat_of_nat)
  have m: "unat ((of_nat k :: u16) mod 4) = k mod 4" by (simp add: unat_mod_distrib u)
  have "unat (tlv_size (of_nat k)) = k + (4 - k mod 4) mod 4"
  proof (cases "k mod 4 = 0")
    case True
    then have "(of_nat k :: u16) mod 4 = 0" using m by (metis unat_eq_zero)
    then show ?thesis using True u by (simp add: tlv_size_def)
  next
    case False
    then have n: "(of_nat k :: u16) mod 4 \<noteq> 0" using m by (metis unat_0)
    have "unat (4 - (of_nat k :: u16) mod 4) = 4 - k mod 4"
      using m by (subst unat_sub) (simp_all add: word_le_nat_alt)
    then have "unat ((of_nat k :: u16) + (4 - of_nat k mod 4)) = k + (4 - k mod 4)"
    proof -
      have "k mod 4 < 4" by simp
      then have "0 < k mod 4" "k mod 4 < 4" using False by simp_all
      then have "k + (4 - k mod 4) < 2 ^ 16" using k by linarith
      moreover have "unat ((of_nat k :: u16) + (4 - of_nat k mod 4)) = (unat (of_nat k :: u16) + unat (4 - (of_nat k :: u16) mod 4)) mod 2 ^ 16"
        by (simp add: unat_word_ariths)
      ultimately show ?thesis using u \<open>unat (4 - (of_nat k :: u16) mod 4) = 4 - k mod 4\<close> by simp
    qed
    then show ?thesis using n False by (simp add: tlv_size_def)
  qed
  moreover have "k mod 4 = length v mod 4" by (simp add: k_def)
  ultimately show ?thesis by (simp add: k_def tlv_enc_def)
qed


lemma length_tlv_enc: "length (tlv_enc be x) = length (tlv_enc True x)"
  by (simp add: tlv_enc_def)

lemma length_tlvs: "length (concat (map (tlv_enc be) tlvs)) = length (concat (map (tlv_enc True) tlvs))"
  by (induction tlvs) (simp_all add: length_tlv_enc [of be])

lemma nflog_step:
  assumes "length (snd x) + 7 < 2 ^ 16" "length (tlv_enc True x) \<le> unat caplen" "length (tlv_enc True x) \<le> unat len"
  shows "swap_nflog_loop caplen len (length pre) (pre @ tlv_enc True x @ post) =
    swap_nflog_loop (caplen - of_nat (length (tlv_enc True x))) (len - of_nat (length (tlv_enc True x)))
      (length pre + length (tlv_enc True x)) (pre @ tlv_enc False x @ post)"
proof -
  obtain t v where x: "x = (t, v)" by (cases x)
  define L where "L = (of_nat (length v + 4) :: u16)"
  let ?pad = "replicate ((4 - length v mod 4) mod 4) (0 :: byte)"
  have e: "tlv_enc be x = enc16 be L @ enc16 be t @ v @ ?pad" for be
    by (simp add: x tlv_enc_def L_def)
  let ?n = "length (tlv_enc True x)"
  have n: "4 \<le> ?n" "unat (ucast (tlv_size L) :: u32) = ?n"
    using tlv_size_padded [of v True t] assms(1) by (simp_all add: L_def x tlv_size_value tlv_enc_def)
  have n32: "?n < 2 ^ 32" using assms(2) unsigned_less [of caplen, where ?'a = nat] by simp
  then have sz: "(ucast (tlv_size L) :: u32) = of_nat ?n" proof -
    have "(ucast (tlv_size L) :: u32) = of_nat (unat (ucast (tlv_size L) :: u32))" by simp
    then show ?thesis by (simp only: n(2))
  qed
  have un: "unat (of_nat ?n :: u32) = ?n" using n32 by (simp add: unat_of_nat)
  have g: "\<not> caplen < 4" "\<not> (of_nat ?n :: u32) < 4" "\<not> caplen < of_nat ?n" "\<not> len < of_nat ?n"
    using assms(2,3) n(1) by (simp_all add: word_less_nat_alt un not_less)
  have "swap16_at (length pre + 2) (pre @ tlv_enc True x @ post) =
      Some (pre @ enc16 True L @ enc16 False t @ v @ ?pad @ post)"
    using swap_at_mid(1) [of "length pre + 2" "pre @ enc16 True L" "enc16 True t" "v @ ?pad @ post"]
    by (simp add: e)
  moreover have "swap16_at (length pre) (pre @ enc16 True L @ enc16 False t @ v @ ?pad @ post) =
      Some (pre @ enc16 False L @ enc16 False t @ v @ ?pad @ post)"
    using swap_at_mid(1) [of "length pre" pre "enc16 True L" "enc16 False t @ v @ ?pad @ post"] by simp
  moreover have "ld16 (pre @ enc16 False L @ enc16 False t @ v @ ?pad @ post) (length pre) = Some L"
    by (simp add: ld16_def)
  moreover have "pre @ enc16 False L @ enc16 False t @ v @ ?pad @ post = pre @ tlv_enc False x @ post"
    by (simp add: e)
  ultimately show ?thesis
    using g by (subst swap_nflog_loop.simps) (simp add: Let_def sz un)
qed

lemma nflog_run:
  "list_all (\<lambda>x. length (snd x) + 7 < 2 ^ 16) tlvs \<Longrightarrow>
   unat caplen = length (concat (map (tlv_enc True) tlvs)) \<Longrightarrow> unat caplen \<le> unat len \<Longrightarrow>
   swap_nflog_loop caplen len (length pre) (pre @ concat (map (tlv_enc True) tlvs) @ rest) =
     Some (pre @ concat (map (tlv_enc False) tlvs) @ rest)"
proof (induction tlvs arbitrary: caplen len pre)
  case Nil
  then have "caplen < 4" by (simp add: word_less_nat_alt)
  then show ?case by (simp add: swap_nflog_loop.simps)
next
  case (Cons x tlvs)
  let ?n = "length (tlv_enc True x)" and ?m = "length (concat (map (tlv_enc True) tlvs))"
  have c: "unat caplen = ?n + ?m" using Cons.prems by simp
  have n: "?n \<le> unat caplen" "?n \<le> unat len" "?n < 2 ^ 32"
    using c Cons.prems(3) unsigned_less [of caplen, where ?'a = nat] by simp_all
  then have un: "unat (of_nat ?n :: u32) = ?n" by (simp add: unat_of_nat)
  then have s: "unat (caplen - of_nat ?n) = ?m" "unat (len - of_nat ?n) = unat len - ?n"
    using c n by (simp_all add: unat_sub word_le_nat_alt)
  have "swap_nflog_loop caplen len (length pre) (pre @ tlv_enc True x @ concat (map (tlv_enc True) tlvs) @ rest) =
    swap_nflog_loop (caplen - of_nat ?n) (len - of_nat ?n) (length (pre @ tlv_enc False x))
      ((pre @ tlv_enc False x) @ concat (map (tlv_enc True) tlvs) @ rest)"
    using nflog_step [of x caplen len pre "concat (map (tlv_enc True) tlvs) @ rest"] Cons.prems n
    by (simp add: length_tlv_enc [of False])
  also have "\<dots> = Some ((pre @ tlv_enc False x) @ concat (map (tlv_enc False) tlvs) @ rest)"
    by (rule Cons.IH) (use Cons.prems s c in simp_all)
  finally show ?case by simp
qed

lemma nflog_swapped:
  assumes "length rid = 2" "list_all (\<lambda>x. length (snd x) + 7 < 2 ^ 16) tlvs"
    and "unat caplen = length (nflog_enc True fam rid tlvs)" "unat caplen \<le> unat len"
  shows "swap_nflog_header caplen len (nflog_enc True fam rid tlvs @ rest) = Some (nflog_enc False fam rid tlvs @ rest)"
proof -
  obtain r s where r: "rid = [r, s]" using length_2E [OF assms(1)] by blast
  let ?m = "length (concat (map (tlv_enc True) tlvs))"
  have c: "unat caplen = 4 + ?m" using assms(3) by (simp add: nflog_enc_def r)
  then have g: "\<not> caplen < 4" "\<not> len < 4" using assms(4) by (simp_all add: word_less_nat_alt)
  then have u: "unat (caplen - 4) = ?m" "unat (len - 4) = unat len - 4"
    using c assms(4) by (simp_all add: unat_sub word_le_nat_alt not_less)
  have "swap_nflog_loop (caplen - 4) (len - 4) (length [fam, 0, r, s]) ([fam, 0, r, s] @ concat (map (tlv_enc True) tlvs) @ rest) =
      Some ([fam, 0, r, s] @ concat (map (tlv_enc False) tlvs) @ rest)"
    by (rule nflog_run [OF assms(2) u(1)]) (use u c assms(4) in simp)
  then show ?thesis using g by (simp add: swap_nflog_header_def nflog_enc_def r rd_def numeral_eq_Suc)
qed


text \<open>A Linux USB header and its isochronous descriptors, as a host of either byte order writes it.\<close>

record usb_isodesc =
  iso_status :: u32
  iso_offset :: u32
  iso_len :: u32
  iso_pad :: "byte list"

record usb_header =
  usb_id :: u64
  event_type :: byte
  transfer_type :: byte
  endpoint_number :: byte
  device_address :: byte
  bus_id :: u16
  setup_flag :: byte
  data_flag :: byte
  ts_sec :: u64
  ts_usec :: u32
  usb_status :: u32
  urb_len :: u32
  data_len :: u32
  usb_setup :: "byte list"
  error_count :: u32
  numdesc :: u32
  interval :: u32
  start_frame :: u32
  xfer_flags :: u32
  ndesc :: u32
  isodescs :: "usb_isodesc list"

definition isodesc_enc :: "bool \<Rightarrow> usb_isodesc \<Rightarrow> byte list" where
  "isodesc_enc be d = enc32 be (iso_status d) @ enc32 be (iso_offset d) @ enc32 be (iso_len d) @ iso_pad d"

definition usb_enc :: "bool \<Rightarrow> usb_header \<Rightarrow> byte list" where
  "usb_enc be h =
     enc64 be (usb_id h) @ [event_type h, transfer_type h, endpoint_number h, device_address h] @
     enc16 be (bus_id h) @ [setup_flag h, data_flag h] @ enc64 be (ts_sec h) @ enc32 be (ts_usec h) @
     enc32 be (usb_status h) @ enc32 be (urb_len h) @ enc32 be (data_len h) @
     (if transfer_type h = URB_ISOCHRONOUS then enc32 be (error_count h) @ enc32 be (numdesc h) else usb_setup h)"

definition usb_mmapped_enc :: "bool \<Rightarrow> usb_header \<Rightarrow> byte list" where
  "usb_mmapped_enc be h =
     usb_enc be h @ enc32 be (interval h) @ enc32 be (start_frame h) @ enc32 be (xfer_flags h) @
     enc32 be (ndesc h) @ concat (map (isodesc_enc be) (isodescs h))"

definition usb_ok :: "usb_header \<Rightarrow> bool" where
  "usb_ok h \<longleftrightarrow> length (usb_setup h) = 8 \<and> list_all (\<lambda>d. length (iso_pad d) = 4) (isodescs h) \<and>
     length (isodescs h) = (if transfer_type h = URB_ISOCHRONOUS then unat (ndesc h) else 0)"

lemma fld_mid:
  "i = length p \<Longrightarrow> length x = 2 \<Longrightarrow> \<not> c < off \<Longrightarrow> fld c off (swap16_at i) k (p @ x @ q) = k (p @ rev x @ q)"
  "i = length p \<Longrightarrow> length x = 4 \<Longrightarrow> \<not> c < off \<Longrightarrow> fld c off (swap32_at i) k (p @ x @ q) = k (p @ rev x @ q)"
  "i = length p \<Longrightarrow> length x = 8 \<Longrightarrow> \<not> c < off \<Longrightarrow> fld c off (swap64_at i) k (p @ x @ q) = k (p @ rev x @ q)"
  by (simp_all add: fld_def swap_at_mid)

lemma isodescs_run:
  "list_all (\<lambda>d. length (iso_pad d) = 4) ds \<Longrightarrow> unat caplen < 2 ^ 31 \<Longrightarrow> unat off = length pre \<Longrightarrow>
   length pre + 16 * length ds \<le> unat caplen \<Longrightarrow>
   swap_isodescs (length ds) caplen off (length pre) (pre @ concat (map (isodesc_enc True) ds) @ rest) =
     Some (pre @ concat (map (isodesc_enc False) ds) @ rest)"
proof (induction ds arbitrary: off pre)
  case (Cons d ds)
  let ?t = "concat (map (isodesc_enc True) ds) @ rest"
  let ?e = "\<lambda>a b c. pre @ enc32 a (iso_status d) @ enc32 b (iso_offset d) @ enc32 c (iso_len d) @ iso_pad d @ ?t"
  have u: "unat (off + 4) = length pre + 4" "unat (off + 8) = length pre + 8" "unat (off + 12) = length pre + 12"
      "unat (off + 16) = length pre + 16"
    using Cons.prems(2,3,4) by (simp_all add: unat_word_ariths)
  have g: "\<not> caplen < off + 4" "\<not> caplen < off + 8" "\<not> caplen < off + 12"
    using Cons.prems(4) by (simp_all add: word_less_nat_alt u)
  let ?k = "swap_isodescs (length ds) caplen (off + 16) (length pre + 16)"
  have "fld caplen (off + 4) (swap32_at (length pre)) (fld caplen (off + 8) (swap32_at (length pre + 4))
      (fld caplen (off + 12) (swap32_at (length pre + 8)) ?k)) (?e True True True) = ?k (?e False False False)"
    using fld_mid(2) [OF refl _ g(1), of "enc32 True (iso_status d)" pre]
      fld_mid(2) [of "length pre + 4" "pre @ enc32 False (iso_status d)", OF _ _ g(2), of "enc32 True (iso_offset d)"]
      fld_mid(2) [of "length pre + 8" "pre @ enc32 False (iso_status d) @ enc32 False (iso_offset d)", OF _ _ g(3), of "enc32 True (iso_len d)"]
    by simp
  moreover have "?k ((pre @ isodesc_enc False d) @ ?t) = Some ((pre @ isodesc_enc False d) @ concat (map (isodesc_enc False) ds) @ rest)"
    using Cons.IH [of "off + 16" "pre @ isodesc_enc False d"] Cons.prems u(4) by (simp add: isodesc_enc_def [of _ d])
  ultimately show ?case by (simp add: isodesc_enc_def [of _ d] add.assoc)
qed simp


definition usb_front :: "bool \<Rightarrow> usb_header \<Rightarrow> byte list" where
  "usb_front be h =
     enc64 be (usb_id h) @ [event_type h, transfer_type h, endpoint_number h, device_address h] @
     enc16 be (bus_id h) @ [setup_flag h, data_flag h] @ enc64 be (ts_sec h) @ enc32 be (ts_usec h) @
     enc32 be (usb_status h) @ enc32 be (urb_len h) @ enc32 be (data_len h)"

lemma length_front [simp]: "length (usb_front be h) = 40"
  by (simp add: usb_front_def)

lemma front_9 [simp]: "rd (usb_front be h @ q) 9 = Some (transfer_type h)"
  by (simp add: usb_front_def rd_def nth_append)

lemma front_run:
  assumes "40 \<le> unat caplen"
  shows "swap_linux_usb_header caplen hdr64 (usb_front True h @ q) = usb_union caplen hdr64 (usb_front False h @ q)"
proof -
  have g: "\<not> caplen < 8" "\<not> caplen < 14" "\<not> caplen < 24" "\<not> caplen < 28" "\<not> caplen < 32" "\<not> caplen < 36" "\<not> caplen < 40"
    using assms by (simp_all add: word_less_nat_alt)
  show ?thesis
    by (simp add: swap_linux_usb_header_def fld_def g usb_front_def swap16_at_eq swap32_at_eq swap64_at_eq)
qed

lemma union_run:
  assumes "48 \<le> unat caplen"
  shows "usb_union caplen hdr64 (usb_front False h @
      (if transfer_type h = URB_ISOCHRONOUS then enc32 True (error_count h) @ enc32 True (numdesc h) else usb_setup h) @ q) =
    usb_trailer caplen hdr64 (usb_front False h @
      (if transfer_type h = URB_ISOCHRONOUS then enc32 False (error_count h) @ enc32 False (numdesc h) else usb_setup h) @ q)"
proof -
  have g: "\<not> caplen < 44" "\<not> caplen < 48" using assms by (simp_all add: word_less_nat_alt)
  have "fld caplen 44 (swap32_at 40) (fld caplen 48 (swap32_at 44) k)
      (usb_front False h @ enc32 True (error_count h) @ enc32 True (numdesc h) @ q) =
      k (usb_front False h @ enc32 False (error_count h) @ enc32 False (numdesc h) @ q)" for k
    using fld_mid(2) [of 40 "usb_front False h", OF _ _ g(1), of "enc32 True (error_count h)"]
      fld_mid(2) [of 44 "usb_front False h @ enc32 False (error_count h)", OF _ _ g(2), of "enc32 True (numdesc h)"]
    by simp
  then show ?thesis by (simp add: usb_union_def)
qed

lemma trailer_run:
  assumes "64 \<le> unat caplen" "length p = 48"
  shows "usb_trailer caplen True (p @ enc32 True a @ enc32 True b @ enc32 True c @ enc32 True d @ q) =
    usb_descs caplen (p @ enc32 False a @ enc32 False b @ enc32 False c @ enc32 False d @ q)"
proof -
  have g: "\<not> caplen < 52" "\<not> caplen < 56" "\<not> caplen < 60" "\<not> caplen < 64"
    using assms(1) by (simp_all add: word_less_nat_alt)
  show ?thesis
    using fld_mid(2) [of 48 p, OF _ _ g(1), of "enc32 True a"]
      fld_mid(2) [of 52 "p @ enc32 False a", OF _ _ g(2), of "enc32 True b"]
      fld_mid(2) [of 56 "p @ enc32 False a @ enc32 False b", OF _ _ g(3), of "enc32 True c"]
      fld_mid(2) [of 60 "p @ enc32 False a @ enc32 False b @ enc32 False c", OF _ _ g(4), of "enc32 True d"]
      assms(2) by (simp add: usb_trailer_def)
qed

lemma usb_enc_front: "usb_enc be h = usb_front be h @
    (if transfer_type h = URB_ISOCHRONOUS then enc32 be (error_count h) @ enc32 be (numdesc h) else usb_setup h)"
  by (simp add: usb_enc_def usb_front_def)

lemma length_usb_enc: "usb_ok h \<Longrightarrow> length (usb_enc be h) = 48"
  by (simp add: usb_enc_front usb_ok_def)

lemma usb_swapped:
  assumes "usb_ok h" "48 \<le> unat caplen"
  shows "swap_linux_usb_header caplen False (usb_enc True h @ rest) = Some (usb_enc False h @ rest)"
  using front_run [of caplen False h] union_run [of caplen False h] assms(2)
  by (simp add: usb_enc_front usb_trailer_def)

lemma usb_mmapped_swapped:
  assumes "usb_ok h" "length (usb_mmapped_enc True h) \<le> unat caplen" "unat caplen < 2 ^ 31"
  shows "swap_linux_usb_header caplen True (usb_mmapped_enc True h @ rest) = Some (usb_mmapped_enc False h @ rest)"
proof -
  let ?m = "\<lambda>be. enc32 be (interval h) @ enc32 be (start_frame h) @ enc32 be (xfer_flags h) @ enc32 be (ndesc h)"
  let ?d = "\<lambda>be. concat (map (isodesc_enc be) (isodescs h))"
  have pads: "list_all (\<lambda>d. length (iso_pad d) = 4) (isodescs h)" using assms(1) by (simp add: usb_ok_def)
  moreover have "list_all (\<lambda>d. length (iso_pad d) = 4) ds \<Longrightarrow>
      length (concat (map (isodesc_enc True) ds)) = 16 * length ds" for ds
    by (induction ds) (simp_all add: isodesc_enc_def)
  ultimately have ld: "length (?d True) = 16 * length (isodescs h)" by blast
  have c: "64 + 16 * length (isodescs h) \<le> unat caplen"
    using assms(2) ld length_usb_enc [OF assms(1)] by (simp add: usb_mmapped_enc_def)
  let ?p = "usb_enc False h @ ?m False"
  have lp: "length ?p = 64" using length_usb_enc [OF assms(1)] by simp
  have "swap_linux_usb_header caplen True (usb_mmapped_enc True h @ rest) =
      usb_trailer caplen True (usb_enc False h @ ?m True @ ?d True @ rest)"
    using front_run [of caplen True h] union_run [of caplen True h] c
    by (simp add: usb_mmapped_enc_def usb_enc_front)
  also have "\<dots> = usb_descs caplen (?p @ ?d True @ rest)"
    using trailer_run [OF _ length_usb_enc [OF assms(1)], of caplen False] c by simp
  also have "\<dots> = Some (?p @ ?d False @ rest)"
  proof -
    have r: "rd (?p @ ?d True @ rest) 9 = Some (transfer_type h)" by (simp add: usb_enc_front)
    have n: "ld32 (?p @ ?d True @ rest) 60 = Some (ndesc h)"
      using length_usb_enc [OF assms(1)] by (simp add: ld32_def)
    show ?thesis
    proof (cases "transfer_type h = URB_ISOCHRONOUS")
      case True
      then have "unat (ndesc h) = length (isodescs h)" using assms(1) by (simp add: usb_ok_def)
      with True r n show ?thesis
        using isodescs_run [OF pads assms(3), of 64 ?p rest] lp c by (simp add: usb_descs_def)
    next
      case False
      then have "isodescs h = []" using assms(1) by (simp add: usb_ok_def)
      with False r show ?thesis by (simp add: usb_descs_def)
    qed
  qed
  finally show ?thesis by (simp add: usb_mmapped_enc_def)
qed


text \<open>
  C28: Reading a packet of a Linux USB capture that a host of the other byte order wrote gives the
  packet as this host would have written it: every field of the header, and every isochronous
  descriptor, has its value, and the data behind them is the same.
\<close>

theorem usb_header_converted:
  assumes "usb_ok h" "length (usb_mmapped_enc True h) \<le> unat caplen" "unat caplen < 2 ^ 31"
  shows "swap_pseudo_headers DLT_USB_LINUX_MMAPPED caplen len (usb_mmapped_enc True h @ rest) =
      Some (usb_mmapped_enc False h @ rest) \<and>
    swap_pseudo_headers DLT_USB_LINUX caplen len (usb_enc True h @ rest) = Some (usb_enc False h @ rest)"
proof -
  have "48 \<le> unat caplen" using assms(2) length_usb_enc [OF assms(1)] by (simp add: usb_mmapped_enc_def)
  then show ?thesis
    using usb_mmapped_swapped [OF assms] usb_swapped [OF assms(1)] by (simp add: swap_pseudo_headers_def)
qed

definition usb_sample :: usb_header where
  "usb_sample = \<lparr>usb_id = 0x0102030405060708, event_type = 0x53, transfer_type = 0, endpoint_number = 1,
     device_address = 2, bus_id = 3, setup_flag = 0, data_flag = 0, ts_sec = 5, ts_usec = 6, usb_status = 7,
     urb_len = 8, data_len = 16, usb_setup = replicate 8 0, error_count = 0, numdesc = 1, interval = 1,
     start_frame = 2, xfer_flags = 3, ndesc = 1,
     isodescs = [\<lparr>iso_status = 1, iso_offset = 2, iso_len = 3, iso_pad = [0, 0, 0, 0]\<rparr>]\<rparr>"

theorem usb_header_converted_witness:
  "swap_pseudo_headers DLT_USB_LINUX_MMAPPED 81 81 (usb_mmapped_enc True usb_sample @ [7]) =
     Some (usb_mmapped_enc False usb_sample @ [7])"
proof -
  have "usb_ok usb_sample" by (simp add: usb_ok_def usb_sample_def)
  moreover have "length (usb_mmapped_enc True usb_sample) \<le> unat (81 :: u32)"
    by (simp add: usb_mmapped_enc_def usb_enc_front isodesc_enc_def usb_sample_def)
  moreover have "unat (81 :: u32) < 2 ^ 31" by simp
  ultimately show ?thesis using usb_header_converted by blast
qed

text \<open>
  C29: Likewise for a netfilter log packet: the lengths and types of its values, which are in the
  writing host's byte order, are converted, and nothing else.
\<close>

theorem nflog_header_converted:
  assumes "length rid = 2" "list_all (\<lambda>x. length (snd x) + 7 < 2 ^ 16) tlvs"
    and "unat caplen = length (nflog_enc True fam rid tlvs)" "unat caplen \<le> unat len"
  shows "swap_pseudo_headers DLT_NFLOG caplen len (nflog_enc True fam rid tlvs @ rest) =
    Some (nflog_enc False fam rid tlvs @ rest)"
  using nflog_swapped [OF assms] by (simp add: swap_pseudo_headers_def)

theorem nflog_header_converted_witness:
  "swap_pseudo_headers DLT_NFLOG 20 20 (nflog_enc True 2 [0, 1] [(9, [1, 2, 3]), (1, [8, 0, 1, 0])]) =
     Some (nflog_enc False 2 [0, 1] [(9, [1, 2, 3]), (1, [8, 0, 1, 0])])"
  using nflog_header_converted [of "[0, 1]" "[(9, [1, 2, 3]), (1, [8, 0, 1, 0])]" 20 2 20 "[]"]
  by (simp add: nflog_enc_def tlv_enc_def)

end
