(* ===== verification/Pcap_File.thy ===== *)
theory Pcap_File
  imports Pcap_Swap "HOL-Library.Signed_Division"
begin

text \<open>
  Capture files in libpcap's own format (\<^verbatim>\<open>sf-pcap.c\<close>): opening one for reading, reading its packets,
  writing one and appending to one. A \<open>stream\<close> is the rest of a file, with a flag that says whether
  the short read at its end is an I/O error. The parameter \<open>mem\<close> says for which sizes \<^verbatim>\<open>malloc\<close>
  succeeds; the allocation of the handle itself is assumed to. The host is little-endian with a
  64-bit \<^verbatim>\<open>struct timeval\<close>. The error texts are the constructors of \<open>sf_error\<close>.
\<close>

subsection \<open>Streams and errors\<close>

record stream =
  bytes :: "byte list"
  ferr :: bool

definition fread :: "nat \<Rightarrow> stream \<Rightarrow> byte list \<times> stream" where
  "fread n f = (take n (bytes f), f\<lparr>bytes := drop n (bytes f)\<rparr>)"

datatype sf_error = READ_ERROR | TRUNCATED nat nat | ARCHAIC | UNKNOWN_PRECISION u32 | OUT_OF_MEMORY
  | BOGUS_HEADER | BUFMOD_MALLOC | NOT_ACTIVATED | UNSUPPORTED_TYPE int | OTHER_PRECISION
  | OTHER_BYTE_ORDER | NOT_APPENDABLE | NOT_PCAP | OTHER_VERSION u16 u16 | OTHER_LINKTYPE | OTHER_SNAPLEN

definition short_read :: "nat \<Rightarrow> nat \<Rightarrow> stream \<Rightarrow> sf_error" where
  "short_read wanted got f = (if ferr f then READ_ERROR else TRUNCATED wanted got)"

subsection \<open>Opening a file\<close>

abbreviation TCPDUMP_MAGIC :: u32 where "TCPDUMP_MAGIC \<equiv> 0xa1b2c3d4"
abbreviation KUZNETZOV_TCPDUMP_MAGIC :: u32 where "KUZNETZOV_TCPDUMP_MAGIC \<equiv> 0xa1b2cd34"
abbreviation NAVTEL_TCPDUMP_MAGIC :: u32 where "NAVTEL_TCPDUMP_MAGIC \<equiv> 0xa12b3c4d"
abbreviation NSEC_TCPDUMP_MAGIC :: u32 where "NSEC_TCPDUMP_MAGIC \<equiv> 0xa1b23c4d"

abbreviation (input) PCAP_VERSION_MAJOR :: u16 where "PCAP_VERSION_MAJOR \<equiv> 2"
abbreviation (input) PCAP_VERSION_MINOR :: u16 where "PCAP_VERSION_MINOR \<equiv> 4"
abbreviation (input) PCAP_TSTAMP_PRECISION_MICRO :: u32 where "PCAP_TSTAMP_PRECISION_MICRO \<equiv> 0"
abbreviation (input) PCAP_TSTAMP_PRECISION_NANO :: u32 where "PCAP_TSTAMP_PRECISION_NANO \<equiv> 1"
abbreviation MAXIMUM_SNAPLEN :: int where "MAXIMUM_SNAPLEN \<equiv> 262144"

definition LT_LINKTYPE :: "u32 \<Rightarrow> u32" where "LT_LINKTYPE x = x AND 0x03FFFFFF"
definition LT_LINKTYPE_EXT :: "u32 \<Rightarrow> u32" where "LT_LINKTYPE_EXT x = x AND 0xFC000000"

datatype swapped_type = NOT_SWAPPED | SWAPPED | MAYBE_SWAPPED
datatype tstamp_scale = PASS_THROUGH | SCALE_UP | SCALE_DOWN

record pcap_file_header =
  magic :: u32
  version_major :: u16
  version_minor :: u16
  thiszone :: u32
  sigfigs :: u32
  snaplen :: u32
  file_linktype :: u32

record pcap =
  swapped :: bool
  p_major :: u16
  p_minor :: u16
  tzoff :: u32
  snapshot :: int
  dlt :: int
  linktype_ext :: u32
  tstamp_precision :: u32
  patched :: bool
  lengths_swapped :: swapped_type
  scale_type :: tstamp_scale
  bufsize :: int

definition is_magic :: "u32 \<Rightarrow> bool" where
  "is_magic m \<longleftrightarrow> m = TCPDUMP_MAGIC \<or> m = KUZNETZOV_TCPDUMP_MAGIC \<or> m = NSEC_TCPDUMP_MAGIC"

definition check_magic :: "u32 \<Rightarrow> (u32 \<times> bool) option" where
  "check_magic m =
     (if is_magic m then Some (m, False)
      else if is_magic (SWAPLONG m) then Some (SWAPLONG m, True) else None)"

text \<open>The rest of the header as the 20 bytes read into the structure.\<close>

definition header_fields :: "u32 \<Rightarrow> byte list \<Rightarrow> pcap_file_header" where
  "header_fields m bs = \<lparr>magic = m, version_major = of_le16 (take 2 bs),
     version_minor = of_le16 (take 2 (drop 2 bs)), thiszone = of_le32 (take 4 (drop 4 bs)),
     sigfigs = of_le32 (take 4 (drop 8 bs)), snaplen = of_le32 (take 4 (drop 12 bs)),
     file_linktype = of_le32 (take 4 (drop 16 bs))\<rparr>"

definition swap_header :: "pcap_file_header \<Rightarrow> pcap_file_header" where
  "swap_header h = h\<lparr>version_major := SWAPSHORT (version_major h), version_minor := SWAPSHORT (version_minor h),
     thiszone := SWAPLONG (thiszone h), sigfigs := SWAPLONG (sigfigs h), snaplen := SWAPLONG (snaplen h),
     file_linktype := SWAPLONG (file_linktype h)\<rparr>"

definition tstamp_scaling :: "u32 \<Rightarrow> u32 \<Rightarrow> tstamp_scale option" where
  "tstamp_scaling precision m =
     (if precision = PCAP_TSTAMP_PRECISION_MICRO then
        Some (if m = NSEC_TCPDUMP_MAGIC then SCALE_DOWN else PASS_THROUGH)
      else if precision = PCAP_TSTAMP_PRECISION_NANO then
        Some (if m = NSEC_TCPDUMP_MAGIC then PASS_THROUGH else SCALE_UP)
      else None)"

definition length_order :: "u16 \<Rightarrow> u16 \<Rightarrow> swapped_type" where
  "length_order major minor =
     (if major = 2 then
        (if minor < 3 then SWAPPED else if minor = 3 then MAYBE_SWAPPED else NOT_SWAPPED)
      else if major = 543 then SWAPPED
      else NOT_SWAPPED)"

text \<open>
  \<open>Not_pcap\<close> leaves the file to the other formats; \<open>Undefined\<close> is a signed overflow of the snapshot
  length.
\<close>

datatype open_result = Not_pcap | Header_error sf_error | Undefined | Opened pcap

definition open_header :: "(nat \<Rightarrow> bool) \<Rightarrow> u32 \<Rightarrow> bool \<Rightarrow> pcap_file_header \<Rightarrow> open_result" where
  "open_header mem precision sw h =
     (if version_major h < PCAP_VERSION_MAJOR then Header_error ARCHAIC
      else (case tstamp_scaling precision (magic h) of None \<Rightarrow> Header_error (UNKNOWN_PRECISION precision)
      | Some sc \<Rightarrow>
          let lt = linktype_to_dlt (uint (LT_LINKTYPE (file_linktype h)));
              kuz = (magic h = KUZNETZOV_TCPDUMP_MAGIC);
              snap = (if kuz \<and> lt = DLT_EN10MB then sint (snaplen h) + 14 else sint (snaplen h));
              bs = (if snap \<le> 0 then MAXIMUM_SNAPLEN else snap)
          in if snap \<ge> 2 ^ 31 then Undefined
             else if \<not> mem (nat bs) then Header_error OUT_OF_MEMORY
             else Opened \<lparr>swapped = sw, p_major = version_major h, p_minor = version_minor h,
                tzoff = thiszone h, snapshot = snap, dlt = lt,
                linktype_ext = LT_LINKTYPE_EXT (file_linktype h), tstamp_precision = precision,
                patched = kuz, lengths_swapped = length_order (version_major h) (version_minor h),
                scale_type = sc, bufsize = bs\<rparr>))"

definition pcap_check_header :: "(nat \<Rightarrow> bool) \<Rightarrow> u32 \<Rightarrow> stream \<Rightarrow> u32 \<Rightarrow> open_result \<times> stream" where
  "pcap_check_header mem m f precision =
     (case check_magic m of None \<Rightarrow> (Not_pcap, f)
      | Some (m', sw) \<Rightarrow>
          let (bs, f') = fread 20 f in
          if length bs \<noteq> 20 then (Header_error (short_read 24 (length bs) f), f')
          else let h = header_fields m' bs in
               (open_header mem precision sw (if sw then swap_header h else h), f'))"

text \<open>\<open>pcap_fopen_offline_with_tstamp_precision\<close>, up to the other file formats.\<close>

definition pcap_fopen_offline :: "(nat \<Rightarrow> bool) \<Rightarrow> u32 \<Rightarrow> stream \<Rightarrow> open_result \<times> stream" where
  "pcap_fopen_offline mem precision f =
     (let (bs, f') = fread 4 f in
      if length bs \<noteq> 4 then (Header_error (short_read 4 (length bs) f), f')
      else pcap_check_header mem (of_le32 bs) f' precision)"

subsection \<open>Reading a packet\<close>

record pkthdr =
  tv_sec :: int
  tv_usec :: int
  caplen :: u32
  wire_len :: u32

text \<open>The first 16 bytes of either form of record header.\<close>

definition sf_pkthdr :: "bool \<Rightarrow> byte list \<Rightarrow> pkthdr" where
  "sf_pkthdr sw bs =
     (let conv = (if sw then SWAPLONG else id) in
      \<lparr>tv_sec = sint (conv (of_le32 (take 4 bs))), tv_usec = sint (conv (of_le32 (take 4 (drop 4 bs)))),
       caplen = conv (of_le32 (take 4 (drop 8 bs))), wire_len = conv (of_le32 (take 4 (drop 12 bs)))\<rparr>)"

definition scale_tstamp :: "tstamp_scale \<Rightarrow> pkthdr \<Rightarrow> pkthdr" where
  "scale_tstamp s h = (case s of PASS_THROUGH \<Rightarrow> h
     | SCALE_UP \<Rightarrow> h\<lparr>tv_usec := tv_usec h * 1000\<rparr>
     | SCALE_DOWN \<Rightarrow> h\<lparr>tv_usec := tv_usec h sdiv 1000\<rparr>)"

definition exchange_lengths :: "pkthdr \<Rightarrow> pkthdr" where
  "exchange_lengths h = h\<lparr>caplen := wire_len h, wire_len := caplen h\<rparr>"

definition order_lengths :: "swapped_type \<Rightarrow> pkthdr \<Rightarrow> pkthdr" where
  "order_lengths s h = (case s of NOT_SWAPPED \<Rightarrow> h
     | MAYBE_SWAPPED \<Rightarrow> if caplen h \<le> wire_len h then h else exchange_lengths h
     | SWAPPED \<Rightarrow> exchange_lengths h)"

text \<open>
  The packet's bytes; \<open>tsize\<close> is the size of the static buffer for packets that are longer than the
  snapshot length says. The result is the header with the data that is kept.
\<close>

definition read_data ::
  "(nat \<Rightarrow> bool) \<Rightarrow> pcap \<Rightarrow> pkthdr \<Rightarrow> u32 \<Rightarrow> stream \<Rightarrow> (sf_error + pkthdr \<times> byte list) \<times> u32 \<times> stream" where
  "read_data mem p h tsize f =
     (if caplen h > of_int (bufsize p) then
        if caplen h > of_int MAXIMUM_SNAPLEN then (Inl BOGUS_HEADER, tsize, f)
        else
          let grow = (tsize < caplen h);
              tsize' = (if grow then ((caplen h + 1023) div 1024) * 1024 else tsize)
          in if grow \<and> \<not> mem (unat tsize') then (Inl BUFMOD_MALLOC, 0, f)
             else let (bs, f') = fread (unat (caplen h)) f in
               if length bs \<noteq> unat (caplen h)
               then (Inl (short_read (unat (caplen h)) (length bs) f), tsize', f')
               else (Inr (h\<lparr>caplen := of_int (bufsize p)\<rparr>, take (nat (bufsize p)) bs), tsize', f')
      else
        let (bs, f') = fread (unat (caplen h)) f in
        if length bs \<noteq> unat (caplen h) then (Inl (short_read (unat (caplen h)) (length bs) f), tsize, f')
        else (Inr (h, bs), tsize, f'))"

datatype next_result = Eof | Next_error sf_error | Next_undef | Packet pkthdr "byte list"

definition hdrsize :: "pcap \<Rightarrow> nat" where
  "hdrsize p = (if patched p then 24 else 16)"

definition pcap_next_packet :: "(nat \<Rightarrow> bool) \<Rightarrow> pcap \<Rightarrow> u32 \<Rightarrow> stream \<Rightarrow> next_result \<times> u32 \<times> stream" where
  "pcap_next_packet mem p tsize f =
     (let (bs, f1) = fread (hdrsize p) f in
      if length bs \<noteq> hdrsize p then
        (if ferr f then Next_error READ_ERROR
         else if length bs \<noteq> 0 then Next_error (TRUNCATED (hdrsize p) (length bs)) else Eof, tsize, f1)
      else
        let h = order_lengths (lengths_swapped p) (scale_tstamp (scale_type p) (sf_pkthdr (swapped p) bs)) in
        (case read_data mem p h tsize f1 of
           (Inl e, tsize', f2) \<Rightarrow> (Next_error e, tsize', f2)
         | (Inr (h', d), tsize', f2) \<Rightarrow>
             (if swapped p then
                (case swap_pseudo_headers (dlt p) (caplen h') (wire_len h') d of
                   None \<Rightarrow> Next_undef | Some d' \<Rightarrow> Packet h' d')
              else Packet h' d, tsize', f2)))"

subsection \<open>Writing and appending\<close>

definition sf_write_header :: "pcap \<Rightarrow> u32 \<Rightarrow> u32 \<Rightarrow> u32 \<Rightarrow> byte list" where
  "sf_write_header p lt zone snap =
     le32 (if tstamp_precision p = PCAP_TSTAMP_PRECISION_NANO then NSEC_TCPDUMP_MAGIC else TCPDUMP_MAGIC) @
     le16 PCAP_VERSION_MAJOR @ le16 PCAP_VERSION_MINOR @ le32 zone @ le32 0 @ le32 snap @ le32 lt"

text \<open>The two \<^verbatim>\<open>fwrite\<close> calls; the packet must have the captured bytes.\<close>

definition pcap_dump :: "pkthdr \<Rightarrow> byte list \<Rightarrow> byte list option" where
  "pcap_dump h sp =
     (case rd_bytes sp 0 (unat (caplen h)) of None \<Rightarrow> None
      | Some d \<Rightarrow> Some (le32 (of_int (tv_sec h)) @ le32 (of_int (tv_usec h)) @ le32 (caplen h) @ le32 (wire_len h) @ d))"

definition dump_linktype :: "pcap \<Rightarrow> u32" where
  "dump_linktype p = of_int (dlt_to_linktype (dlt p)) OR linktype_ext p"

text \<open>What \<open>pcap_dump_open\<close> writes to a file it could open; \<open>act\<close> is \<^verbatim>\<open>p->activated\<close>.\<close>

definition pcap_dump_open :: "bool \<Rightarrow> pcap \<Rightarrow> sf_error + byte list" where
  "pcap_dump_open act p =
     (if \<not> act then Inl NOT_ACTIVATED
      else if dlt_to_linktype (dlt p) = -1 then Inl (UNSUPPORTED_TYPE (dlt p))
      else Inr (sf_write_header p (dump_linktype p) (tzoff p) (of_int (snapshot p))))"

definition pcap_dump_fopen :: "pcap \<Rightarrow> sf_error + byte list" where
  "pcap_dump_fopen p =
     (if dlt_to_linktype (dlt p) = -1 then Inl (UNSUPPORTED_TYPE (dlt p))
      else Inr (sf_write_header p (dump_linktype p) (tzoff p) (of_int (snapshot p))))"

definition check_append_magic :: "u32 \<Rightarrow> u32 \<Rightarrow> sf_error option" where
  "check_append_magic precision m =
     (if m = TCPDUMP_MAGIC then
        (if precision \<noteq> PCAP_TSTAMP_PRECISION_MICRO then Some OTHER_PRECISION else None)
      else if m = NSEC_TCPDUMP_MAGIC then
        (if precision \<noteq> PCAP_TSTAMP_PRECISION_NANO then Some OTHER_PRECISION else None)
      else if m = SWAPLONG TCPDUMP_MAGIC \<or> m = SWAPLONG NSEC_TCPDUMP_MAGIC then Some OTHER_BYTE_ORDER
      else if m = KUZNETZOV_TCPDUMP_MAGIC \<or> m = SWAPLONG KUZNETZOV_TCPDUMP_MAGIC \<or>
        m = NAVTEL_TCPDUMP_MAGIC \<or> m = SWAPLONG NAVTEL_TCPDUMP_MAGIC then Some NOT_APPENDABLE
      else Some NOT_PCAP)"

text \<open>
  \<open>pcap_dump_open_append\<close> on the contents of a named file: an error, or the contents with the header
  added when there was none; the next write goes to its end.
\<close>

definition pcap_dump_open_append :: "pcap \<Rightarrow> stream \<Rightarrow> sf_error + byte list" where
  "pcap_dump_open_append p f =
     (let lt = (of_int (dlt_to_linktype (dlt p)) :: u32); (bs, f') = fread 24 f in
      if dlt_to_linktype (dlt p) = -1 then Inl (UNSUPPORTED_TYPE (-1))
      else if length bs \<noteq> 24 \<and> ferr f then Inl READ_ERROR
      else if length bs \<noteq> 24 \<and> length bs > 0 then Inl (TRUNCATED 24 (length bs))
      else if length bs > 0 then
        let h = header_fields (of_le32 (take 4 bs)) (drop 4 bs) in
        (case check_append_magic (tstamp_precision p) (magic h) of Some e \<Rightarrow> Inl e
         | None \<Rightarrow>
             if version_major h \<noteq> PCAP_VERSION_MAJOR \<or> version_minor h \<noteq> PCAP_VERSION_MINOR
             then Inl (OTHER_VERSION (version_major h) (version_minor h))
             else if lt \<noteq> file_linktype h then Inl OTHER_LINKTYPE
             else if of_int (snapshot p) \<noteq> snaplen h then Inl OTHER_SNAPLEN
             else Inr (bytes f))
      else Inr (sf_write_header p lt (tzoff p) (of_int (snapshot p))))"

subsection \<open>Whatever the file holds\<close>

definition pcap_ok :: "pcap \<Rightarrow> bool" where
  "pcap_ok p \<longleftrightarrow> 0 < bufsize p \<and> bufsize p < 2 ^ 31"

lemma sint_less: "sint (w :: u32) < 2 ^ 31"
  using sint_lt [of w] by simp

lemma open_header_ok: "open_header mem precision sw h = Opened p \<Longrightarrow> pcap_ok p"
  using sint_less [of "snaplen h"]
  by (auto simp: open_header_def Let_def pcap_ok_def split: option.splits if_splits)

lemma check_header_ok: "pcap_check_header mem m f precision = (Opened p, f') \<Longrightarrow> pcap_ok p"
  by (auto simp: pcap_check_header_def Let_def fread_def intro: open_header_ok split: option.splits if_splits)

lemma fopen_ok: "pcap_fopen_offline mem precision f = (Opened p, f') \<Longrightarrow> pcap_ok p"
  by (auto simp: pcap_fopen_offline_def Let_def fread_def intro: check_header_ok split: if_splits)

lemma unat_of_bufsize: "pcap_ok p \<Longrightarrow> unat (of_int (bufsize p) :: u32) = nat (bufsize p)"
proof -
  assume p: "pcap_ok p"
  have "(of_int (int (nat (bufsize p))) :: u32) = of_nat (nat (bufsize p))" by (rule of_int_of_nat_eq)
  then have "(of_int (bufsize p) :: u32) = of_nat (nat (bufsize p))" using p by (simp add: pcap_ok_def)
  moreover have "unat (of_nat (nat (bufsize p)) :: u32) = nat (bufsize p)"
    using p by (subst unat_of_nat) (simp add: pcap_ok_def nat_less_iff)
  ultimately show ?thesis by simp
qed

lemma unat_le_nat: "0 < b \<Longrightarrow> unat (w :: u32) \<le> nat b \<Longrightarrow> uint w \<le> b"
proof -
  assume "0 < b" "unat w \<le> nat b"
  then have "int (unat w) \<le> int (nat b)" by (simp only: of_nat_le_iff)
  then show "uint w \<le> b" using \<open>0 < b\<close> by simp
qed

lemma read_data_ok:
  assumes "pcap_ok p" "read_data mem p h tsize f = (Inr (h', d), tsize', f')"
  shows "length d = unat (caplen h') \<and> int (length d) \<le> bufsize p \<and> length (bytes f') \<le> length (bytes f)"
proof (cases "caplen h > of_int (bufsize p)")
  case True
  then have n: "nat (bufsize p) < unat (caplen h)"
    using unat_of_bufsize [OF assms(1)] by (simp add: word_less_nat_alt)
  have "length (take (unat (caplen h)) (bytes f)) = unat (caplen h) \<and>
      h' = h\<lparr>caplen := of_int (bufsize p)\<rparr> \<and> d = take (nat (bufsize p)) (take (unat (caplen h)) (bytes f)) \<and>
      bytes f' = drop (unat (caplen h)) (bytes f)"
    using assms(2) True by (auto simp: read_data_def Let_def fread_def simp del: length_take take_take split: if_splits)
  moreover from this have "unat (caplen h) \<le> length (bytes f)" by (auto simp: min_def split: if_splits)
  then have "length (take (nat (bufsize p)) (bytes f)) = nat (bufsize p)" using n by simp
  ultimately show ?thesis using n unat_of_bufsize [OF assms(1)] assms(1) by (simp add: pcap_ok_def)
next
  case False
  then have "unat (caplen h) \<le> nat (bufsize p)"
    using unat_of_bufsize [OF assms(1)] by (simp add: word_less_nat_alt)
  moreover have "length (take (unat (caplen h)) (bytes f)) = unat (caplen h) \<and>
      h' = h \<and> d = take (unat (caplen h)) (bytes f) \<and> bytes f' = drop (unat (caplen h)) (bytes f)"
    using assms(2) False by (auto simp: read_data_def Let_def fread_def simp del: length_take take_take split: if_splits)
  ultimately show ?thesis using assms(1) by (simp add: pcap_ok_def unat_le_nat)
qed

lemma next_packet_ok:
  assumes p: "pcap_ok p" and r: "pcap_next_packet mem p tsize f = (r, tsize', f')"
  shows "r \<noteq> Next_undef \<and>
    (\<forall>h d. r = Packet h d \<longrightarrow> length d = unat (caplen h) \<and> int (length d) \<le> bufsize p \<and>
       length (bytes f') + hdrsize p \<le> length (bytes f))"
proof (cases "length (take (hdrsize p) (bytes f)) \<noteq> hdrsize p")
  case True
  then have "r = (if ferr f then Next_error READ_ERROR
      else if length (take (hdrsize p) (bytes f)) \<noteq> 0 then Next_error (TRUNCATED (hdrsize p) (length (take (hdrsize p) (bytes f)))) else Eof)"
    using r by (simp add: pcap_next_packet_def fread_def del: length_take split: if_splits)
  then show ?thesis by simp
next
  case False
  define h0 where "h0 = order_lengths (lengths_swapped p) (scale_tstamp (scale_type p) (sf_pkthdr (swapped p) (take (hdrsize p) (bytes f))))"
  define f1 where "f1 = f\<lparr>bytes := drop (hdrsize p) (bytes f)\<rparr>"
  obtain x ts f2 where rd: "read_data mem p h0 tsize f1 = (x, ts, f2)" by (metis prod_cases3)
  have r': "(case x of Inl e \<Rightarrow> (Next_error e, ts, f2)
      | Inr (h', d) \<Rightarrow> (if swapped p then
          (case swap_pseudo_headers (dlt p) (caplen h') (wire_len h') d of None \<Rightarrow> Next_undef | Some d' \<Rightarrow> Packet h' d')
          else Packet h' d, ts, f2)) = (r, tsize', f')"
    using r False rd unfolding pcap_next_packet_def fread_def Let_def h0_def f1_def
    by (auto split: sum.splits)
  show ?thesis
  proof (cases x)
    case (Inl e)
    then show ?thesis using r' by auto
  next
    case (Inr y)
    obtain h' d where y: "y = (h', d)" by (cases y)
    have d: "length d = unat (caplen h')" "int (length d) \<le> bufsize p" "length (bytes f2) \<le> length (bytes f1)"
      using read_data_ok [OF p rd [unfolded Inr y]] by blast+
    have b: "bufsize p < 2 ^ 31" using p by (simp add: pcap_ok_def)
    have c: "unat (caplen h') \<le> length d" "int (unat (caplen h')) < 2 ^ 31" using d(1,2) b by linarith+
    then have c': "unat (caplen h') < 2 ^ 31" by (simp only: of_nat_less_numeral_power_cancel_iff)
    obtain d' where d': "swap_pseudo_headers (dlt p) (caplen h') (wire_len h') d = Some d'" "length d' = length d"
      using tameD [OF tame_pseudo [OF c' c(1)]] by blast
    have f: "f2 = f'" using r' Inr y by (auto split: if_splits)
    have l: "length (bytes f1) + hdrsize p = length (bytes f)"
      using False by (simp add: f1_def)
    show ?thesis using r' Inr y d d' f l by (auto split: if_splits)
  qed
qed



subsection \<open>Files written by either kind of host\<close>

definition pkt_enc :: "bool \<Rightarrow> pkthdr \<times> byte list \<Rightarrow> byte list" where
  "pkt_enc be x = enc32 be (of_int (tv_sec (fst x))) @ enc32 be (of_int (tv_usec (fst x))) @
     enc32 be (caplen (fst x)) @ enc32 be (wire_len (fst x)) @ snd x"

definition header_enc :: "bool \<Rightarrow> u32 \<Rightarrow> u32 \<Rightarrow> u32 \<Rightarrow> u32 \<Rightarrow> byte list" where
  "header_enc be m zone snap lt =
     enc32 be m @ enc16 be 2 @ enc16 be 4 @ enc32 be zone @ enc32 be 0 @ enc32 be snap @ enc32 be lt"

definition file_enc :: "bool \<Rightarrow> u32 \<Rightarrow> u32 \<Rightarrow> u32 \<Rightarrow> u32 \<Rightarrow> (pkthdr \<times> byte list) list \<Rightarrow> byte list" where
  "file_enc be m zone snap lt pkts = header_enc be m zone snap lt @ concat (map (pkt_enc be) pkts)"

definition int32 :: "int \<Rightarrow> bool" where
  "int32 i \<longleftrightarrow> - (2 ^ 31) \<le> i \<and> i < 2 ^ 31"

definition pkt_ok :: "int \<Rightarrow> pkthdr \<times> byte list \<Rightarrow> bool" where
  "pkt_ok n x \<longleftrightarrow> int32 (tv_sec (fst x)) \<and> int32 (tv_usec (fst x)) \<and>
     length (snd x) = unat (caplen (fst x)) \<and> int (length (snd x)) \<le> n"

lemma sint_of_int32: "int32 i \<Longrightarrow> sint (of_int i :: u32) = i"
  by (simp add: int32_def signed_of_int signed_take_bit_int_eq_self)

lemma of_enc_true: "of_le32 (enc32 True w) = SWAPLONG w" "of_le16 (enc16 True v) = SWAPSHORT v"
  by (simp_all add: enc32_def enc16_def SWAPLONG_rev SWAPSHORT_rev)

lemma conv_enc: "(if be then SWAPLONG else id) (of_le32 (enc32 be w)) = w"
  by (simp add: of_enc_true scalar32.swap_swap)

lemma sf_pkthdr_enc:
  assumes "pkt_ok n (h, d)"
  shows "sf_pkthdr be (take 16 (pkt_enc be (h, d) @ rest)) = h"
proof -
  have "sf_pkthdr be (take 16 (pkt_enc be (h, d) @ rest)) =
      \<lparr>tv_sec = sint (of_int (tv_sec h) :: u32), tv_usec = sint (of_int (tv_usec h) :: u32), caplen = caplen h, wire_len = wire_len h\<rparr>"
    using conv_enc [of be] by (simp add: sf_pkthdr_def pkt_enc_def Let_def)
  then show ?thesis using assms by (simp add: pkt_ok_def sint_of_int32)
qed

lemma length_pkt_enc: "length (pkt_enc be x) = 16 + length (snd x)"
  by (simp add: pkt_enc_def)

text \<open>A handle that reads such a file: nothing is rescaled, reordered or padded.\<close>

definition plain_handle :: "bool \<Rightarrow> pcap \<Rightarrow> bool" where
  "plain_handle be p \<longleftrightarrow> pcap_ok p \<and> swapped p = be \<and> \<not> patched p \<and> lengths_swapped p = NOT_SWAPPED \<and>
     scale_type p = PASS_THROUGH"

definition has_pseudo_header :: "int \<Rightarrow> bool" where
  "has_pseudo_header t \<longleftrightarrow> t = DLT_USB_LINUX \<or> t = DLT_USB_LINUX_MMAPPED \<or> t = DLT_NFLOG"

lemma next_packet_enc:
  assumes "plain_handle be p" "pkt_ok (bufsize p) (h, d)" "\<not> be \<or> \<not> has_pseudo_header (dlt p)"
  shows "pcap_next_packet mem p tsize \<lparr>bytes = pkt_enc be (h, d) @ rest, ferr = e\<rparr> =
    (Packet h d, tsize, \<lparr>bytes = rest, ferr = e\<rparr>)"
proof -
  have p: "pcap_ok p" using assms(1) by (simp add: plain_handle_def)
  have "length d = unat (caplen h) \<and> int (length d) \<le> bufsize p"
    using assms(2) unfolding pkt_ok_def fst_conv snd_conv by blast
  then have l: "length d = unat (caplen h)" "length d \<le> nat (bufsize p)" by linarith+
  then have c: "\<not> caplen h > of_int (bufsize p)" by (simp add: word_less_nat_alt unat_of_bufsize [OF p])
  have h: "order_lengths (lengths_swapped p) (scale_tstamp (scale_type p) (sf_pkthdr be (take 16 (pkt_enc be (h, d) @ rest)))) = h"
    using assms(1) sf_pkthdr_enc [OF assms(2)] by (simp add: plain_handle_def order_lengths_def scale_tstamp_def)
  have dr: "drop 16 (pkt_enc be (h, d) @ rest) = d @ rest" by (simp add: pkt_enc_def)
  have "read_data mem p h tsize \<lparr>bytes = d @ rest, ferr = e\<rparr> = (Inr (h, d), tsize, \<lparr>bytes = rest, ferr = e\<rparr>)"
    using c l by (simp add: read_data_def fread_def)
  moreover have "swapped p \<Longrightarrow> swap_pseudo_headers (dlt p) (caplen h) (wire_len h) d = Some d"
    using assms(1,3) by (simp add: swap_pseudo_headers_def has_pseudo_header_def plain_handle_def)
  moreover have "length (take 16 (pkt_enc be (h, d) @ rest)) = 16" by (simp add: length_pkt_enc)
  ultimately show ?thesis
    using assms(1) h dr unfolding pcap_next_packet_def fread_def Let_def hdrsize_def
    by (simp add: plain_handle_def del: length_take)
qed

lemma is_magic_not_swapped: "is_magic m \<Longrightarrow> \<not> is_magic (SWAPLONG m)"
  unfolding is_magic_def by (elim disjE; simp add: SWAPLONG_def)

lemma check_magic_enc: "is_magic m \<Longrightarrow> check_magic (of_le32 (enc32 be m)) = Some (m, be)"
  using is_magic_not_swapped [of m]
  by (cases be) (simp_all add: check_magic_def of_enc_true scalar32.swap_swap)

text \<open>Opening such a file with the matching precision.\<close>

definition plain_pcap :: "bool \<Rightarrow> u32 \<Rightarrow> u32 \<Rightarrow> int \<Rightarrow> u32 \<Rightarrow> pcap" where
  "plain_pcap be precision zone snap lt = \<lparr>swapped = be, p_major = 2, p_minor = 4, tzoff = zone,
     snapshot = snap, dlt = linktype_to_dlt (uint (LT_LINKTYPE lt)), linktype_ext = LT_LINKTYPE_EXT lt,
     tstamp_precision = precision, patched = False, lengths_swapped = NOT_SWAPPED,
     scale_type = PASS_THROUGH, bufsize = (if snap \<le> 0 then MAXIMUM_SNAPLEN else snap)\<rparr>"

definition magic_of :: "u32 \<Rightarrow> u32" where
  "magic_of precision = (if precision = PCAP_TSTAMP_PRECISION_NANO then NSEC_TCPDUMP_MAGIC else TCPDUMP_MAGIC)"

lemma fopen_enc:
  assumes "precision = 0 \<or> precision = 1" "int32 snap" "mem (nat (if snap \<le> 0 then MAXIMUM_SNAPLEN else snap))"
  shows "pcap_fopen_offline mem precision \<lparr>bytes = header_enc be (magic_of precision) zone (of_int snap) lt @ rest, ferr = e\<rparr> =
    (Opened (plain_pcap be precision zone snap lt), \<lparr>bytes = rest, ferr = e\<rparr>)"
proof -
  let ?m = "magic_of precision"
  let ?b = "enc16 be 2 @ enc16 be 4 @ enc32 be zone @ enc32 be 0 @ enc32 be (of_int snap) @ enc32 be lt"
  have m: "is_magic ?m" "?m \<noteq> KUZNETZOV_TCPDUMP_MAGIC" "tstamp_scaling precision ?m = Some PASS_THROUGH"
    using assms(1) by (auto simp: magic_of_def is_magic_def tstamp_scaling_def)
  have h: "(if be then swap_header (header_fields ?m ?b) else header_fields ?m ?b) =
      \<lparr>magic = ?m, version_major = 2, version_minor = 4, thiszone = zone, sigfigs = 0, snaplen = of_int snap, file_linktype = lt\<rparr>"
    by (cases be) (simp_all add: header_fields_def swap_header_def of_enc_true scalar32.swap_swap scalar16.swap_swap)
  have t: "take 4 (header_enc be ?m zone (of_int snap) lt @ rest) = enc32 be ?m"
    "drop 4 (header_enc be ?m zone (of_int snap) lt @ rest) = ?b @ rest"
    by (simp_all add: header_enc_def)
  have b: "take 20 (?b @ rest) = ?b" "drop 20 (?b @ rest) = rest" "length ?b = 20" by simp_all
  have s: "sint (of_int snap :: u32) = snap" "snap < 2 ^ 31" using assms(2) by (simp_all add: sint_of_int32 int32_def)
  have "open_header mem precision be \<lparr>magic = ?m, version_major = 2, version_minor = 4, thiszone = zone, sigfigs = 0, snaplen = of_int snap, file_linktype = lt\<rparr> =
      Opened (plain_pcap be precision zone snap lt)"
    using m s assms(3) by (cases "snap \<le> 0") (simp_all add: open_header_def Let_def plain_pcap_def length_order_def)
  then have "pcap_check_header mem (of_le32 (enc32 be ?m)) \<lparr>bytes = ?b @ rest, ferr = e\<rparr> precision =
      (Opened (plain_pcap be precision zone snap lt), \<lparr>bytes = rest, ferr = e\<rparr>)"
    unfolding pcap_check_header_def check_magic_enc [OF m(1)] option.case prod.case fread_def Let_def stream.simps b h
    by simp
  then show ?thesis unfolding pcap_fopen_offline_def fread_def Let_def stream.simps t by simp
qed


lemma dump_enc: "pkt_ok n (h, d) \<Longrightarrow> pcap_dump h d = Some (pkt_enc False (h, d))"
  by (simp add: pcap_dump_def pkt_ok_def pkt_enc_def enc32_def)

lemma write_header_enc: "sf_write_header p lt zone snap = header_enc False (magic_of (tstamp_precision p)) zone snap lt"
  by (simp add: sf_write_header_def header_enc_def magic_of_def enc32_def enc16_def)

subsection \<open>Appending\<close>

lemma of_le32_4: "length b = 4 \<Longrightarrow> take 4 (b @ r) = b" by simp

text \<open>
  C39: A file that \<open>pcap_dump_open\<close> began can be appended to with the same handle, and then keeps its
  contents, exactly when the link-layer type carries no extra information, such as the length of
  the frame check sequences: that is written to the header but forgotten when the header is compared.
\<close>

theorem append_after_open:
  assumes "pcap_dump_open True p = Inr b" "tstamp_precision p = 0 \<or> tstamp_precision p = 1"
    and "of_int (dlt_to_linktype (dlt p)) AND linktype_ext p = 0"
  shows "pcap_dump_open_append p \<lparr>bytes = b @ pkts, ferr = e\<rparr> =
    (if linktype_ext p = 0 then Inr (b @ pkts) else Inl OTHER_LINKTYPE)"
proof -
  let ?lt = "of_int (dlt_to_linktype (dlt p)) :: u32"
  have b: "b = header_enc False (magic_of (tstamp_precision p)) (tzoff p) (of_int (snapshot p)) (?lt OR linktype_ext p)"
    and n: "dlt_to_linktype (dlt p) \<noteq> -1"
    using assms(1) by (auto simp: pcap_dump_open_def dump_linktype_def write_header_enc split: if_splits)
  have l: "length (take 24 (b @ pkts)) = 24" by (simp add: b header_enc_def)
  have m: "check_append_magic (tstamp_precision p) (magic_of (tstamp_precision p)) = None"
    using assms(2) by (auto simp: check_append_magic_def magic_of_def)
  have h: "header_fields (of_le32 (take 4 (take 24 (b @ pkts)))) (drop 4 (take 24 (b @ pkts))) =
      \<lparr>magic = magic_of (tstamp_precision p), version_major = 2, version_minor = 4, thiszone = tzoff p, sigfigs = 0,
       snaplen = of_int (snapshot p), file_linktype = ?lt OR linktype_ext p\<rparr>"
    by (simp add: b header_enc_def header_fields_def)
  have e: "?lt = (?lt OR linktype_ext p) \<longleftrightarrow> linktype_ext p = 0"
  proof
    assume a: "?lt = (?lt OR linktype_ext p)"
    have "linktype_ext p = (?lt OR linktype_ext p) AND linktype_ext p"
      by (rule bit_word_eqI) (auto simp: bit_simps)
    also have "\<dots> = ?lt AND linktype_ext p" using a by simp
    finally show "linktype_ext p = 0" using assms(3) by simp
  qed simp
  show ?thesis
    unfolding pcap_dump_open_append_def fread_def Let_def prod.case stream.simps l h pcap_file_header.simps
    using n m e by simp
qed

theorem append_after_open_witness:
  "let p = plain_pcap False 0 0 100 1; q = p\<lparr>linktype_ext := 0x14000000\<rparr> in
   \<exists>b c. pcap_dump_open True p = Inr b \<and> pcap_dump_open_append p \<lparr>bytes = b @ [], ferr = False\<rparr> = Inr (b @ []) \<and>
     pcap_dump_open True q = Inr c \<and> pcap_dump_open_append q \<lparr>bytes = c @ [], ferr = False\<rparr> = Inl OTHER_LINKTYPE"
proof -
  define p where "p = plain_pcap False 0 0 100 1"
  define q where "q = p\<lparr>linktype_ext := 0x14000000\<rparr>"
  have t: "dlt_to_linktype (dlt p) = 1" "dlt_to_linktype (dlt q) = 1"
    by (simp_all add: p_def q_def plain_pcap_def LT_LINKTYPE_def linktype_to_dlt_def dlt_to_linktype_def linktype_map_def)
  then obtain b c where o: "pcap_dump_open True p = Inr b" "pcap_dump_open True q = Inr c"
    by (simp add: pcap_dump_open_def)
  have x: "linktype_ext p = 0" "linktype_ext q \<noteq> 0" by (simp_all add: p_def q_def plain_pcap_def LT_LINKTYPE_EXT_def)
  have y: "of_int (dlt_to_linktype (dlt p)) AND linktype_ext p = 0" "of_int (dlt_to_linktype (dlt q)) AND linktype_ext q = 0"
    unfolding t by (simp_all add: x(1)) (simp add: q_def)
  have z: "tstamp_precision p = 0 \<or> tstamp_precision p = 1" "tstamp_precision q = 0 \<or> tstamp_precision q = 1"
    by (simp_all add: p_def q_def plain_pcap_def)
  show ?thesis
    using append_after_open [OF o(1) z(1) y(1), of "[]" False] append_after_open [OF o(2) z(2) y(2), of "[]" False] o x
    unfolding Let_def p_def [symmetric] q_def [symmetric] by simp
qed

text \<open>
  A file in the format of the patched libpcap with an Ethernet link type and a snapshot length
  close to the largest makes opening it overflow a signed integer.
\<close>

lemma patched_snaplen_overflow:
  "fst (pcap_fopen_offline mem 0 \<lparr>bytes = header_enc be KUZNETZOV_TCPDUMP_MAGIC 0 0x7fffffff 1, ferr = False\<rparr>) = Undefined"
proof -
  have m: "is_magic KUZNETZOV_TCPDUMP_MAGIC" by (simp add: is_magic_def)
  let ?b = "enc16 be 2 @ enc16 be 4 @ enc32 be 0 @ enc32 be 0 @ enc32 be 0x7fffffff @ enc32 be 1"
  let ?h = "\<lparr>magic = KUZNETZOV_TCPDUMP_MAGIC, version_major = 2, version_minor = 4, thiszone = 0, sigfigs = 0,
      snaplen = 0x7fffffff, file_linktype = 1\<rparr>"
  have h: "(if be then swap_header (header_fields KUZNETZOV_TCPDUMP_MAGIC ?b) else header_fields KUZNETZOV_TCPDUMP_MAGIC ?b) = ?h"
    by (cases be) (simp_all add: header_fields_def swap_header_def of_enc_true scalar32.swap_swap scalar16.swap_swap)
  have s: "sint (0x7fffffff :: u32) = 0x7fffffff" by (simp add: sint_uint signed_take_bit_def)
  have o: "open_header mem 0 be ?h = Undefined"
    by (simp add: open_header_def tstamp_scaling_def Let_def s LT_LINKTYPE_def linktype_to_dlt_def linktype_map_def)
  have t: "take 4 (header_enc be KUZNETZOV_TCPDUMP_MAGIC 0 0x7fffffff 1) = enc32 be KUZNETZOV_TCPDUMP_MAGIC"
    "drop 4 (header_enc be KUZNETZOV_TCPDUMP_MAGIC 0 0x7fffffff 1) = ?b" "take 20 ?b = ?b" "drop 20 ?b = []" "length ?b = 20"
    by (simp_all add: header_enc_def)
  show ?thesis
    unfolding pcap_fopen_offline_def fread_def Let_def stream.simps t prod.case
    unfolding pcap_check_header_def check_magic_enc [OF m] option.case prod.case fread_def Let_def stream.simps t h o
    by simp
qed

end
