(* ===== verification/Pcap_Offline.thy ===== *)
theory Pcap_Offline
  imports Pcap_File Bpf
begin

text \<open>
  Reading a capture file through a filter (\<open>pcap_offline_read\<close> in \<^verbatim>\<open>savefile.c\<close>), where the reader of
  theory \<open>Pcap_File\<close> and the filter interpreter of theory \<open>Bpf\<close> meet. The user's callback is the parameter \<open>cb\<close>: it
  gets a packet and its own state and returns the new state and whether it called
  \<^verbatim>\<open>pcap_breakloop\<close>. The number of packets, a C \<^verbatim>\<open>int\<close>, is an integer. \<open>mem0\<close> is what the filter's
  scratch memory holds at first, \<open>env\<close> holds the system's constants. \<open>None\<close> is a filter that aborts, is undefined or does not return.
\<close>

definition verdict :: "bpf_env \<Rightarrow> u32 list \<Rightarrow> bpf_insn list option \<Rightarrow> pkthdr \<Rightarrow> byte list \<Rightarrow> bool option" where
  "verdict env mem0 fcode h d =
     (case fcode of None \<Rightarrow> Some True
      | Some f \<Rightarrow>
          (case bpf_filter (env\<lparr>pkt := d, wirelen := wire_len h, buflen := caplen h\<rparr>) mem0 (Some f) of
             Some (Ret v) \<Rightarrow> Some (v \<noteq> 0) | _ \<Rightarrow> None))"

type_synonym 'u callback = "pkthdr \<Rightarrow> byte list \<Rightarrow> 'u \<Rightarrow> 'u \<times> bool"

lemma next_packet_shrinks:
  assumes "pcap_next_packet alloc p tsize f = (Packet h d, tsize', f')"
  shows "length (bytes f') < length (bytes f)"
proof -
  have "length (bytes f2) \<le> length (bytes f1)" if "read_data alloc p h0 ts f1 = (x, ts2, f2)" for h0 ts f1 x ts2 f2
    using that by (auto simp: read_data_def Let_def fread_def split: if_splits)
  then have r: "read_data alloc p h0 ts f1 = (x, ts2, f2) \<Longrightarrow> length (bytes f2) \<le> length (bytes f1)" for h0 ts f1 x ts2 f2
    by blast
  have "length (take (hdrsize p) (bytes f)) = hdrsize p"
    using assms by (auto simp: pcap_next_packet_def fread_def simp del: length_take split: if_splits)
  moreover have "0 < hdrsize p" by (simp add: hdrsize_def)
  ultimately have "length (drop (hdrsize p) (bytes f)) < length (bytes f)" by simp
  moreover have "length (bytes f') \<le> length (drop (hdrsize p) (bytes f))"
    using assms by (auto simp: pcap_next_packet_def fread_def Let_def dest!: r simp del: length_take length_drop
        split: if_splits prod.splits sum.splits option.splits)
  ultimately show ?thesis by simp
qed

function offline_loop ::
  "(nat \<Rightarrow> bool) \<Rightarrow> bpf_env \<Rightarrow> u32 list \<Rightarrow> pcap \<Rightarrow> bpf_insn list option \<Rightarrow> int \<Rightarrow> 'u callback \<Rightarrow>
   int \<Rightarrow> 'u \<Rightarrow> bool \<Rightarrow> u32 \<Rightarrow> stream \<Rightarrow> (int \<times> 'u \<times> bool \<times> u32 \<times> stream) option" where
  "offline_loop alloc env mem0 p fcode cnt cb n u brk tsize f =
     (if brk then (if n = 0 then Some (-2, u, False, tsize, f) else Some (n, u, True, tsize, f))
      else (case pcap_next_packet alloc p tsize f of
        (Eof, ts, f') \<Rightarrow> Some (0, u, brk, ts, f')
      | (Next_error e, ts, f') \<Rightarrow> Some (-1, u, brk, ts, f')
      | (Next_undef, ts, f') \<Rightarrow> None
      | (Packet h d, ts, f') \<Rightarrow>
          (case verdict env mem0 fcode h d of None \<Rightarrow> None
           | Some v \<Rightarrow>
               if v then
                 let (u', b) = cb h d u in
                 if n + 1 \<ge> cnt \<and> cnt > 0 then Some (n + 1, u', b, ts, f')
                 else offline_loop alloc env mem0 p fcode cnt cb (n + 1) u' b ts f'
               else offline_loop alloc env mem0 p fcode cnt cb n u brk ts f')))"
  by pat_completeness auto
termination
  by (relation "measure (\<lambda>(alloc, env, mem0, p, fcode, cnt, cb, n, u, brk, ts, f). length (bytes f))")
    (auto dest!: next_packet_shrinks [OF sym])

declare offline_loop.simps [simp del]

definition pcap_offline_read ::
  "(nat \<Rightarrow> bool) \<Rightarrow> bpf_env \<Rightarrow> u32 list \<Rightarrow> pcap \<Rightarrow> bpf_insn list option \<Rightarrow> int \<Rightarrow> 'u callback \<Rightarrow>
   'u \<Rightarrow> bool \<Rightarrow> u32 \<Rightarrow> stream \<Rightarrow> (int \<times> 'u \<times> bool \<times> u32 \<times> stream) option" where
  "pcap_offline_read alloc env mem0 p fcode cnt cb u brk tsize f = offline_loop alloc env mem0 p fcode cnt cb 0 u brk tsize f"

subsection \<open>The filter on what the reader returns\<close>

text \<open>The conditions of \<open>bpf_filter_total\<close>, under which a filter always has a verdict.\<close>

definition total_filter :: "bpf_insn list \<Rightarrow> bool" where
  "total_filter f \<longleftrightarrow> bpf_validate f \<and> length f < 2 ^ 31 \<and> list_all shift_safe f \<and> list_all forward f \<and> list_all known f"

definition fcode_ok :: "bpf_insn list option \<Rightarrow> bool" where
  "fcode_ok fcode \<longleftrightarrow> (case fcode of None \<Rightarrow> True | Some f \<Rightarrow> total_filter f)"

lemma verdict_total:
  assumes "fcode_ok fcode" "length mem0 = 16" "unat (caplen h) \<le> length d"
  shows "\<exists>v. verdict env mem0 fcode h d = Some v"
proof (cases fcode)
  case (Some f)
  let ?e = "env\<lparr>pkt := d, wirelen := wire_len h, buflen := caplen h\<rparr>\<lparr>aux_data := None\<rparr>"
  have f: "bpf_validate f" "length f < 2 ^ 31" "list_all shift_safe f" "list_all forward f" "list_all known f"
    using assms(1) by (simp_all add: Some fcode_ok_def total_filter_def)
  have "unat (buflen ?e) \<le> length (pkt ?e)" using assms(3) by simp
  from bpf_filter_total_ok [OF f this assms(2)] obtain v where "bpf_filter_with_aux_data ?e mem0 (Some f) = Some (Ret v)" by blast
  then show ?thesis by (simp add: verdict_def Some bpf_filter_def)
qed (auto simp: verdict_def intro: exI [of _ True])

lemma offline_loop_total:
  assumes p: "pcap_ok p" and fc: "fcode_ok fcode" and m: "length mem0 = 16"
  shows "\<exists>r. offline_loop alloc env mem0 p fcode cnt cb n u brk ts f = Some r"
proof (induction "length (bytes f)" arbitrary: n u brk ts f rule: less_induct)
  case less
  obtain r ts' f' where n: "pcap_next_packet alloc p ts f = (r, ts', f')" by (metis prod_cases3)
  from next_packet_ok [OF p n] have ok: "r \<noteq> Next_undef" "\<And>h d. r = Packet h d \<Longrightarrow> length d = unat (caplen h)"
    by blast+
  show ?case
  proof (cases r)
    case (Packet h d)
    then obtain v where v: "verdict env mem0 fcode h d = Some v"
      using verdict_total [OF fc m] ok(2) by (metis order_refl)
    have l: "length (bytes f') < length (bytes f)"
      using next_packet_shrinks n Packet by blast
    obtain u' b where cb: "cb h d u = (u', b)" by (cases "cb h d u")
    show ?thesis
      using less [OF l] by (subst offline_loop.simps) (auto simp: n Packet v cb Let_def)
  next
    case Eof
    then show ?thesis by (subst offline_loop.simps) (auto simp: n simp del: ex_simps split_paired_Ex)
  next
    case (Next_error e)
    then show ?thesis by (subst offline_loop.simps) (auto simp: n simp del: ex_simps split_paired_Ex)
  qed (use ok(1) in simp)
qed



subsection \<open>What the callback sees\<close>

definition accepted :: "bpf_env \<Rightarrow> u32 list \<Rightarrow> bpf_insn list option \<Rightarrow> (pkthdr \<times> byte list) list \<Rightarrow> (pkthdr \<times> byte list) list" where
  "accepted env mem0 fcode pkts = filter (\<lambda>(h, d). verdict env mem0 fcode h d = Some True) pkts"

lemma offline_loop_enc:
  assumes p: "plain_handle be p" "\<not> be \<or> \<not> has_pseudo_header (dlt p)" and fc: "fcode_ok fcode" and m: "length mem0 = 16"
    and c: "cnt \<le> 0"
  shows "list_all (pkt_ok (bufsize p)) pkts \<Longrightarrow>
    offline_loop alloc env mem0 p fcode cnt (\<lambda>h d u. (g h d u, False)) n u False ts \<lparr>bytes = concat (map (pkt_enc be) pkts), ferr = False\<rparr> =
      Some (0, foldl (\<lambda>u (h, d). g h d u) u (accepted env mem0 fcode pkts), False, ts, \<lparr>bytes = [], ferr = False\<rparr>)"
proof (induction pkts arbitrary: n u)
  case Nil
  have "0 < hdrsize p" by (simp add: hdrsize_def)
  then show ?case by (subst offline_loop.simps) (simp add: pcap_next_packet_def fread_def accepted_def)
next
  case (Cons x pkts)
  obtain h d where x: "x = (h, d)" by (cases x)
  have ok: "pkt_ok (bufsize p) (h, d)" using Cons.prems by (simp add: x)
  then have "unat (caplen h) \<le> length d" by (simp add: pkt_ok_def)
  then obtain v where v: "verdict env mem0 fcode h d = Some v" using verdict_total [OF fc m] by blast
  have n: "pcap_next_packet alloc p ts \<lparr>bytes = concat (map (pkt_enc be) ((h, d) # pkts)), ferr = False\<rparr> =
      (Packet h d, ts, \<lparr>bytes = concat (map (pkt_enc be) pkts), ferr = False\<rparr>)"
    using next_packet_enc [OF p(1) ok p(2), of alloc ts "concat (map (pkt_enc be) pkts)" False] by simp
  show ?case
    using Cons c by (subst offline_loop.simps) (simp add: x n [simplified] v Let_def accepted_def)
qed




end
