(* ===== verification/Mg_Http_Serve.thy ===== *)
theory Mg_Http_Serve
  imports Mg_Http
begin

text \<open>
  Serving files (\<open>mg_http_serve_file\<close>, \<open>static_cb\<close> and their helpers in \<^verbatim>\<open>src/http.c\<close> of mongoose). The
  file system is the parameter \<open>fs\<close>: what \<^verbatim>\<open>stat\<close> says of a path, and the contents that opening it
  gives; a read returns as many bytes as asked for while there are any. An open file is the rest
  of its contents. \<open>z\<close> is the byte that \<open>mg_match\<close> may read behind a header. The clock and the
  allocator are as in theory \<open>Mg_Http\<close>. \<open>None\<close> is a read outside of the received bytes.
\<close>

record fs =
  fs_st :: "byte list \<Rightarrow> (nat \<times> int) option"
  fs_op :: "byte list \<Rightarrow> byte list option"

record serve_opts =
  extra_headers :: "byte list option"
  mime_types :: "byte list option"
  page404 :: "byte list option"

abbreviation MG_PATH_MAX :: nat where "MG_PATH_MAX \<equiv> 4096"
abbreviation MG_IO_SIZE :: nat where "MG_IO_SIZE \<equiv> 512"

subsection \<open>Content types\<close>

definition s_known_types :: "(string \<times> string) list" where
  "s_known_types = [
    (''html'', ''text/html; charset=utf-8''),
    (''htm'', ''text/html; charset=utf-8''),
    (''css'', ''text/css; charset=utf-8''),
    (''js'', ''text/javascript; charset=utf-8''),
    (''mjs'', ''text/javascript; charset=utf-8''),
    (''gif'', ''image/gif''),
    (''png'', ''image/png''),
    (''jpg'', ''image/jpeg''),
    (''jpeg'', ''image/jpeg''),
    (''woff'', ''font/woff''),
    (''ttf'', ''font/ttf''),
    (''svg'', ''image/svg+xml''),
    (''txt'', ''text/plain; charset=utf-8''),
    (''avi'', ''video/x-msvideo''),
    (''csv'', ''text/csv''),
    (''doc'', ''application/msword''),
    (''exe'', ''application/octet-stream''),
    (''gz'', ''application/gzip''),
    (''ico'', ''image/x-icon''),
    (''json'', ''application/json''),
    (''mov'', ''video/quicktime''),
    (''mp3'', ''audio/mpeg''),
    (''mp4'', ''video/mp4''),
    (''mpeg'', ''video/mpeg''),
    (''pdf'', ''application/pdf''),
    (''shtml'', ''text/html; charset=utf-8''),
    (''tgz'', ''application/tar-gz''),
    (''wav'', ''audio/wav''),
    (''webp'', ''image/webp''),
    (''zip'', ''application/zip''),
    (''3gp'', ''video/3gpp'')]"

text \<open>The path's extension: what follows its last dot, or all of it.\<close>

definition path_ext :: "byte list \<Rightarrow> byte list" where
  "path_ext path = rev (takeWhile (\<lambda>c. c \<noteq> 0x2E) (rev path))"

function mime_override :: "bool \<Rightarrow> byte list \<Rightarrow> byte list \<Rightarrow> byte list option" where
  "mime_override sg ext s =
     (case mg_span s 0x2C of None \<Rightarrow> None
      | Some (entry, s') \<Rightarrow>
          (case mg_span entry 0x3D of None \<Rightarrow> mime_override sg ext s'
           | Some (k, v) \<Rightarrow>
               if mg_strcmp sg (cstr ''*'') k = 0 \<or> mg_strcmp sg ext k = 0 then Some v
               else mime_override sg ext s'))"
  by pat_completeness auto
termination
  by (relation "measure (\<lambda>(sg, ext, s). length s)") (auto dest: mg_span_shorter [OF sym] mg_span_shorter)

declare mime_override.simps [simp del]

definition guess_content_type :: "bool \<Rightarrow> byte list \<Rightarrow> byte list option \<Rightarrow> byte list" where
  "guess_content_type sg path extra =
     (let ext = path_ext path in
      case mime_override sg ext (case extra of None \<Rightarrow> [] | Some e \<Rightarrow> e) of
        Some v \<Rightarrow> v
      | None \<Rightarrow>
          (case find (\<lambda>(k, v). mg_strcmp sg ext (cstr k) = 0) s_known_types of
             Some (k, v) \<Rightarrow> cstr v
           | None \<Rightarrow> cstr ''text/plain; charset=utf-8''))"

subsection \<open>Ranges\<close>

text \<open>How many numbers of the rng were parsed, and the two numbers, which are 0 before.\<close>

definition getrange :: "byte list \<Rightarrow> nat \<times> nat \<times> nat" where
  "getrange s =
     (case find (\<lambda>i. take 6 (drop i s) = cstr ''bytes='') [0..<length s - 6] of
        None \<Rightarrow> (0, 0, 0)
      | Some i \<Rightarrow>
          (let v = drop (i + 6) s in
           case mg_span v 0x2D of
             Some (k, v') \<Rightarrow>
               (let a = mg_to_size_t k; b = (if v' \<noteq> [] then mg_to_size_t v' else None) in
                ((if a = None then 0 else 1) + (if b = None then 0 else 1),
                 case a of None \<Rightarrow> 0 | Some x \<Rightarrow> x, case b of None \<Rightarrow> 0 | Some x \<Rightarrow> x))
           | None \<Rightarrow>
               (case mg_to_size_t v of None \<Rightarrow> (0, 0, 0) | Some x \<Rightarrow> (1, x, 0))))"

text \<open>
  The effect of the \<open>Range\<close> header on a file of \<open>sz\<close> bytes: status, number of bytes to send, first byte
  and the header line. The arithmetic is that of \<^verbatim>\<open>size_t\<close>.
\<close>

definition range_reply :: "byte list option \<Rightarrow> nat \<Rightarrow> nat \<times> nat \<times> nat \<times> byte list" where
  "range_reply rh sz =
     (case rh of None \<Rightarrow> (200, sz, 0, [])
      | Some s \<Rightarrow>
          (let (n, r1, r2) = getrange s in
           if n = 0 then (200, sz, 0, [])
           else let r2' = (if n = 1 then szt (2 ^ 64 + sz - 1) else r2) in
             if r1 > r2' \<or> r2' \<ge> sz then
               (416, 0, 0, cstr (snprintf 100 (''Content-Range: bytes */'' @ dec_nat sz @ [CHR 0x0D, CHR 0x0A])))
             else let cl = r2' - r1 + 1 in
               (206, cl, r1, cstr (snprintf 100 (''Content-Range: bytes '' @ dec_nat r1 @ ''-'' @
                  dec_nat (r1 + cl - 1) @ ''/'' @ dec_nat sz @ [CHR 0x0D, CHR 0x0A])))))"

subsection \<open>Serving\<close>

definition mg_http_etag :: "nat \<Rightarrow> int \<Rightarrow> byte list" where
  "mg_http_etag sz mtime = cstr (snprintf 64 ([CHR 0x22] @ dec_int mtime @ ''.'' @ dec_nat sz @ [CHR 0x22]))"

definition header_text :: "bool \<Rightarrow> byte list \<Rightarrow> mg_http_message \<Rightarrow> string \<Rightarrow> byte list option option" where
  "header_text sg b hm name = map_option (map_option (text_of b)) (mg_http_get_header sg b (headers hm) (cstr name))"

text \<open>Which file is opened for \<open>path\<close>: its name, its contents, and whether it is the compressed one.\<close>

definition open_gz :: "byte \<Rightarrow> fs \<Rightarrow> byte list option \<Rightarrow> byte list \<Rightarrow> (byte list \<times> byte list) option option" where
  "open_gz z fs ae path =
     (case ae of None \<Rightarrow> Some None
      | Some v \<Rightarrow>
          (case mg_match z v (cstr ''*gzip*'') of None \<Rightarrow> None
           | Some False \<Rightarrow> Some None
           | Some True \<Rightarrow>
               let tmp = take (MG_PATH_MAX - 1) (path @ cstr ''.gz'') in
               Some (map_option (\<lambda>d. (tmp, d)) (fs_op fs tmp))))"

definition reply_head :: "nat \<Rightarrow> byte list \<Rightarrow> byte list \<Rightarrow> nat \<Rightarrow> bool \<Rightarrow> byte list \<Rightarrow> byte list \<Rightarrow> byte list" where
  "reply_head status mime etag cl gzip rng extra =
     cstr ''HTTP/1.1 '' @ cstr (dec_nat status) @ cstr '' '' @ cstr (mg_http_status_code_str status) @ crlf @
     cstr ''Content-Type: '' @ mime @ crlf @
     cstr ''Etag: '' @ etag @ crlf @
     cstr ''Content-Length: '' @ cstr (dec_nat cl) @ crlf @
     (if gzip then cstr ''Content-Encoding: gzip'' @ crlf else []) @ rng @ extra @ crlf"

definition serve_open ::
  "bool \<Rightarrow> byte list \<Rightarrow> mg_http_message \<Rightarrow> http_conn \<Rightarrow> fs \<Rightarrow> byte list \<Rightarrow> byte list \<Rightarrow> bool \<Rightarrow> serve_opts \<Rightarrow> byte list option \<Rightarrow> http_conn option" where
  "serve_open sg b hm c fs path mime gzip opts fd =
     (let extra = (case extra_headers opts of None \<Rightarrow> [] | Some e \<Rightarrow> e) in
      case (fd, fs_st fs path) of
        (Some d, Some (sz, mtime)) \<Rightarrow>
          (let etag = mg_http_etag sz mtime in
           case header_text sg b hm ''If-None-Match'' of None \<Rightarrow> None
           | Some inm \<Rightarrow>
               if (case inm of None \<Rightarrow> False | Some v \<Rightarrow> mg_strcasecmp sg v etag = 0)
               then Some (mg_http_reply c 304 extra [])
               else (case header_text sg b hm ''Range'' of None \<Rightarrow> None
                 | Some rh \<Rightarrow>
                     (let (status, cl, r1, rng) = range_reply rh sz;
                          c1 = c\<lparr>send := send c @ reply_head status mime etag cl gzip rng extra\<rparr>
                      in Some (if mg_strcasecmp sg (text_of b (http_method hm)) (cstr ''HEAD'') = 0
                               then c1\<lparr>is_resp := False\<rparr>
                               else c1\<lparr>pfn := STATIC_CB (drop r1 d) cl\<rparr>))))
      | _ \<Rightarrow> Some (mg_http_reply c 404 extra (cstr ''Not found'' @ [0x0A])))"

definition mg_http_serve_file ::
  "bool \<Rightarrow> byte \<Rightarrow> fs \<Rightarrow> byte list \<Rightarrow> mg_http_message \<Rightarrow> byte list \<Rightarrow> serve_opts \<Rightarrow> http_conn \<Rightarrow> http_conn option" where
  "mg_http_serve_file sg z fs b hm path opts c =
     (let mime = guess_content_type sg path (mime_types opts) in
      case header_text sg b hm ''Accept-Encoding'' of None \<Rightarrow> None
      | Some ae \<Rightarrow>
          (case open_gz z fs ae path of None \<Rightarrow> None
           | Some (Some (tmp, d)) \<Rightarrow> serve_open sg b hm c fs tmp mime True opts (Some d)
           | Some None \<Rightarrow>
               (case (fs_op fs path, page404 opts) of
                  (None, Some p) \<Rightarrow>
                    serve_open sg b hm c fs p (guess_content_type sg p (mime_types opts)) False opts (fs_op fs p)
                | (fd, _) \<Rightarrow> serve_open sg b hm c fs path mime False opts fd)))"

text \<open>
  \<open>static_cb\<close> on a connection whose send buffer has room for \<open>sz\<close> bytes: the next piece of the file
  goes into the buffer, and the HTTP handler is put back when there is none.
\<close>

definition restore_http_cb :: "http_conn \<Rightarrow> http_conn" where
  "restore_http_cb c = c\<lparr>pfn := HTTP_CB, is_resp := False\<rparr>"

definition static_cb :: "http_conn \<Rightarrow> nat \<Rightarrow> mg_ev \<Rightarrow> http_conn" where
  "static_cb c sz ev =
     (case pfn c of
        STATIC_CB d cl \<Rightarrow>
          if ev = MG_EV_WRITE \<or> ev = MG_EV_POLL then
            let sz' = max sz MG_IO_SIZE in
            if length (send c) \<ge> sz' then c
            else let space = min (sz' - length (send c)) cl;
                     p = take space d;
                     c1 = c\<lparr>send := send c @ p, pfn := STATIC_CB (drop space d) (cl - length p)\<rparr>
                 in if p = [] then restore_http_cb c1 else c1
          else if ev = MG_EV_CLOSE then restore_http_cb c
          else c
      | _ \<Rightarrow> c)"

subsection \<open>Ranges stay inside the file\<close>

lemma range_reply_inside:
  assumes "range_reply rh sz = (status, cl, r1, rng)" "sz < 2 ^ 64"
  shows "r1 + cl \<le> sz \<and> (status = 206 \<longrightarrow> 0 < cl) \<and> (status = 200 \<longrightarrow> r1 = 0 \<and> cl = sz) \<and> (status = 416 \<longrightarrow> cl = 0)"
proof (cases rh)
  case (Some s)
  obtain n a b where g: "getrange s = (n, a, b)" by (metis prod_cases3)
  show ?thesis using assms by (auto simp: range_reply_def Some g Let_def split: if_splits)
qed (use assms in \<open>auto simp: range_reply_def\<close>)

text \<open>
  C30: Whatever range a client asks for, the bytes it is sent lie inside the file: the first byte and
  the length that the reply announces never reach past the end, a partial reply is not empty, and a
  refused one is.
\<close>

theorem range_reply_bounds:
  assumes "range_reply rh sz = (status, cl, r1, rng)" "sz < 2 ^ 64"
  shows "r1 + cl \<le> sz \<and> (status = 206 \<longrightarrow> 0 < cl) \<and> (status = 200 \<longrightarrow> r1 = 0 \<and> cl = sz) \<and> (status = 416 \<longrightarrow> cl = 0)"
  using assms by (rule range_reply_inside)

lemma getrange_sample: "getrange (cstr ''bytes=2-5'') = (2, 2, 5)"
  by (simp add: getrange_def mg_span_def mg_to_size_t_def num_loop.simps digit10_def is_digit_def is_blank_def upt_rec)

theorem range_reply_bounds_witness:
  "\<exists>cl r1 rng. range_reply (Some (cstr ''bytes=2-5'')) 10 = (206, cl, r1, rng) \<and> r1 + cl \<le> 10 \<and> 0 < cl"
proof -
  obtain st cl r1 rng where r: "range_reply (Some (cstr ''bytes=2-5'')) 10 = (st, cl, r1, rng)" by (metis prod_cases4)
  moreover have "st = 206" using r by (simp add: range_reply_def getrange_sample del: cstr_Cons)
  ultimately show ?thesis using range_reply_bounds [OF r] by auto
qed

text \<open>A request for the last 500 bytes is answered with the whole file.\<close>

lemma getrange_suffix: "getrange (cstr ''bytes=-500'') = (1, 0, 500)"
  by (simp add: getrange_def mg_span_def mg_to_size_t_def num_loop.simps digit10_def is_digit_def is_blank_def upt_rec)

lemma suffix_range_whole_file:
  assumes "0 < sz" "sz < 2 ^ 64"
  shows "\<exists>rng. range_reply (Some (cstr ''bytes=-500'')) sz = (206, sz, 0, rng)"
proof -
  have "2 ^ 64 + sz - 1 = 2 ^ 64 + (sz - 1)" using assms(1) by simp
  then have "szt (2 ^ 64 + sz - 1) = sz - 1" using assms by (simp only: szt_def mod_add_self1) simp
  then show ?thesis using assms by (simp add: range_reply_def getrange_suffix Let_def del: cstr_Cons)
qed

subsection \<open>The file on the wire\<close>

text \<open>
  A file transfer: the event loop lets \<open>static_cb\<close> fill the send buffer, whatever room it has, or the
  network takes any number of bytes out of it; \<open>w\<close> is what was taken so far.
\<close>

inductive transfer :: "byte list \<times> http_conn \<Rightarrow> byte list \<times> http_conn \<Rightarrow> bool" where
  fill: "transfer (w, c) (w, static_cb c sz ev)" if "ev \<noteq> MG_EV_CLOSE"
| drain: "transfer (w, c) (w @ take n (send c), c\<lparr>send := drop n (send c)\<rparr>)"

inductive_cases transferE: "transfer (w, c) s"

definition pending :: "byte list \<Rightarrow> http_conn \<Rightarrow> byte list option" where
  "pending w c = (case pfn c of STATIC_CB d cl \<Rightarrow> Some (w @ send c @ take cl d) | _ \<Rightarrow> None)"

definition transfer_inv :: "byte list \<Rightarrow> byte list \<times> http_conn \<Rightarrow> bool" where
  "transfer_inv all s \<longleftrightarrow> (case s of (w, c) \<Rightarrow>
     (case pfn c of STATIC_CB d cl \<Rightarrow> w @ send c @ take cl d = all
      | HTTP_CB \<Rightarrow> w @ send c = all \<and> \<not> is_resp c | NO_PFN \<Rightarrow> False))"

lemma static_cb_inv:
  assumes "transfer_inv all (w, c)" "ev \<noteq> MG_EV_CLOSE"
  shows "transfer_inv all (w, static_cb c sz ev)"
proof (cases "pfn c")
  case (STATIC_CB d cl)
  define space where "space = min (max sz MG_IO_SIZE - length (send c)) cl"
  have all: "w @ send c @ take cl d = all" using assms(1) by (simp add: transfer_inv_def STATIC_CB)
  have le: "space \<le> cl" by (simp add: space_def)
  have split: "take space d @ take (cl - length (take space d)) (drop space d) = take cl d"
  proof (cases "space \<le> length d")
    case True
    then show ?thesis using le by (metis le_add_diff_inverse length_take min.absorb2 take_add)
  qed (use le in auto)
  show ?thesis
  proof (cases "(ev = MG_EV_WRITE \<or> ev = MG_EV_POLL) \<and> length (send c) < max sz MG_IO_SIZE")
    case True
    show ?thesis
    proof (cases "take space d = []")
      case empty: True
      then have "take cl d = []" using True by (auto simp: space_def min_def split: if_splits)
      then show ?thesis using True empty all
        by (auto simp: static_cb_def STATIC_CB Let_def restore_http_cb_def transfer_inv_def space_def [symmetric] not_le)
    next
      case False
      then show ?thesis using True all split
        by (auto simp: static_cb_def STATIC_CB Let_def transfer_inv_def space_def [symmetric] not_le)
    qed
  next
    case False
    then have "static_cb c sz ev = c" using assms(2) by (auto simp: static_cb_def STATIC_CB Let_def)
    then show ?thesis using assms(1) by simp
  qed
qed (use assms in \<open>simp_all add: static_cb_def transfer_inv_def\<close>)

lemma transfer_step_inv: "transfer s s' \<Longrightarrow> transfer_inv all s \<Longrightarrow> transfer_inv all s'"
proof (induction rule: transfer.induct)
  case (fill ev w c sz)
  then show ?case by (simp add: static_cb_inv)
next
  case (drain w c n)
  have "take n (send c) @ drop n (send c) = send c" by simp
  then show ?case using drain by (auto simp: transfer_inv_def split: pfn.splits)
qed

lemma transfers_inv: "transfer\<^sup>*\<^sup>* s s' \<Longrightarrow> transfer_inv all s \<Longrightarrow> transfer_inv all s'"
  by (induction rule: rtranclp_induct) (auto intro: transfer_step_inv)


text \<open>
  C15: However the event loop and the network take turns, what a client receives while a file is sent
  is what was pending before followed by the file's bytes, in order and without gaps, as far as the
  announced length goes; and when the connection is given back to the HTTP handler, all of it has
  been sent or is in the send buffer.
\<close>

theorem file_transfer:
  assumes "transfer\<^sup>*\<^sup>* ([], c) (w, c')" "pfn c = STATIC_CB d cl"
  shows "(case pfn c' of STATIC_CB d' cl' \<Rightarrow> w @ send c' @ take cl' d' = send c @ take cl d
     | HTTP_CB \<Rightarrow> w @ send c' = send c @ take cl d \<and> \<not> is_resp c' | NO_PFN \<Rightarrow> False)"
  using transfers_inv [OF assms(1), of "send c @ take cl d"] assms(2) by (simp add: transfer_inv_def)

theorem file_transfer_witness:
  "\<exists>w c'. transfer\<^sup>*\<^sup>* ([], conn0 []\<lparr>send := [1], pfn := STATIC_CB [2, 3, 4] 2\<rparr>) (w, c') \<and> w @ send c' = [1, 2, 3] \<and> \<not> is_resp c'"
proof -
  let ?c = "conn0 []\<lparr>send := [1], pfn := STATIC_CB [2, 3, 4] 2\<rparr>"
  let ?c1 = "static_cb ?c 0 MG_EV_POLL"
  let ?c2 = "?c1\<lparr>send := drop 2 (send ?c1)\<rparr>"
  let ?c3 = "static_cb ?c2 0 MG_EV_WRITE"
  have "transfer ([], ?c) ([], ?c1)" by (rule transfer.fill) simp
  moreover have "transfer ([], ?c1) ([] @ take 2 (send ?c1), ?c2)" by (rule transfer.drain)
  moreover have "transfer ([] @ take 2 (send ?c1), ?c2) ([] @ take 2 (send ?c1), ?c3)" by (rule transfer.fill) simp
  ultimately have t: "transfer\<^sup>*\<^sup>* ([], ?c) ([] @ take 2 (send ?c1), ?c3)"
    by (meson converse_rtranclp_into_rtranclp rtranclp.rtrancl_refl)
  have p: "pfn ?c = STATIC_CB [2, 3, 4] 2" by simp
  have "pfn ?c3 = HTTP_CB" by (simp add: static_cb_def conn0_def Let_def restore_http_cb_def)
  with file_transfer [OF t p] have "([] @ take 2 (send ?c1)) @ send ?c3 = send ?c @ take 2 [2, 3, 4] \<and> \<not> is_resp ?c3" by simp
  then show ?thesis using t by (intro exI conjI) (assumption, auto)
qed

subsection \<open>Serving a parsed request\<close>

lemma header_text_lookup:
  assumes "is_message b hm m u hs bdy" "0 \<notin> set (cstr name)"
  shows "header_text sg b hm name = Some (lookup hs (cstr name))"
proof -
  have w: "list_all (\<lambda>(k, v). 0 < slen k \<and> within (length b) k \<and> within (length b) v) (headers hm)"
    and h: "map (\<lambda>(k, v). (text_of b k, text_of b v)) (headers hm) = hs"
    using assms(1) unfolding is_message_def by blast+
  show ?thesis using mg_http_get_header_lookup [OF w assms(2), of sg] unfolding h by (auto simp: header_text_def)
qed

lemma match_total: "\<exists>r. mg_match z s p = Some r"
  unfolding mg_match_def by (rule mg_match_loop_total) (simp add: match_inv_def)

lemma open_gz_total: "\<exists>r. open_gz z fs ae path = Some r"
proof (cases ae)
  case (Some v)
  obtain r where "mg_match z v (cstr ''*gzip*'') = Some r" using match_total by blast
  then show ?thesis by (cases r) (simp_all add: open_gz_def Some Let_def del: cstr_Cons)
qed (simp add: open_gz_def)

text \<open>
  A served file, as an equation: without compression, validators and ranges in the request, a file
  that is there is sent as it is.
\<close>

lemma serve_plain:
  assumes "is_message b hm m u hs bdy" "lookup hs (cstr ''Accept-Encoding'') = None"
    and "lookup hs (cstr ''If-None-Match'') = None" "lookup hs (cstr ''Range'') = None"
    and "fs_op fs path = Some d" "fs_st fs path = Some (sz, mtime)" "mg_strcasecmp sg m (cstr ''HEAD'') \<noteq> 0"
    and "extra_headers opts = None"
  shows "mg_http_serve_file sg z fs b hm path opts c =
    Some (c\<lparr>send := send c @ reply_head 200 (guess_content_type sg path (mime_types opts)) (mg_http_etag sz mtime) sz False [] [],
      pfn := STATIC_CB d sz\<rparr>)"
proof -
  have n: "0 \<notin> set (cstr ''Accept-Encoding'')" "0 \<notin> set (cstr ''If-None-Match'')" "0 \<notin> set (cstr ''Range'')" by simp_all
  note h = header_text_lookup [OF assms(1) n(1)] header_text_lookup [OF assms(1) n(2)] header_text_lookup [OF assms(1) n(3)]
  have m: "text_of b (http_method hm) = m" using assms(1) unfolding is_message_def by blast
  show ?thesis
    unfolding mg_http_serve_file_def h assms(2) Let_def option.case open_gz_def assms(5)
    by (simp add: serve_open_def h assms m range_reply_def Let_def del: cstr_Cons)
qed

text \<open>
  Serving a file to a parsed request never reads outside of the received bytes, whatever headers
  the request has.
\<close>

lemma serve_file_total:
  assumes "is_message b hm m u hs bdy"
  shows "\<exists>c'. mg_http_serve_file sg z fs b hm path opts c = Some c'"
proof -
  have n: "0 \<notin> set (cstr ''Accept-Encoding'')" "0 \<notin> set (cstr ''If-None-Match'')" "0 \<notin> set (cstr ''Range'')" by simp_all
  note h = header_text_lookup [OF assms n(1)] header_text_lookup [OF assms n(2)] header_text_lookup [OF assms n(3)]
  have o: "\<exists>c'. serve_open sg b hm c fs p mime gz opts fd = Some c'" for p mime gz fd
    unfolding serve_open_def h by (auto simp: Let_def split: option.splits prod.splits)
  obtain r where "open_gz z fs (lookup hs (cstr ''Accept-Encoding'')) path = Some r" using open_gz_total by blast
  then show ?thesis unfolding mg_http_serve_file_def h
    using o by (auto simp: Let_def simp del: cstr_Cons split: option.splits prod.splits)
qed

end
