(* ===== verification/Webserver.thy ===== *)
theory Webserver
  imports Mg_Http_Serve
begin

text \<open>
  AdAway's web server (\<^verbatim>\<open>webserver.c\<close>): its settings and their command line, the request handler
  \<open>fn\<close>, the adjustment of the out-of-memory score and the main program. The handler is modelled for
  connections without TLS, on which its first branch does nothing. C strings are byte lists
  without their NUL; a copy behind the end of an array gives \<open>None\<close>.
\<close>

subsection \<open>Settings\<close>

record settings =
  init :: bool
  tls_cert :: "byte list"
  tls_key :: "byte list"
  test_path :: "byte list"
  icon_path :: "byte list"
  icon :: bool
  debug :: bool

definition settings0 :: settings where
  "settings0 = \<lparr>init = False, tls_cert = [], tls_key = [], test_path = [], icon_path = [], icon = False, debug = False\<rparr>"

text \<open>\<open>strcpy\<close> and \<open>strcat\<close> into an array of \<open>cap\<close> characters.\<close>

definition strcpy :: "nat \<Rightarrow> byte list \<Rightarrow> byte list option" where
  "strcpy cap src = (if length src + 1 \<le> cap then Some src else None)"

definition strcat :: "nat \<Rightarrow> byte list \<Rightarrow> byte list \<Rightarrow> byte list option" where
  "strcat cap dst src = (if length dst + length src + 1 \<le> cap then Some (dst @ src) else None)"

definition path_in :: "nat \<Rightarrow> byte list \<Rightarrow> string \<Rightarrow> byte list option" where
  "path_in cap dir name = do { p \<leftarrow> strcpy cap dir; strcat cap p (cstr name) }"

text \<open>\<open>mg_file_read\<close>: a file is read only when it has the length that \<^verbatim>\<open>stat\<close> says.\<close>

definition mg_file_read :: "fs \<Rightarrow> byte list \<Rightarrow> byte list" where
  "mg_file_read fs path =
     (let n = (case fs_st fs path of None \<Rightarrow> 0 | Some (sz, _) \<Rightarrow> sz) in
      case fs_op fs path of None \<Rightarrow> []
      | Some d \<Rightarrow> if length (take n d) \<noteq> n then [] else take n d)"

definition set_resources :: "fs \<Rightarrow> byte list \<Rightarrow> settings \<Rightarrow> settings option" where
  "set_resources fs resource_path s = do {
     cert_path \<leftarrow> path_in 100 resource_path ''/localhost-2410.crt'';
     key_path \<leftarrow> path_in 100 resource_path ''/localhost-2410.key'';
     icon \<leftarrow> path_in 100 resource_path ''/icon.svg'';
     test \<leftarrow> path_in 100 resource_path ''/test.html'';
     Some (s\<lparr>tls_cert := mg_file_read fs cert_path, tls_key := mg_file_read fs key_path,
             icon_path := icon, test_path := test, init := True\<rparr>) }"

fun cli_loop :: "fs \<Rightarrow> byte list list \<Rightarrow> settings \<Rightarrow> settings option" where
  "cli_loop fs [] s = Some s"
| "cli_loop fs (a # as) s =
     (if a = cstr ''--resources'' \<and> as \<noteq> [] then
        (case set_resources fs (hd as) s of None \<Rightarrow> None | Some s' \<Rightarrow> cli_loop fs (tl as) s')
      else if a = cstr ''--icon'' then cli_loop fs as (s\<lparr>icon := True\<rparr>)
      else if a = cstr ''--debug'' then cli_loop fs as (s\<lparr>debug := True\<rparr>)
      else cli_loop fs as s)"

definition parse_cli_parameters :: "fs \<Rightarrow> byte list list \<Rightarrow> settings option" where
  "parse_cli_parameters fs argv = cli_loop fs (drop 1 argv) settings0"

subsection \<open>The request handler\<close>

definition opts0 :: serve_opts where
  "opts0 = \<lparr>extra_headers = None, mime_types = None, page404 = None\<rparr>"

definition fn ::
  "bool \<Rightarrow> byte \<Rightarrow> fs \<Rightarrow> settings option \<Rightarrow> mg_ev \<Rightarrow> byte list \<Rightarrow> mg_http_message \<Rightarrow> http_conn \<Rightarrow> http_conn option" where
  "fn sg z fs fn_data ev b hm c =
     (case fn_data of
        Some s \<Rightarrow>
          if ev = MG_EV_HTTP_MSG then
            if mg_strcmp sg (text_of b (uri hm)) (cstr ''/internal-test'') = 0
            then mg_http_serve_file sg z fs b hm (test_path s) opts0 c
            else if icon s then mg_http_serve_file sg z fs b hm (icon_path s) opts0 c
            else Some (mg_http_reply c 200 [] [])
          else Some c
      | None \<Rightarrow> Some c)"

text \<open>As a handler of theory \<open>Mg_Http\<close>; the message it is called with is never a broken one.\<close>

definition server :: "bool \<Rightarrow> byte \<Rightarrow> fs \<Rightarrow> settings \<Rightarrow> handler" where
  "server sg z fs s ev b hm c = (case fn sg z fs (Some s) ev b hm c of Some c' \<Rightarrow> c' | None \<Rightarrow> c)"

subsection \<open>The out-of-memory score\<close>

datatype oom = Open_error | Read_error | Parse_error | Kept | Write_error | Adjusted int

abbreviation OOM_ADJ_NOKILL :: int where "OOM_ADJ_NOKILL \<equiv> -17"

text \<open>
  \<open>strtol\<close> with base 10 on a line: \<open>None\<close> when there is no digit or the value is out of range; the cast
  to \<^verbatim>\<open>int\<close> keeps the low 32 bits.
\<close>

definition strtol_int :: "byte list \<Rightarrow> int option" where
  "strtol_int s =
     (let s1 = dropWhile (\<lambda>c. c = 0x20 \<or> (0x09 \<le> c \<and> c \<le> 0x0D)) s;
          neg = (s1 \<noteq> [] \<and> hd s1 = 0x2D);
          s2 = (if s1 \<noteq> [] \<and> (hd s1 = 0x2D \<or> hd s1 = 0x2B) then tl s1 else s1);
          ds = takeWhile is_digit s2;
          v = foldl (\<lambda>a c. 10 * a + (uint c - 0x30)) 0 ds;
          r = (if neg then - v else v)
      in if ds = [] \<or> r < - (2 ^ 63) \<or> r \<ge> 2 ^ 63 then None else Some (sint (of_int r :: u32)))"

text \<open>
  \<open>oom_adjust_setup\<close>: \<open>file\<close> is \<open>None\<close> when the file cannot be opened, \<open>Some None\<close> when nothing can be
  read from it; \<open>wok\<close> says whether writing works. The second component is whether the file is closed.
\<close>

definition oom_adjust_setup :: "byte list option option \<Rightarrow> bool \<Rightarrow> oom \<times> bool" where
  "oom_adjust_setup file wok =
     (case file of None \<Rightarrow> (Open_error, True)
      | Some None \<Rightarrow> (Read_error, False)
      | Some (Some line) \<Rightarrow>
          (case strtol_int (take 31 line) of None \<Rightarrow> (Parse_error, True)
           | Some score \<Rightarrow>
               if OOM_ADJ_NOKILL < score then
                 (if wok then (Adjusted OOM_ADJ_NOKILL, True) else (Write_error, True))
               else (Kept, True)))"

subsection \<open>The main program\<close>

text \<open>
  \<open>sigs\<close> is the value of \<open>s_sig_num\<close> each time the loop looks at it. The result is the exit status and
  how often the connections were polled; \<open>None\<close> is a server that is still running, or the overflow
  of an array.
\<close>

fun poll_loop :: "int list \<Rightarrow> nat \<Rightarrow> nat option" where
  "poll_loop [] n = None"
| "poll_loop (g # gs) n = (if g = 0 then poll_loop gs (n + 1) else Some n)"

definition main :: "fs \<Rightarrow> byte list list \<Rightarrow> bool \<Rightarrow> bool \<Rightarrow> int list \<Rightarrow> (int \<times> nat) option" where
  "main fs argv http_ok https_ok sigs =
     (case parse_cli_parameters fs argv of None \<Rightarrow> None
      | Some s \<Rightarrow>
          if \<not> init s then Some (1, 0)
          else if \<not> http_ok then Some (1, 0)
          else if \<not> https_ok then Some (1, 0)
          else map_option (\<lambda>n. (0, n)) (poll_loop sigs 0))"

subsection \<open>The command line\<close>

lemma path_in_iff: "path_in 100 dir name = (if length dir + length name \<le> 99 then Some (dir @ cstr name) else None)"
  by (simp add: path_in_def strcpy_def strcat_def)

lemma set_resources_iff:
  "set_resources fs p s = (if length p \<le> 80 then
     Some (s\<lparr>tls_cert := mg_file_read fs (p @ cstr ''/localhost-2410.crt''),
       tls_key := mg_file_read fs (p @ cstr ''/localhost-2410.key''),
       icon_path := p @ cstr ''/icon.svg'', test_path := p @ cstr ''/test.html'', init := True\<rparr>) else None)"
  by (simp add: set_resources_def path_in_iff)

text \<open>
  C24: The server starts with the resources directory of its command line exactly when the name is at
  most 80 bytes long; a longer one overflows the arrays for the certificate's paths.
\<close>

theorem resources_path_limit:
  "parse_cli_parameters fs [prog, cstr ''--resources'', p] =
     (if length p \<le> 80 then
        Some (settings0\<lparr>tls_cert := mg_file_read fs (p @ cstr ''/localhost-2410.crt''),
          tls_key := mg_file_read fs (p @ cstr ''/localhost-2410.key''),
          icon_path := p @ cstr ''/icon.svg'', test_path := p @ cstr ''/test.html'', init := True\<rparr>)
      else None)"
  by (simp add: parse_cli_parameters_def set_resources_iff del: cstr_Cons)

lemma oom_read_error_leaks: "\<not> snd (oom_adjust_setup (Some None) wok)"
  by (simp add: oom_adjust_setup_def)

lemma oom_score: "oom_adjust_setup (Some (Some (cstr ''0'' @ [0x0A]))) True = (Adjusted (-17), True)"
  by (simp add: oom_adjust_setup_def strtol_int_def is_digit_def)

subsection \<open>From the received bytes to the answer\<close>

lemma mg_strcmp_eq_0: "mg_strcmp sg s t = 0 \<longleftrightarrow> s = t"
  by (induction sg s t rule: mg_strcmp.induct) auto

lemma server_passive: "passive_hdrs (server sg z fs s)"
  by (simp add: passive_hdrs_def server_def fn_def)

lemma http_cb_steps:
  assumes "http_step sg f MG_EV_READ c 0 = Loop (c1, n)" "is_resp c1 \<or> n \<ge> length (recv c1)"
  shows "http_cb sg f c MG_EV_READ = Some (Some (c1\<lparr>recv := drop n (recv c1)\<rparr>))"
proof -
  have b: "http_step sg f MG_EV_READ c1 n = Break (c1, n)" using assms(2) by (auto simp: http_step_def)
  have "http_loop sg f MG_EV_READ c 0 = http_loop sg f MG_EV_READ c1 n"
    by (subst http_loop.simps) (simp add: assms(1))
  also have "\<dots> = Some (Break (c1, n))" by (subst http_loop.simps) (simp add: b)
  finally show ?thesis by (simp add: http_cb_def)
qed

lemma http_cb_break:
  "http_step sg f MG_EV_READ c 0 = Break (c1, n) \<Longrightarrow> http_cb sg f c MG_EV_READ = Some (Some (c1\<lparr>recv := drop n (recv c1)\<rparr>))"
  by (simp add: http_cb_def http_loop.simps)


definition accepted_conn :: "byte list \<Rightarrow> http_conn" where
  "accepted_conn b = (conn0 b)\<lparr>is_accepted := True\<rparr>"

definition test_fs :: fs where
  "test_fs = \<lparr>fs_st = (\<lambda>p. Some (2, 7)), fs_op = (\<lambda>p. Some [0x6F, 0x6B])\<rparr>"





end
