(* ===== verification/Td_Util.thy ===== *)
theory Td_Util
  imports Prelude Fmt
begin

text \<open>
  What the packet printers of tcpdump share (\<^verbatim>\<open>netdissect.h\<close>, \<^verbatim>\<open>extract.h\<close>, \<^verbatim>\<open>util.c\<close> and
  \<open>intoa\<close> of \<^verbatim>\<open>addrtoname.c\<close>): the bounds test on the captured bytes, big-endian reads, and the
  printing of strings, tokens, times and addresses.

  A packet is the list of its captured bytes, a pointer into it is an offset, and
  \<open>ndo_snapend\<close> is the length of the list. A read past it is \<open>None\<close>. A printer appends to the
  output \<open>out\<close> and returns it; where the code returns a pointer that may be NULL, the result
  holds a pointer option.
\<close>

subsection \<open>Bounds and reads\<close>

definition nd_ttest2 :: "byte list \<Rightarrow> nat \<Rightarrow> nat \<Rightarrow> bool" where
  "nd_ttest2 pk cp l \<longleftrightarrow> cp + l \<le> length pk"

definition extract_16bits :: "byte list \<Rightarrow> nat \<Rightarrow> nat option" where
  "extract_16bits pk p = do {
     a \<leftarrow> rd pk p;
     b \<leftarrow> rd pk (p + 1);
     Some (unat a * 2 ^ 8 + unat b) }"

definition extract_32bits :: "byte list \<Rightarrow> nat \<Rightarrow> nat option" where
  "extract_32bits pk p = do {
     a \<leftarrow> rd pk p;
     b \<leftarrow> rd pk (p + 1);
     c \<leftarrow> rd pk (p + 2);
     d \<leftarrow> rd pk (p + 3);
     Some (unat a * 2 ^ 24 + unat b * 2 ^ 16 + unat c * 2 ^ 8 + unat d) }"

lemma extract_16bits_Some: "p + 2 \<le> length pk \<Longrightarrow>
    extract_16bits pk p = Some (unat (pk ! p) * 2 ^ 8 + unat (pk ! (p + 1)))"
  by (simp add: extract_16bits_def)

lemma extract_32bits_Some: "p + 4 \<le> length pk \<Longrightarrow> \<exists>v. extract_32bits pk p = Some v \<and> v < 2 ^ 32"
proof -
  assume "p + 4 \<le> length pk"
  moreover have "unat (pk ! p) < 256" "unat (pk ! (p + 1)) < 256" "unat (pk ! (p + 2)) < 256"
    "unat (pk ! (p + 3)) < 256"
    using unsigned_less [where 'a = nat and 'b = 8] by simp_all
  ultimately show ?thesis by (simp add: extract_32bits_def)
qed

lemma extract_16bits_ex: "p + 2 \<le> length pk \<Longrightarrow> \<exists>v. extract_16bits pk p = Some v"
  by (simp add: extract_16bits_Some)

lemma extract_16bits_less: "extract_16bits pk p = Some v \<Longrightarrow> v < 65536"
proof -
  assume h: "extract_16bits pk p = Some v"
  then have "p + 2 \<le> length pk" by (auto simp: extract_16bits_def rd_def split: bind_splits if_splits)
  moreover have "unat (pk ! p) < 256" "unat (pk ! (p + 1)) < 256"
    using unsigned_less [where 'a = nat and 'b = 8] by simp_all
  ultimately show ?thesis using h by (simp add: extract_16bits_Some)
qed

subsection \<open>Strings\<close>

text \<open>One character as the \<open>fn_print\<close> family prints it.\<close>

definition nd_char :: "byte \<Rightarrow> string" where
  "nd_char c =
     (let pre = (if c AND 0x80 = 0 then '''' else ''M-'');
          c = (if c AND 0x80 = 0 then c else c AND 0x7F) in
      if 0x20 \<le> c \<and> c \<le> 0x7E then pre @ [char_of (unat c)]
      else pre @ CHR ''^'' # [char_of (unat (c XOR 0x40))])"

text \<open>
  \<open>fn_print\<close> stops at a NUL, \<open>fn_printn\<close> after \<open>n\<close> bytes, \<open>fn_printzp\<close> at either; the flag of
  the result is true when the end of the packet came first. The end pointer \<open>ep\<close> is
  \<open>ndo_snapend\<close> in all their uses here.
\<close>

function fn_print :: "byte list \<Rightarrow> string \<Rightarrow> nat \<Rightarrow> (string \<times> bool) option" where
  "fn_print pk out s =
     (if s < length pk then do {
        c \<leftarrow> rd pk s;
        if c = 0 then Some (out, False) else fn_print pk (out @ nd_char c) (s + 1) }
      else Some (out, True))"
  by pat_completeness auto
termination by (relation "measure (\<lambda>(pk, out, s). length pk - s)") auto

fun fn_printn :: "byte list \<Rightarrow> string \<Rightarrow> nat \<Rightarrow> nat \<Rightarrow> (string \<times> bool) option" where
  "fn_printn pk out s 0 = Some (out, False)"
| "fn_printn pk out s (Suc n) =
     (if s < length pk then do {
        c \<leftarrow> rd pk s;
        fn_printn pk (out @ nd_char c) (s + 1) n }
      else Some (out, True))"

fun fn_printzp :: "byte list \<Rightarrow> string \<Rightarrow> nat \<Rightarrow> nat \<Rightarrow> (string \<times> bool) option" where
  "fn_printzp pk out s 0 = Some (out, False)"
| "fn_printzp pk out s (Suc n) =
     (if s < length pk then do {
        c \<leftarrow> rd pk s;
        if c = 0 then Some (out, False) else fn_printzp pk (out @ nd_char c) (s + 1) n }
      else Some (out, True))"

declare fn_print.simps [simp del]

lemma fn_print_ex: "\<exists>out' t. fn_print pk out s = Some (out', t)"
  by (induction pk out s rule: fn_print.induct) (subst fn_print.simps, auto)

lemma fn_printn_ex: "\<exists>out' t. fn_printn pk out s n = Some (out', t)"
  by (induction n arbitrary: out s) auto

lemma fn_printzp_ex: "\<exists>out' t. fn_printzp pk out s n = Some (out', t)"
  by (induction n arbitrary: out s) auto

text \<open>A counted string that is captured in full is printed byte by byte, and reported complete.\<close>

lemma fn_printn_complete:
  "s + n \<le> length pk \<Longrightarrow>
   fn_printn pk out s n = Some (out @ concat (map nd_char (take n (drop s pk))), False)"
proof (induction n arbitrary: out s)
  case (Suc n)
  then have s: "s < length pk" by simp
  have "take (Suc n) (drop s pk) = pk ! s # take n (drop (Suc s) pk)"
    using s by (simp add: drop_eq_Cons)
  then show ?case using Suc s by simp
qed simp

lemma fn_printn_truncated:
  "s \<le> length pk \<Longrightarrow> length pk < s + n \<Longrightarrow>
   fn_printn pk out s n = Some (out @ concat (map nd_char (drop s pk)), True)"
proof (induction n arbitrary: out s)
  case (Suc n)
  then show ?case by (cases "s < length pk") (auto simp: drop_eq_Cons)
qed simp

subsection \<open>Tokens\<close>

text \<open>
  \<open>tok2str\<close>: the string of a value in a table, or the value in a format. The buffer of 128 bytes
  is larger than what any format used here prints.
\<close>

definition tok2str :: "(nat \<times> string) list \<Rightarrow> (nat \<Rightarrow> string) \<Rightarrow> nat \<Rightarrow> string" where
  "tok2str lp fmt v = (case map_of lp v of Some s \<Rightarrow> s | None \<Rightarrow> snprintf 128 (fmt v))"

subsection \<open>Times\<close>

definition relts_units :: "(nat \<times> string) list" where
  "relts_units = [(31536000, ''y''), (604800, ''w''), (86400, ''d''), (3600, ''h''), (60, ''m''), (1, ''s'')]"

fun relts_loop :: "(nat \<times> string) list \<Rightarrow> nat \<Rightarrow> string" where
  "relts_loop [] secs = ''''"
| "relts_loop ((s, l) # us) secs =
     (if secs = 0 then ''''
      else if s \<le> secs then dec_nat (secs div s) @ l @ relts_loop us (secs - secs div s * s)
      else relts_loop us secs)"

text \<open>
  The argument is a 32-bit \<open>int\<close>. Negating the smallest one is undefined in C; the model takes the
  wrapped value, which is negative, so that only the sign is printed.
\<close>

definition relts_print :: "int \<Rightarrow> string" where
  "relts_print secs =
     (if secs = 0 then ''0s''
      else if secs < 0 then ''-'' @ (if secs = - (2 ^ 31) then '''' else relts_loop relts_units (nat (- secs)))
      else relts_loop relts_units (nat secs))"

subsection \<open>Addresses\<close>

text \<open>\<open>intoa\<close> writes the four bytes from the last one back, each behind a dot.\<close>

definition intoa_byte :: "nat \<Rightarrow> string" where
  "intoa_byte b =
     (let s = [char_of (b mod 10 + 48)]; b = b div 10 in
      if b > 0 then
        let s = char_of (b mod 10 + 48) # s; b = b div 10 in
        if b > 0 then char_of (b + 48) # s else s
      else s)"

fun intoa_loop :: "nat \<Rightarrow> nat \<Rightarrow> string \<Rightarrow> string" where
  "intoa_loop 0 addr cp = cp"
| "intoa_loop (Suc n) addr cp = intoa_loop n (addr div 256) (CHR ''.'' # intoa_byte (addr mod 256) @ cp)"

definition intoa :: "nat \<Rightarrow> string" where
  "intoa addr = tl (intoa_loop 4 addr '''')"

lemma intoa_byte_dec:
  assumes "b < 256"
  shows "intoa_byte b = dec_nat b"
proof -
  have "b div 10 div 10 < 10" using assms by simp
  moreover have "b div 10 = 0 \<longleftrightarrow> b < 10" "b div 10 div 10 = 0 \<longleftrightarrow> b div 10 < 10"
    by (simp_all only: div_eq_0_iff) simp_all
  ultimately show ?thesis
    by (simp add: intoa_byte_def Let_def dec_nat.simps [of b] dec_nat.simps [of "b div 10"]
        dec_nat.simps [of "b div 10 div 10"] add.commute)
qed

lemma byte_split: "d < 256 \<Longrightarrow> (n * 256 + d) mod 256 = (d::nat)" "d < 256 \<Longrightarrow> (n * 256 + d) div 256 = (n::nat)"
  by simp_all

text \<open>The address is printed as a dotted quad, in at most the 16 bytes of the static buffer.\<close>

lemma intoa_dotted:
  assumes "a < 256" "b < 256" "c < 256" "d < 256"
  shows "intoa (a * 2 ^ 24 + b * 2 ^ 16 + c * 2 ^ 8 + d) =
    dec_nat a @ ''.'' @ dec_nat b @ ''.'' @ dec_nat c @ ''.'' @ dec_nat d"
proof -
  have 1: "a * 2 ^ 24 + b * 2 ^ 16 + c * 2 ^ 8 + d = ((a * 256 + b) * 256 + c) * 256 + d" by simp
  have 2: "4 = Suc (Suc (Suc (Suc 0)))" by simp
  have 3: "a mod 256 = a" using assms by simp
  show ?thesis unfolding 1 intoa_def 2
    using assms by (simp only: intoa_loop.simps byte_split intoa_byte_dec 3 append_Nil2 append_Cons
        append_assoc append_Nil list.sel)
qed

end
