(* ===== verification/Td_Domain.thy ===== *)
theory Td_Domain
  imports Td_Util
begin

text \<open>
  The DNS printer of tcpdump (\<^verbatim>\<open>print-domain.c\<close>), whose output the app parses for host names: it
  runs the program as \<^verbatim>\<open>tcpdump -i any -p -l -v -t -s 512 'udp dst port 53'\<close>. The captured bytes
  \<open>pk\<close> start at the message (the pointer \<open>bp\<close> of the code is offset 0) and end at \<open>ndo_snapend\<close>.
  \<open>sg\<close> is the signedness of \<open>char\<close>; \<open>inet_ntop\<close> on a 16-byte address is a parameter \<open>ntop6\<close>.
\<close>

abbreviation (input) INDIR_MASK :: byte where "INDIR_MASK \<equiv> 0xC0"
abbreviation (input) EDNS0_MASK :: byte where "EDNS0_MASK \<equiv> 0x40"
abbreviation (input) EDNS0_ELT_BITLABEL :: byte where "EDNS0_ELT_BITLABEL \<equiv> 0x01"

definition ns_ops :: "string list" where
  "ns_ops = ['''', '' inv_q'', '' stat'', '' op3'', '' notify'', '' update'', '' op6'', '' op7'',
     '' op8'', '' updateA'', '' updateD'', '' updateDA'',
     '' updateM'', '' updateMA'', '' zoneInit'', '' zoneRef'']"

definition ns_resp :: "string list" where
  "ns_resp = ['''', '' FormErr'', '' ServFail'', '' NXDomain'',
     '' NotImp'', '' Refused'', '' YXDomain'', '' YXRRSet'',
     '' NXRRSet'', '' NotAuth'', '' NotZone'', '' Resp11'',
     '' Resp12'', '' Resp13'', '' Resp14'', '' NoChange'']"

subsection \<open>NULL pointers\<close>

text \<open>
  A printer returns its output and a pointer, which is \<open>None\<close> for NULL; \<open>if_ptr\<close> goes on with the
  pointer unless it is NULL, as \<open>if ((cp = f(...)) == NULL) return(NULL)\<close> does.
\<close>

type_synonym 'a printed = "(string \<times> 'a option) option"

definition if_ptr :: "'a printed \<Rightarrow> (string \<Rightarrow> 'a \<Rightarrow> 'b printed) \<Rightarrow> 'b printed" where
  "if_ptr m f = (case m of
      None \<Rightarrow> None
    | Some (out, None) \<Rightarrow> Some (out, None)
    | Some (out, Some p) \<Rightarrow> f out p)"

lemma if_ptr_simps [simp]:
  "if_ptr None f = None"
  "if_ptr (Some (out, None)) f = Some (out, None)"
  "if_ptr (Some (out, Some p)) f = f out p"
  by (simp_all add: if_ptr_def)

lemma if_ptr_ex:
  assumes "\<exists>out r. m = Some (out, r)" "\<And>out p. m = Some (out, Some p) \<Longrightarrow> \<exists>out' r. f out p = Some (out', r)"
  shows "\<exists>out r. if_ptr m f = Some (out, r)"
proof -
  obtain out r where "m = Some (out, r)" using assms(1) by blast
  then show ?thesis using assms(2) by (cases r) auto
qed

subsection \<open>Skipping a name\<close>

text \<open>The loop of \<open>ns_nskip\<close>, with the byte \<open>i\<close> already read and \<open>cp\<close> behind it.\<close>

definition bit_len :: "byte \<Rightarrow> nat" where
  "bit_len b = (if b = 0 then 256 else unat b)"

function ns_nskip_loop :: "byte list \<Rightarrow> nat \<Rightarrow> byte \<Rightarrow> nat option option" where
  "ns_nskip_loop pk cp i =
     (if i = 0 then Some (Some cp)
      else if i AND INDIR_MASK = INDIR_MASK then Some (Some (cp + 1))
      else if i AND INDIR_MASK = EDNS0_MASK then
        (if i AND NOT INDIR_MASK \<noteq> EDNS0_ELT_BITLABEL then Some None
         else if \<not> nd_ttest2 pk cp 1 then Some None
         else do {
           b \<leftarrow> rd pk cp;
           let cp = cp + 1 + (bit_len b + 7) div 8;
           if \<not> nd_ttest2 pk cp 1 then Some None
           else do { i \<leftarrow> rd pk cp; ns_nskip_loop pk (cp + 1) i } })
      else
        (let cp = cp + unat i in
         if \<not> nd_ttest2 pk cp 1 then Some None
         else do { i \<leftarrow> rd pk cp; ns_nskip_loop pk (cp + 1) i }))"
  by pat_completeness auto
termination
  by (relation "measure (\<lambda>(pk, cp, i). length pk - cp)") (auto simp: nd_ttest2_def)

declare ns_nskip_loop.simps [simp del]

definition ns_nskip :: "byte list \<Rightarrow> nat \<Rightarrow> nat option option" where
  "ns_nskip pk cp =
     (if \<not> nd_ttest2 pk cp 1 then Some None
      else do { i \<leftarrow> rd pk cp; ns_nskip_loop pk (cp + 1) i })"

subsection \<open>Printing a name\<close>

definition hex2 :: "nat \<Rightarrow> string" where
  "hex2 n = pad0 2 (hex_nat n)"

text \<open>\<open>blabel_print\<close>: a bit-string label; \<open>bl_bytes\<close> is its loop over whole bytes.\<close>

function bl_bytes :: "byte list \<Rightarrow> string \<Rightarrow> nat \<Rightarrow> nat \<Rightarrow> nat \<Rightarrow> (nat \<times> nat) printed" where
  "bl_bytes pk out bitp lim b =
     (if bitp < lim \<and> 7 < b then
        if \<not> nd_ttest2 pk bitp 1 then Some (out, None)
        else do { c \<leftarrow> rd pk bitp; bl_bytes pk (out @ hex2 (unat c)) (bitp + 1) lim (b - 8) }
      else Some (out, Some (bitp, b)))"
  by pat_completeness auto
termination by (relation "measure (\<lambda>(pk, out, bitp, lim, b). lim - bitp)") auto

declare bl_bytes.simps [simp del]

definition blabel_print :: "bool \<Rightarrow> byte list \<Rightarrow> string \<Rightarrow> nat \<Rightarrow> nat printed" where
  "blabel_print sg pk out cp =
     (if \<not> nd_ttest2 pk cp 1 then Some (out, None)
      else do {
        b0 \<leftarrow> rd pk cp;
        let bitlen = bit_len b0;
        let slen = (bitlen + 3) div 4;
        let lim = cp + 1 + slen;
        let trunc = (\<lambda>out. Some (out @ ''.../'' @ dec_nat bitlen @ '']'', None));
        (out, r) \<leftarrow> bl_bytes pk (out @ [char_of (92::nat)] @ ''[x'') (cp + 1) lim bitlen;
        (case r of
           None \<Rightarrow> trunc out
         | Some (bitp, b) \<Rightarrow>
             if 4 < b then
               if \<not> nd_ttest2 pk bitp 1 then trunc out
               else do {
                 tc \<leftarrow> rd pk bitp;
                 let v = cint sg tc AND push_bit (8 - b) 0xFF;
                 Some (out @ hex2 (nat v) @ ''/'' @ dec_nat bitlen @ '']'', Some lim) }
             else if 0 < b then
               if \<not> nd_ttest2 pk bitp 1 then trunc out
               else do {
                 tc \<leftarrow> rd pk bitp;
                 let v = (drop_bit 4 (cint sg tc) AND 0x0F) AND push_bit (4 - b) 0x0F;
                 Some (out @ hex_nat (nat v) @ ''/'' @ dec_nat bitlen @ '']'', Some lim) }
             else Some (out @ ''/'' @ dec_nat bitlen @ '']'', Some lim)) })"

text \<open>\<open>labellen\<close>; \<open>None\<close> is -1.\<close>

definition labellen :: "byte list \<Rightarrow> string \<Rightarrow> nat \<Rightarrow> nat printed" where
  "labellen pk out cp =
     (if \<not> nd_ttest2 pk cp 1 then Some (out, None)
      else do {
        i \<leftarrow> rd pk cp;
        if i AND INDIR_MASK = EDNS0_MASK then
          let elt = i AND NOT INDIR_MASK in
          if elt \<noteq> EDNS0_ELT_BITLABEL then
            Some (out @ ''<ELT '' @ dec_nat (unat elt) @ ''>'', None)
          else if \<not> nd_ttest2 pk (cp + 1) 1 then Some (out, None)
          else do { b \<leftarrow> rd pk (cp + 1); Some (out, Some ((bit_len b + 7) div 8 + 1)) }
        else Some (out, Some (unat i)) })"

text \<open>
  \<open>ns_nprint\<close>. The loop is a step on its variables: \<open>Inr\<close> is what it returns. The loop test is
  part of the step. \<open>chars_processed\<close> and \<open>data_size\<close> are natural numbers, since every pointer is
  at or behind \<open>bp\<close> and the data is shorter than an \<open>int\<close> can count.
\<close>

record name_state =
  n_out :: string
  n_cp :: nat
  n_i :: byte
  n_l :: nat
  n_rp :: "nat option"
  n_compress :: bool
  n_chars :: nat

definition nprint_pointer :: "byte list \<Rightarrow> name_state \<Rightarrow> (name_state + (string \<times> nat option)) option" where
  "nprint_pointer pk st =
     (let rp = (if n_compress st then n_rp st else Some (n_cp st + 1)) in
      if \<not> nd_ttest2 pk (n_cp st) 1 then Some (Inr (n_out st, None))
      else do {
        d \<leftarrow> rd pk (n_cp st);
        let cp = (unat (n_i st) * 2 ^ 8 + unat d) mod 2 ^ 14;
        (out, l) \<leftarrow> labellen pk (n_out st) cp;
        (case l of
           None \<Rightarrow> Some (Inr (out, None))
         | Some l \<Rightarrow>
             if \<not> nd_ttest2 pk cp 1 then Some (Inr (out, None))
             else do {
               i \<leftarrow> rd pk cp;
               let chars = n_chars st + 1;
               if length pk \<le> chars then Some (Inr (out @ ''<LOOP>'', None))
               else Some (Inl \<lparr>n_out = out, n_cp = cp + 1, n_i = i, n_l = l, n_rp = rp,
                      n_compress = True, n_chars = chars\<rparr>) }) })"

definition nprint_label :: "bool \<Rightarrow> byte list \<Rightarrow> name_state \<Rightarrow> (name_state + (string \<times> nat option)) option" where
  "nprint_label sg pk st = do {
     (out, ok) \<leftarrow>
       (if n_i st AND INDIR_MASK = EDNS0_MASK then
          let elt = n_i st AND NOT INDIR_MASK in
          if elt = EDNS0_ELT_BITLABEL then
            do { (out, r) \<leftarrow> blabel_print sg pk (n_out st) (n_cp st); Some (out, r \<noteq> None) }
          else Some (n_out st @ ''<ELT '' @ dec_nat (unat elt) @ ''>'', False)
        else do { (out, t) \<leftarrow> fn_printn pk (n_out st) (n_cp st) (n_l st); Some (out, \<not> t) });
     if \<not> ok then Some (Inr (out, None))
     else do {
       let cp = n_cp st + n_l st;
       let chars = n_chars st + n_l st;
       let out = out @ ''.'';
       (out, l) \<leftarrow> labellen pk out cp;
       (case l of
          None \<Rightarrow> Some (Inr (out, None))
        | Some l \<Rightarrow>
            if \<not> nd_ttest2 pk cp 1 then Some (Inr (out, None))
            else do {
              i \<leftarrow> rd pk cp;
              let rp = (if n_compress st then n_rp st else map_option (\<lambda>rp. rp + (l + 1)) (n_rp st));
              Some (Inl \<lparr>n_out = out, n_cp = cp + 1, n_i = i, n_l = l, n_rp = rp,
                     n_compress = n_compress st, n_chars = chars + 1\<rparr>) }) } }"

definition nprint_step :: "bool \<Rightarrow> byte list \<Rightarrow> name_state \<Rightarrow> (name_state + (string \<times> nat option)) option" where
  "nprint_step sg pk st =
     (if n_i st = 0 \<or> \<not> n_cp st < length pk then Some (Inr (n_out st, n_rp st))
      else if n_i st AND INDIR_MASK = INDIR_MASK then nprint_pointer pk st
      else nprint_label sg pk st)"

text \<open>
  Each pointer that is followed counts, and is refused when as many characters have been seen as
  the message has; a label moves forward in the message. So the loop ends.
\<close>

lemma labellen_ex: "\<exists>out' r. labellen pk out cp = Some (out', r)"
  by (auto simp: labellen_def nd_ttest2_def Let_def)

lemma nprint_step_measure:
  assumes "nprint_step sg pk st = Some (Inl st')"
  shows "(st', st) \<in> measures [\<lambda>st. length pk - n_chars st, \<lambda>st. length pk - n_cp st]"
proof (cases "n_i st AND INDIR_MASK = INDIR_MASK")
  case True
  then have p: "nprint_pointer pk st = Some (Inl st')"
    using assms by (auto simp: nprint_step_def split: if_splits)
  have "n_chars st' = n_chars st + 1 \<and> n_chars st' < length pk"
    using p by (auto simp: nprint_pointer_def Let_def split: if_splits bind_splits option.splits)
  then show ?thesis by auto
next
  case False
  then have p: "nprint_label sg pk st = Some (Inl st')" and c: "n_cp st < length pk"
    using assms by (auto simp: nprint_step_def split: if_splits)
  have "n_cp st < n_cp st' \<and> n_chars st \<le> n_chars st'"
    using p by (auto simp: nprint_label_def Let_def split: if_splits bind_splits option.splits)
  then show ?thesis using c by auto
qed

function nprint_loop :: "bool \<Rightarrow> byte list \<Rightarrow> name_state \<Rightarrow> nat printed" where
  "nprint_loop sg pk st = (case nprint_step sg pk st of
      None \<Rightarrow> None
    | Some (Inr r) \<Rightarrow> Some r
    | Some (Inl st') \<Rightarrow> nprint_loop sg pk st')"
  by pat_completeness auto
termination
  by (relation "inv_image (measures [\<lambda>(sg, pk, st). length pk - n_chars st,
        \<lambda>(sg, pk, st). length pk - n_cp st]) (\<lambda>x. x)")
     (auto dest!: nprint_step_measure)

declare nprint_loop.simps [simp del]

definition ns_nprint :: "bool \<Rightarrow> byte list \<Rightarrow> string \<Rightarrow> nat \<Rightarrow> nat printed" where
  "ns_nprint sg pk out cp =
     if_ptr (labellen pk out cp) (\<lambda>out l.
       if \<not> nd_ttest2 pk cp 1 then Some (out, None)
       else do {
         i \<leftarrow> rd pk cp;
         let cp = cp + 1;
         let rp = (if i AND INDIR_MASK \<noteq> INDIR_MASK then Some (cp + l) else None);
         if i \<noteq> 0 then nprint_loop sg pk \<lparr>n_out = out, n_cp = cp, n_i = i, n_l = l, n_rp = rp,
              n_compress = False, n_chars = 1\<rparr>
         else Some (out @ ''.'', rp) })"

definition ns_cprint :: "byte list \<Rightarrow> string \<Rightarrow> nat \<Rightarrow> nat printed" where
  "ns_cprint pk out cp =
     (if \<not> nd_ttest2 pk cp 1 then Some (out, None)
      else do {
        i \<leftarrow> rd pk cp;
        let cp = cp + 1;
        (out, t) \<leftarrow> fn_printn pk out cp (unat i);
        Some (out, if t then None else Some (cp + unat i)) })"

subsection \<open>Types and classes\<close>

definition ns_type2str :: "(nat \<times> string) list" where
  "ns_type2str = [
    (1, ''A''), (2, ''NS''), (3, ''MD''), (4, ''MF''), (5, ''CNAME''), (6, ''SOA''), (7, ''MB''),
    (8, ''MG''), (9, ''MR''), (10, ''NULL''), (11, ''WKS''), (12, ''PTR''), (13, ''HINFO''),
    (14, ''MINFO''), (15, ''MX''), (16, ''TXT''), (17, ''RP''), (18, ''AFSDB''), (19, ''X25''),
    (20, ''ISDN''), (21, ''RT''), (22, ''NSAP''), (23, ''NSAP_PTR''), (24, ''SIG''),
    (25, ''KEY''), (26, ''PX''), (27, ''GPOS''), (28, ''AAAA''), (29, ''LOC''), (30, ''NXT''),
    (31, ''EID''), (32, ''NIMLOC''), (33, ''SRV''), (34, ''ATMA''), (35, ''NAPTR''),
    (36, ''KX''), (37, ''CERT''), (38, ''A6''), (39, ''DNAME''), (40, ''SINK''), (41, ''OPT''),
    (42, ''APL''), (43, ''DS''), (44, ''SSHFP''), (45, ''IPSECKEY''), (46, ''RRSIG''),
    (47, ''NSEC''), (48, ''DNSKEY''), (99, ''SPF''), (100, ''UINFO''), (101, ''UID''),
    (102, ''GID''), (103, ''UNSPEC''), (104, ''UNSPECA''), (249, ''TKEY''), (250, ''TSIG''),
    (251, ''IXFR''), (252, ''AXFR''), (253, ''MAILB''), (254, ''MAILA''), (255, ''ANY'')]"

definition ns_class2str :: "(nat \<times> string) list" where
  "ns_class2str = [
    (1, ''IN''), (3, ''CHAOS''), (4, ''HS''), (255, ''ANY'')]"

definition type_str :: "nat \<Rightarrow> string" where
  "type_str v = tok2str ns_type2str (\<lambda>v. ''Type'' @ dec_nat v) v"

definition class_str :: "nat \<Rightarrow> string" where
  "class_str v = tok2str ns_class2str (\<lambda>v. ''(Class '' @ dec_nat v @ '')'') v"

abbreviation (input) C_IN :: nat where "C_IN \<equiv> 1"
abbreviation (input) T_OPT :: nat where "T_OPT \<equiv> 41"

subsection \<open>Questions and resource records\<close>

text \<open>
  \<open>C_QU\<close> and \<open>C_CACHE_FLUSH\<close> are the top bit of the class; masking it out of a 16-bit value is
  \<open>mod 2 ^ 15\<close>.
\<close>

definition top_bit :: "nat \<Rightarrow> bool" where
  "top_bit i \<longleftrightarrow> i AND 0x8000 \<noteq> 0"

definition ns_qprint :: "bool \<Rightarrow> byte list \<Rightarrow> bool \<Rightarrow> string \<Rightarrow> nat \<Rightarrow> nat printed" where
  "ns_qprint sg pk mdns out np = do {
     q \<leftarrow> ns_nskip pk np;
     (case q of
        None \<Rightarrow> Some (out, None)
      | Some cp \<Rightarrow>
          if \<not> nd_ttest2 pk cp 4 then Some (out, None)
          else do {
            i \<leftarrow> extract_16bits pk cp;
            let cp = cp + 2;
            let out = out @ '' '' @ type_str i;
            i \<leftarrow> extract_16bits pk cp;
            let cls = (if mdns then i mod 2 ^ 15 else i);
            let out = (if cls \<noteq> C_IN then out @ '' '' @ class_str cls else out);
            let out = (if mdns then out @ (if top_bit i then '' (QU)'' else '' (QM)'') else out);
            let out = out @ ''? '';
            (out, r) \<leftarrow> ns_nprint sg pk out np;
            Some (out, map_option (\<lambda>cp. cp + 4) r) }) }"

text \<open>The strings of a TXT record, up to the end \<open>rp\<close> of its data.\<close>

lemma ns_cprint_advances: "ns_cprint pk out cp = Some (out', Some cp') \<Longrightarrow> cp < cp'"
  by (auto simp: ns_cprint_def Let_def split: if_splits bind_splits)

function txt_loop :: "byte list \<Rightarrow> string \<Rightarrow> nat \<Rightarrow> nat \<Rightarrow> nat printed" where
  "txt_loop pk out cp rp =
     (if cp < rp then
        (case ns_cprint pk (out @ [CHR '' '', CHR 0x22]) cp of
           None \<Rightarrow> None
         | Some (out, None) \<Rightarrow> Some (out, None)
         | Some (out, Some cp) \<Rightarrow> txt_loop pk (out @ [CHR 0x22]) cp rp)
      else Some (out, Some rp))"
  by pat_completeness auto
termination
  by (relation "measure (\<lambda>(pk, out, cp, rp). rp - cp)") (auto dest: ns_cprint_advances)

declare txt_loop.simps [simp del]

text \<open>A field of two bytes of a TSIG record.\<close>

definition tsig_field :: "byte list \<Rightarrow> string \<Rightarrow> string \<Rightarrow> nat \<Rightarrow> nat printed" where
  "tsig_field pk name out cp =
     (if \<not> nd_ttest2 pk cp 2 then Some (out, None)
      else do { v \<leftarrow> extract_16bits pk cp; Some (out @ name @ dec_nat v, Some v) })"

text \<open>The switch of \<open>ns_rprint\<close> over the type; the data of the record ends at \<open>rp\<close>.\<close>

definition rprint_soa :: "bool \<Rightarrow> byte list \<Rightarrow> string \<Rightarrow> nat \<Rightarrow> nat \<Rightarrow> nat printed" where
  "rprint_soa sg pk out cp rp =
     if_ptr (ns_nprint sg pk (out @ '' '') cp) (\<lambda>out cp.
     if_ptr (ns_nprint sg pk (out @ '' '') cp) (\<lambda>out cp.
       if \<not> nd_ttest2 pk cp (5 * 4) then Some (out, None)
       else do {
         a \<leftarrow> extract_32bits pk cp;
         b \<leftarrow> extract_32bits pk (cp + 4);
         c \<leftarrow> extract_32bits pk (cp + 8);
         d \<leftarrow> extract_32bits pk (cp + 12);
         e \<leftarrow> extract_32bits pk (cp + 16);
         Some (out @ '' '' @ dec_nat a @ '' '' @ dec_nat b @ '' '' @ dec_nat c @ '' '' @ dec_nat d
                @ '' '' @ dec_nat e, Some rp) }))"

definition rprint_mx :: "bool \<Rightarrow> byte list \<Rightarrow> string \<Rightarrow> nat \<Rightarrow> nat \<Rightarrow> nat printed" where
  "rprint_mx sg pk out cp rp =
     (let out = out @ '' '' in
      if \<not> nd_ttest2 pk cp 2 then Some (out, None)
      else if_ptr (ns_nprint sg pk out (cp + 2)) (\<lambda>out _. do {
        p \<leftarrow> extract_16bits pk cp;
        Some (out @ '' '' @ dec_nat p, Some rp) }))"

definition rprint_srv :: "bool \<Rightarrow> byte list \<Rightarrow> string \<Rightarrow> nat \<Rightarrow> nat \<Rightarrow> nat printed" where
  "rprint_srv sg pk out cp rp =
     (let out = out @ '' '' in
      if \<not> nd_ttest2 pk cp 6 then Some (out, None)
      else if_ptr (ns_nprint sg pk out (cp + 6)) (\<lambda>out _. do {
        c \<leftarrow> extract_16bits pk (cp + 4);
        a \<leftarrow> extract_16bits pk cp;
        b \<leftarrow> extract_16bits pk (cp + 2);
        Some (out @ '':'' @ dec_nat c @ '' '' @ dec_nat a @ '' '' @ dec_nat b, Some rp) }))"

definition rprint_a6 :: "bool \<Rightarrow> (byte list \<Rightarrow> string) \<Rightarrow> byte list \<Rightarrow> string \<Rightarrow> nat \<Rightarrow> nat \<Rightarrow> nat printed" where
  "rprint_a6 sg ntop6 pk out cp rp =
     (if \<not> nd_ttest2 pk cp 1 then Some (out, None)
      else do {
        b \<leftarrow> rd pk cp;
        let pbit = unat b;
        let pbyte = pbit div 8;
        if 128 < pbit then Some (out @ '' '' @ dec_nat pbit @ ''(bad plen)'', Some rp)
        else do {
          (out, ok) \<leftarrow>
            (if pbit < 128 then
               if \<not> nd_ttest2 pk (cp + 1) (16 - pbyte) then Some (out, False)
               else do {
                 a \<leftarrow> rd_bytes pk (cp + 1) (16 - pbyte);
                 Some (out @ '' '' @ dec_nat pbit @ '' '' @ ntop6 (replicate pbyte 0 @ a), True) }
             else Some (out, True));
          if \<not> ok then Some (out, None)
          else if 0 < pbit then
            if_ptr (ns_nprint sg pk (out @ '' '') (cp + 1 + 16 - pbyte)) (\<lambda>out _. Some (out, Some rp))
          else Some (out, Some rp) } })"

definition rprint_tsig :: "bool \<Rightarrow> byte list \<Rightarrow> string \<Rightarrow> nat \<Rightarrow> nat \<Rightarrow> nat printed" where
  "rprint_tsig sg pk out cp rp =
     if_ptr (ns_nprint sg pk (out @ '' '') cp) (\<lambda>out cp.
       let cp = cp + 6 in
       if_ptr (tsig_field pk '' fudge='' out cp) (\<lambda>out _.
       let cp = cp + 2 in
       if_ptr (tsig_field pk '' maclen='' out cp) (\<lambda>out m.
       let cp = cp + 2 + m in
       if_ptr (tsig_field pk '' origid='' out cp) (\<lambda>out _.
       let cp = cp + 2 in
       if_ptr (tsig_field pk '' error='' out cp) (\<lambda>out _.
       let cp = cp + 2 in
       if_ptr (tsig_field pk '' otherlen='' out cp) (\<lambda>out _. Some (out, Some rp)))))))"

definition rprint_data :: "bool \<Rightarrow> (byte list \<Rightarrow> string) \<Rightarrow> byte list \<Rightarrow> nat \<Rightarrow>
    nat \<Rightarrow> nat \<Rightarrow> nat \<Rightarrow> nat \<Rightarrow> string \<Rightarrow> nat \<Rightarrow> nat \<Rightarrow> nat printed" where
  "rprint_data sg ntop6 pk vflag typ cls opt_flags len out cp rp =
     (if typ = 1 then
        if \<not> nd_ttest2 pk cp 4 then Some (out, None)
        else do { a \<leftarrow> extract_32bits pk cp; Some (out @ '' '' @ intoa a, Some rp) }
      else if typ = 2 \<or> typ = 5 \<or> typ = 12 \<or> typ = 39 then
        if_ptr (ns_nprint sg pk (out @ '' '') cp) (\<lambda>out _. Some (out, Some rp))
      else if typ = 6 then
        if vflag = 0 then Some (out, Some rp) else rprint_soa sg pk out cp rp
      else if typ = 15 then rprint_mx sg pk out cp rp
      else if typ = 16 then txt_loop pk out cp rp
      else if typ = 33 then rprint_srv sg pk out cp rp
      else if typ = 28 then
        if \<not> nd_ttest2 pk cp 16 then Some (out, None)
        else do { a \<leftarrow> rd_bytes pk cp 16; Some (out @ '' '' @ ntop6 a, Some rp) }
      else if typ = 38 then rprint_a6 sg ntop6 pk out cp rp
      else if typ = T_OPT then
        let out = out @ '' UDPsize='' @ dec_nat cls in
        Some (if opt_flags AND 0x8000 \<noteq> 0 then out @ '' OK'' else out, Some rp)
      else if typ = 104 then
        if \<not> nd_ttest2 pk cp len then Some (out, None)
        else do {
          (out, t) \<leftarrow> fn_printn pk out cp len;
          Some (out, if t then None else Some rp) }
      else if typ = 250 then
        if length pk < cp + len then Some (out, None)
        else if vflag = 0 then Some (out, Some rp)
        else rprint_tsig sg pk out cp rp
      else Some (out, Some rp))"

text \<open>
  \<open>ns_rprint\<close>. When the name cannot be skipped or the fixed part of the record is not captured, it
  returns \<open>ndo_snapend\<close>. A time to live is passed to \<open>relts_print\<close> as an \<open>int\<close>.
\<close>

definition int32 :: "nat \<Rightarrow> int" where
  "int32 v = (if v < 2 ^ 31 then int v else int v - 2 ^ 32)"

definition ns_rprint :: "bool \<Rightarrow> (byte list \<Rightarrow> string) \<Rightarrow> byte list \<Rightarrow> nat \<Rightarrow> bool \<Rightarrow>
    string \<Rightarrow> nat \<Rightarrow> nat printed" where
  "ns_rprint sg ntop6 pk vflag mdns out cp =
     if_ptr
       (if vflag \<noteq> 0 then if_ptr (ns_nprint sg pk (out @ '' '') cp) (\<lambda>out cp. Some (out, Some (Some cp)))
        else do { q \<leftarrow> ns_nskip pk cp; Some (out, Some q) })
       (\<lambda>out q. case q of
          None \<Rightarrow> Some (out, Some (length pk))
        | Some cp \<Rightarrow>
            if \<not> nd_ttest2 pk cp 10 then Some (out, Some (length pk))
            else do {
              typ \<leftarrow> extract_16bits pk cp;
              let cp = cp + 2;
              i \<leftarrow> extract_16bits pk cp;
              let cp = cp + 2;
              let cls = (if mdns then i mod 2 ^ 15 else i);
              let out = (if cls \<noteq> C_IN \<and> typ \<noteq> T_OPT then out @ '' '' @ class_str cls else out);
              let out = (if mdns \<and> top_bit i then out @ '' (Cache flush)'' else out);
              opt_flags \<leftarrow> (if typ = T_OPT then extract_16bits pk (cp + 2) else Some 0);
              ttl \<leftarrow> (if typ \<noteq> T_OPT \<and> 2 < vflag then extract_32bits pk cp else Some 0);
              let out = (if typ \<noteq> T_OPT \<and> 2 < vflag then out @ '' ['' @ relts_print (int32 ttl) @ '']'' else out);
              let cp = cp + 4;
              len \<leftarrow> extract_16bits pk cp;
              let cp = cp + 2;
              let rp = cp + len;
              let out = out @ '' '' @ type_str typ;
              if length pk < rp then Some (out, None)
              else rprint_data sg ntop6 pk vflag typ cls opt_flags len out cp rp })"

subsection \<open>Messages\<close>

text \<open>
  The loops over the records of a section. The counter is an \<open>int\<close> in the code; what is returned
  with the pointer is its value after the loop, -1 when the loop ran it down. \<open>rr_loop\<close> tests the
  end of the packet before it decrements the counter, \<open>rr_loop_ns\<close>, which only the authority
  section of a request uses, after.
\<close>

fun rr_loop :: "bool \<Rightarrow> (byte list \<Rightarrow> string) \<Rightarrow> byte list \<Rightarrow> nat \<Rightarrow> bool \<Rightarrow> string \<Rightarrow> nat \<Rightarrow> nat \<Rightarrow>
    (nat \<times> int) printed" where
  "rr_loop sg ntop6 pk vflag mdns out cp 0 = Some (out, Some (cp, if cp < length pk then -1 else 0))"
| "rr_loop sg ntop6 pk vflag mdns out cp (Suc n) =
     (if cp < length pk then
        if_ptr (ns_rprint sg ntop6 pk vflag mdns (out @ '','') cp)
          (\<lambda>out cp. rr_loop sg ntop6 pk vflag mdns out cp n)
      else Some (out, Some (cp, int (Suc n))))"

fun rr_loop_ns :: "bool \<Rightarrow> (byte list \<Rightarrow> string) \<Rightarrow> byte list \<Rightarrow> nat \<Rightarrow> bool \<Rightarrow> string \<Rightarrow> nat \<Rightarrow> nat \<Rightarrow>
    (nat \<times> int) printed" where
  "rr_loop_ns sg ntop6 pk vflag mdns out cp 0 = Some (out, Some (cp, -1))"
| "rr_loop_ns sg ntop6 pk vflag mdns out cp (Suc n) =
     (if cp < length pk then
        if_ptr (ns_rprint sg ntop6 pk vflag mdns (out @ '','') cp)
          (\<lambda>out cp. rr_loop_ns sg ntop6 pk vflag mdns out cp n)
      else Some (out, Some (cp, int n)))"

text \<open>
  A section: nothing for an empty count; with \<open>guard\<close> also nothing at the end of the packet;
  otherwise the first record, then the loop. NULL stands for \<open>goto trunc\<close>, where a positive
  counter goes too.
\<close>

definition rr_section :: "bool \<Rightarrow> (byte list \<Rightarrow> string) \<Rightarrow> byte list \<Rightarrow> nat \<Rightarrow> bool \<Rightarrow>
    (string \<Rightarrow> nat \<Rightarrow> nat \<Rightarrow> (nat \<times> int) printed) \<Rightarrow> bool \<Rightarrow> string \<Rightarrow> string \<Rightarrow> nat \<Rightarrow> nat \<Rightarrow> nat printed" where
  "rr_section sg ntop6 pk vflag mdns loop guard hdr out cp n =
     if_ptr
       (if guard \<and> \<not> cp < length pk then Some (out, Some (cp, int n))
        else if n = 0 then Some (out, Some (cp, -1))
        else if_ptr (ns_rprint sg ntop6 pk vflag mdns (out @ hdr) cp) (\<lambda>out cp. loop out cp (n - 1)))
       (\<lambda>out r. Some (out, if 0 < snd r then None else Some (fst r)))"

text \<open>The question section of a response, \<open>qd\<close> being the count in the header.\<close>

fun q_resp :: "bool \<Rightarrow> byte list \<Rightarrow> nat \<Rightarrow> bool \<Rightarrow> nat \<Rightarrow> string \<Rightarrow> nat \<Rightarrow> nat \<Rightarrow> nat printed" where
  "q_resp sg pk vflag mdns qd out cp 0 = Some (out, Some cp)"
| "q_resp sg pk vflag mdns qd out cp (Suc n) =
     (let out = (if int n < int qd - 1 then out @ '','' else out) in
      if 1 < vflag then
        if_ptr (ns_qprint sg pk mdns (out @ '' q:'') cp) (\<lambda>out cp. q_resp sg pk vflag mdns qd out cp n)
      else
        if_ptr (do { q \<leftarrow> ns_nskip pk cp; Some (out, q) })
          (\<lambda>out cp. q_resp sg pk vflag mdns qd out (cp + 4) n))"

text \<open>The question section of a request.\<close>

fun q_loop :: "bool \<Rightarrow> byte list \<Rightarrow> bool \<Rightarrow> string \<Rightarrow> nat \<Rightarrow> nat \<Rightarrow> (nat \<times> int) printed" where
  "q_loop sg pk mdns out cp 0 = Some (out, Some (cp, if cp < length pk then -1 else 0))"
| "q_loop sg pk mdns out cp (Suc n) =
     (if cp < length pk then
        if_ptr (ns_qprint sg pk mdns out cp) (\<lambda>out cp. q_loop sg pk mdns out cp n)
      else Some (out, Some (cp, int (Suc n))))"

definition q_req :: "bool \<Rightarrow> byte list \<Rightarrow> bool \<Rightarrow> string \<Rightarrow> nat \<Rightarrow> nat \<Rightarrow> nat printed" where
  "q_req sg pk mdns out cp n =
     if_ptr
       (if n = 0 then Some (out, Some (cp, -1))
        else if_ptr (ns_qprint sg pk mdns out cp) (\<lambda>out cp. q_loop sg pk mdns out cp (n - 1)))
       (\<lambda>out r. Some (out, if 0 < snd r then None else Some (fst r)))"

text \<open>The fields of the header.\<close>

record dns_header =
  h_id :: nat
  h_flags1 :: byte
  h_flags2 :: byte
  h_b2 :: nat
  h_qdcount :: nat
  h_ancount :: nat
  h_nscount :: nat
  h_arcount :: nat

definition dns_opcode :: "dns_header \<Rightarrow> nat" where
  "dns_opcode h = unat (drop_bit 3 (h_flags1 h) AND 0xF)"

definition dns_rcode :: "dns_header \<Rightarrow> nat" where
  "dns_rcode h = unat (h_flags2 h AND 0xF)"

definition read_header :: "byte list \<Rightarrow> dns_header option" where
  "read_header pk = do {
     i \<leftarrow> extract_16bits pk 0;
     f1 \<leftarrow> rd pk 2;
     f2 \<leftarrow> rd pk 3;
     b2 \<leftarrow> extract_16bits pk 2;
     qd \<leftarrow> extract_16bits pk 4;
     an \<leftarrow> extract_16bits pk 6;
     ns \<leftarrow> extract_16bits pk 8;
     ar \<leftarrow> extract_16bits pk 10;
     Some \<lparr>h_id = i, h_flags1 = f1, h_flags2 = f2, h_b2 = b2, h_qdcount = qd, h_ancount = an,
       h_nscount = ns, h_arcount = ar\<rparr> }"

definition ns_response :: "bool \<Rightarrow> (byte list \<Rightarrow> string) \<Rightarrow> byte list \<Rightarrow> nat \<Rightarrow> bool \<Rightarrow> dns_header \<Rightarrow>
    nat printed" where
  "ns_response sg ntop6 pk vflag mdns h =
     (let rr = rr_loop sg ntop6 pk vflag mdns;
          sect = rr_section sg ntop6 pk vflag mdns rr;
          out = dec_nat (h_id h) @ ns_ops ! dns_opcode h @ ns_resp ! dns_rcode h
            @ (if h_flags1 h AND 0x04 \<noteq> 0 then ''*'' else '''')
            @ (if h_flags2 h AND 0x80 \<noteq> 0 then '''' else ''-'')
            @ (if h_flags1 h AND 0x02 \<noteq> 0 then ''|'' else '''')
            @ (if h_flags2 h AND 0x20 \<noteq> 0 then ''$'' else '''');
          out = (if h_qdcount h \<noteq> 1 then out @ '' ['' @ dec_nat (h_qdcount h) @ ''q]'' else out) in
      if_ptr (q_resp sg pk vflag mdns (h_qdcount h) out 12 (h_qdcount h)) (\<lambda>out cp.
      let out = out @ '' '' @ dec_nat (h_ancount h) @ ''/'' @ dec_nat (h_nscount h) @ ''/''
            @ dec_nat (h_arcount h) in
      if_ptr (sect False '''' out cp (h_ancount h)) (\<lambda>out cp.
      if 1 < vflag then
        if_ptr (sect True '' ns:'' out cp (h_nscount h)) (\<lambda>out cp.
        sect True '' ar:'' out cp (h_arcount h))
      else Some (out, Some cp))))"

definition count_note :: "bool \<Rightarrow> nat \<Rightarrow> string \<Rightarrow> string" where
  "count_note b n s = (if b then '' ['' @ dec_nat n @ s @ '']'' else '''')"

definition ns_request :: "bool \<Rightarrow> (byte list \<Rightarrow> string) \<Rightarrow> byte list \<Rightarrow> nat \<Rightarrow> bool \<Rightarrow> dns_header \<Rightarrow>
    nat printed" where
  "ns_request sg ntop6 pk vflag mdns h =
     (let rr = rr_loop sg ntop6 pk vflag mdns;
          rr_ns = rr_loop_ns sg ntop6 pk vflag mdns;
          sect = rr_section sg ntop6 pk vflag mdns;
          qd = h_qdcount h; an = h_ancount h;
          out = dec_nat (h_id h) @ ns_ops ! dns_opcode h
            @ (if h_flags1 h AND 0x01 \<noteq> 0 then ''+'' else '''')
            @ (if h_flags2 h AND 0x10 \<noteq> 0 then ''%'' else '''');
          out = (if h_b2 h AND 0x6cf \<noteq> 0 then out @ '' [b2&3=0x'' @ hex_nat (h_b2 h) @ '']'' else out);
          out = out @ (if dns_opcode h = 1 then count_note (qd \<noteq> 0) qd ''q'' @ count_note (an \<noteq> 1) an ''a''
                       else count_note (an \<noteq> 0) an ''a'' @ count_note (qd \<noteq> 1) qd ''q'');
          out = out @ count_note (h_nscount h \<noteq> 0) (h_nscount h) ''n''
            @ count_note (h_arcount h \<noteq> 0) (h_arcount h) ''au'' in
      if_ptr (q_req sg pk mdns out 12 qd) (\<lambda>out cp.
      if 1 < vflag then
        if_ptr (sect rr False '''' out cp an) (\<lambda>out cp.
        if_ptr (sect rr_ns True '' ns:'' out cp (h_nscount h)) (\<lambda>out cp.
        sect rr True '' ar:'' out cp (h_arcount h)))
      else Some (out, Some cp)))"

text \<open>\<open>ns_print\<close>: the whole line for a message whose length on the wire is \<open>length\<close>.\<close>

definition ns_print :: "bool \<Rightarrow> (byte list \<Rightarrow> string) \<Rightarrow> nat \<Rightarrow> byte list \<Rightarrow> nat \<Rightarrow> bool \<Rightarrow> string option" where
  "ns_print sg ntop6 vflag pk len mdns =
     (if \<not> nd_ttest2 pk 0 12 then Some ''[|domain]''
      else do {
        h \<leftarrow> read_header pk;
        (out, r) \<leftarrow>
          (if h_flags1 h AND 0x80 \<noteq> 0 then ns_response sg ntop6 pk vflag mdns h
           else ns_request sg ntop6 pk vflag mdns h);
        Some (case r of
            None \<Rightarrow> out @ ''[|domain]''
          | Some _ \<Rightarrow> out @ '' ('' @ dec_nat len @ '')'') })"

subsection \<open>Every read is of a captured byte\<close>

named_theorems nd_ex \<open>a printer returns, having read captured bytes only\<close>

lemma nd_ttest2_rd: "nd_ttest2 pk cp (Suc 0) \<Longrightarrow> rd pk cp = Some (pk ! cp)"
  by (simp add: nd_ttest2_def)

lemma ns_nskip_loop_ex: "\<exists>r. ns_nskip_loop pk cp i = Some r"
  by (induction pk cp i rule: ns_nskip_loop.induct)
     (subst ns_nskip_loop.simps, auto simp: Let_def nd_ttest2_rd)

lemma ns_nskip_ex: "\<exists>r. ns_nskip pk cp = Some r"
  using ns_nskip_loop_ex by (auto simp: ns_nskip_def nd_ttest2_rd)

lemma bl_bytes_ex: "\<exists>out' r. bl_bytes pk out bitp lim b = Some (out', r)"
  by (induction pk out bitp lim b rule: bl_bytes.induct)
     (subst bl_bytes.simps, auto simp: nd_ttest2_rd)

lemma blabel_print_ex: "\<exists>out' r. blabel_print sg pk out cp = Some (out', r)"
proof (cases "nd_ttest2 pk cp 1")
  case True
  obtain out' r where b: "bl_bytes pk (out @ [char_of (92::nat)] @ ''[x'') (cp + 1)
      (cp + 1 + (bit_len (pk ! cp) + 3) div 4) (bit_len (pk ! cp)) = Some (out', r)"
    using bl_bytes_ex by blast
  then show ?thesis using True
    by (auto simp: blabel_print_def nd_ttest2_rd Let_def split: option.splits)
qed (simp add: blabel_print_def)

lemma nprint_pointer_ex: "\<exists>r. nprint_pointer pk st = Some r"
proof (cases "nd_ttest2 pk (n_cp st) 1")
  case True
  obtain out l where "labellen pk (n_out st) ((unat (n_i st) * 2 ^ 8 + unat (pk ! n_cp st)) mod 2 ^ 14)
      = Some (out, l)" using labellen_ex by blast
  then show ?thesis using True
    by (auto simp: nprint_pointer_def nd_ttest2_rd Let_def split: option.splits)
qed (simp add: nprint_pointer_def)

lemma nprint_label_ex: "\<exists>r. nprint_label sg pk st = Some r"
proof -
  obtain o1 r1 where 1: "blabel_print sg pk (n_out st) (n_cp st) = Some (o1, r1)"
    using blabel_print_ex by blast
  obtain o2 r2 where 2: "fn_printn pk (n_out st) (n_cp st) (n_l st) = Some (o2, r2)"
    using fn_printn_ex by blast
  obtain f where f: "\<And>out cp. \<exists>r. labellen pk out cp = Some (f out cp, r)"
    using labellen_ex by metis
  then obtain g where g: "\<And>out cp. labellen pk out cp = Some (f out cp, g out cp)" by metis
  show ?thesis
    by (auto simp: nprint_label_def 1 2 g nd_ttest2_rd Let_def split: option.splits)
qed

lemma nprint_step_ex: "\<exists>r. nprint_step sg pk st = Some r"
  using nprint_pointer_ex nprint_label_ex by (simp add: nprint_step_def)

lemma nprint_loop_ex: "\<exists>out r. nprint_loop sg pk st = Some (out, r)"
proof (induction sg pk st rule: nprint_loop.induct)
  case (1 sg pk st)
  obtain x where x: "nprint_step sg pk st = Some x" using nprint_step_ex by blast
  show ?case
  proof (cases x)
    case (Inl st')
    then show ?thesis using 1 x by (subst nprint_loop.simps) simp
  next
    case (Inr r)
    then show ?thesis using x by (subst nprint_loop.simps) (cases r, simp)
  qed
qed

lemma ns_nprint_ex [nd_ex]: "\<exists>out' r. ns_nprint sg pk out cp = Some (out', r)"
  unfolding ns_nprint_def
  by (rule if_ptr_ex) (auto simp: labellen_ex nprint_loop_ex nd_ttest2_rd Let_def)

lemma ns_cprint_ex [nd_ex]: "\<exists>out' r. ns_cprint pk out cp = Some (out', r)"
proof (cases "nd_ttest2 pk cp 1")
  case True
  obtain out' t where "fn_printn pk out (cp + 1) (unat (pk ! cp)) = Some (out', t)"
    using fn_printn_ex by blast
  then show ?thesis using True by (simp add: ns_cprint_def nd_ttest2_rd)
qed (simp add: ns_cprint_def)

lemma txt_loop_ex [nd_ex]: "\<exists>out' r. txt_loop pk out cp rp = Some (out', r)"
proof (induction pk out cp rp rule: txt_loop.induct)
  case (1 pk out cp rp)
  obtain out' r where c: "ns_cprint pk (out @ [CHR '' '', CHR 0x22]) cp = Some (out', r)"
    using ns_cprint_ex by blast
  show ?case
  proof (cases r)
    case None
    then show ?thesis using c by (subst txt_loop.simps) simp
  next
    case (Some cp')
    show ?thesis
    proof (cases "cp < rp")
      case True
      then show ?thesis using 1 c Some by (subst txt_loop.simps) simp
    qed (subst txt_loop.simps, simp)
  qed
qed

lemma extract_bind_ex [nd_ex]:
  "p + 2 \<le> length pk \<Longrightarrow> (\<And>v. \<exists>out r. f v = Some (out, r)) \<Longrightarrow> \<exists>out r. extract_16bits pk p \<bind> f = Some (out, r)"
  "p + 4 \<le> length pk \<Longrightarrow> (\<And>v. \<exists>out r. f v = Some (out, r)) \<Longrightarrow> \<exists>out r. extract_32bits pk p \<bind> f = Some (out, r)"
  using extract_16bits_ex [of p pk] extract_32bits_Some [of p pk] by force+

lemma Some_pair_ex [nd_ex]: "\<exists>out' r'. Some (out, r) = Some (out', r')"
  by simp

lemma tsig_field_ex [nd_ex]: "\<exists>out' r. tsig_field pk name out cp = Some (out', r)"
  by (auto simp: tsig_field_def nd_ttest2_def intro!: nd_ex)

lemma rprint_soa_ex [nd_ex]: "\<exists>out' r. rprint_soa sg pk out cp rp = Some (out', r)"
  unfolding rprint_soa_def
  by (intro if_ptr_ex nd_ex) (auto simp: nd_ttest2_def intro!: nd_ex)

lemma rprint_mx_ex [nd_ex]: "\<exists>out' r. rprint_mx sg pk out cp rp = Some (out', r)"
  unfolding rprint_mx_def Let_def
  by (auto simp: nd_ttest2_def intro!: if_ptr_ex nd_ex)

lemma rprint_srv_ex [nd_ex]: "\<exists>out' r. rprint_srv sg pk out cp rp = Some (out', r)"
  unfolding rprint_srv_def Let_def
  by (auto simp: nd_ttest2_def intro!: if_ptr_ex nd_ex)

lemma rprint_tsig_ex [nd_ex]: "\<exists>out' r. rprint_tsig sg pk out cp rp = Some (out', r)"
  unfolding rprint_tsig_def Let_def
  by (intro if_ptr_ex nd_ex)

lemma rprint_a6_ex [nd_ex]: "\<exists>out' r. rprint_a6 sg ntop6 pk out cp rp = Some (out', r)"
proof (cases "nd_ttest2 pk cp 1")
  case True
  then have "cp < length pk" by (simp add: nd_ttest2_def)
  then show ?thesis unfolding rprint_a6_def Let_def
    by (auto simp: nd_ttest2_def intro!: if_ptr_ex nd_ex)
qed (simp add: rprint_a6_def)

lemma rprint_data_ex [nd_ex]:
  assumes "rp = cp + len" "rp \<le> length pk"
  shows "\<exists>out' r. rprint_data sg ntop6 pk vflag typ cls opt len out cp rp = Some (out', r)"
proof -
  obtain o2 r2 where "fn_printn pk out cp len = Some (o2, r2)" using fn_printn_ex by blast
  then show ?thesis using assms
    unfolding rprint_data_def Let_def
    by (auto simp: nd_ttest2_def intro!: if_ptr_ex nd_ex)
qed

lemma ns_qprint_ex [nd_ex]: "\<exists>out' r. ns_qprint sg pk mdns out np = Some (out', r)"
proof -
  obtain q where q: "ns_nskip pk np = Some q" using ns_nskip_ex by blast
  have n: "\<exists>out' r'. ns_nprint sg pk out np \<bind> (\<lambda>(out, r). Some (out, f r)) = Some (out', r')" for out and f :: "nat option \<Rightarrow> nat option"
    using ns_nprint_ex [of sg pk out np] by auto
  show ?thesis
    using n by (cases q) (auto simp: ns_qprint_def q nd_ttest2_def Let_def intro!: nd_ex)
qed

lemma ns_rprint_ex [nd_ex]: "\<exists>out' r. ns_rprint sg ntop6 pk vflag mdns out cp = Some (out', r)"
proof -
  obtain q where q: "ns_nskip pk cp = Some q" using ns_nskip_ex by blast
  show ?thesis
    unfolding ns_rprint_def Let_def q
    by (auto simp: nd_ttest2_def split: option.splits intro!: if_ptr_ex nd_ex)
qed

lemma rr_loop_ex [nd_ex]: "\<exists>out' r. rr_loop sg ntop6 pk vflag mdns out cp n = Some (out', r)"
  by (induction n arbitrary: out cp) (auto intro!: if_ptr_ex nd_ex)

lemma rr_loop_ns_ex [nd_ex]: "\<exists>out' r. rr_loop_ns sg ntop6 pk vflag mdns out cp n = Some (out', r)"
  by (induction n arbitrary: out cp) (auto intro!: if_ptr_ex nd_ex)

lemma q_loop_ex [nd_ex]: "\<exists>out' r. q_loop sg pk mdns out cp n = Some (out', r)"
  by (induction n arbitrary: out cp) (auto intro!: if_ptr_ex nd_ex)

lemma rr_section_ex [nd_ex]:
  assumes "\<And>out cp n. \<exists>out' r. loop out cp n = Some (out', r)"
  shows "\<exists>out' r. rr_section sg ntop6 pk vflag mdns loop guard hdr out cp n = Some (out', r)"
  unfolding rr_section_def by (auto intro!: if_ptr_ex nd_ex assms)

lemma q_resp_ex [nd_ex]: "\<exists>out' r. q_resp sg pk vflag mdns qd out cp n = Some (out', r)"
proof (induction n arbitrary: out cp)
  case (Suc n)
  obtain q where q: "ns_nskip pk cp = Some q" using ns_nskip_ex by blast
  show ?case using Suc by (auto simp: q Let_def intro!: if_ptr_ex nd_ex)
qed simp

lemma q_req_ex [nd_ex]: "\<exists>out' r. q_req sg pk mdns out cp n = Some (out', r)"
  unfolding q_req_def by (auto intro!: if_ptr_ex nd_ex)

lemma ns_response_ex [nd_ex]: "\<exists>out' r. ns_response sg ntop6 pk vflag mdns h = Some (out', r)"
  unfolding ns_response_def Let_def by (intro if_ptr_ex nd_ex conjI) (auto intro!: if_ptr_ex nd_ex)

lemma ns_request_ex [nd_ex]: "\<exists>out' r. ns_request sg ntop6 pk vflag mdns h = Some (out', r)"
  unfolding ns_request_def Let_def by (intro if_ptr_ex nd_ex conjI) (auto intro!: if_ptr_ex nd_ex)

lemma read_header_ex: "12 \<le> length pk \<Longrightarrow> \<exists>h. read_header pk = Some h"
  by (cases pk) (auto simp: read_header_def extract_16bits_def rd_def)

lemma ns_print_ex: "\<exists>out. ns_print sg ntop6 vflag pk len mdns = Some out"
proof (cases "nd_ttest2 pk 0 12")
  case True
  then obtain h where h: "read_header pk = Some h" using read_header_ex by (auto simp: nd_ttest2_def)
  obtain o1 r1 where 1: "ns_response sg ntop6 pk vflag mdns h = Some (o1, r1)" using ns_response_ex by blast
  obtain o2 r2 where 2: "ns_request sg ntop6 pk vflag mdns h = Some (o2, r2)" using ns_request_ex by blast
  show ?thesis using True by (simp add: ns_print_def h 1 2)
qed (simp add: ns_print_def)

lemma dns_opcode_less: "dns_opcode h < length ns_ops" "dns_rcode h < length ns_resp"
proof -
  have "unat (x AND 0xF) < 16" for x :: byte
  proof -
    have "x AND 0xF \<le> 0xF" by (rule word_and_le1)
    then show ?thesis by (simp add: word_le_nat_alt)
  qed
  moreover have "length ns_ops = 16" "length ns_resp = 16" by (simp_all add: ns_ops_def ns_resp_def)
  ultimately show "dns_opcode h < length ns_ops" "dns_rcode h < length ns_resp"
    by (simp_all only: dns_opcode_def dns_rcode_def)
qed

text \<open>
  C6: Whatever bytes were captured, the DNS printer returns: it follows compression pointers only
  finitely often and reads no byte beyond the captured ones, and it looks up its operation and
  response names inside their tables.
\<close>

theorem ns_print_safe:
  "(\<exists>out. ns_print sg ntop6 vflag pk len mdns = Some out) \<and>
   dns_opcode h < length ns_ops \<and> dns_rcode h < length ns_resp"
  using ns_print_ex dns_opcode_less by blast

subsection \<open>Names are printed as they were encoded\<close>

text \<open>
  The wire form of a sequence of labels (RFC 1035, 3.1), and their printed form. A label has 1 to
  63 bytes; a name ends with a zero byte or with a pointer to where it goes on.
\<close>

definition labels_wire :: "byte list list \<Rightarrow> byte list" where
  "labels_wire ls = concat (map (\<lambda>l. of_nat (length l) # l) ls)"

definition dotted :: "byte list list \<Rightarrow> string" where
  "dotted ls = concat (map (\<lambda>l. concat (map nd_char l) @ ''.'') ls)"

definition labels_ok :: "byte list list \<Rightarrow> bool" where
  "labels_ok ls \<longleftrightarrow> (\<forall>l\<in>set ls. l \<noteq> [] \<and> length l < 64)"

lemma labels_wire_simps [simp]:
  "labels_wire [] = []" "labels_wire (l # ls) = of_nat (length l) # l @ labels_wire ls"
  by (simp_all add: labels_wire_def)

lemma dotted_simps [simp]:
  "dotted [] = []" "dotted (l # ls) = concat (map nd_char l) @ CHR ''.'' # dotted ls"
  by (simp_all add: dotted_def)

lemma labels_ok_simps [simp]:
  "labels_ok []" "labels_ok (l # ls) \<longleftrightarrow> l \<noteq> [] \<and> length l < 64 \<and> labels_ok ls"
  by (auto simp: labels_ok_def)

text \<open>The three kinds of a length byte, told apart by its two top bits.\<close>

lemma byte_kinds:
  "n < 64 \<Longrightarrow> (of_nat n :: byte) AND 0xC0 = 0"
  "n < 64 \<Longrightarrow> (of_nat (n + 192) :: byte) AND 0xC0 = 0xC0"
proof -
  have 0: "(x :: byte) AND 0xC0 = push_bit 6 (drop_bit 6 x)" for x
  proof -
    have "x AND push_bit 6 (mask 2) = push_bit 6 (drop_bit 6 x)"
      by (rule bit_eqI) (auto simp: bit_simps dest: bit_imp_le_length)
    moreover have "push_bit 6 (mask 2) = (0xC0 :: byte)" by (simp add: mask_eq_exp_minus_1 push_bit_eq_mult)
    ultimately show ?thesis by simp
  qed
  have 1: "drop_bit 6 (of_nat n :: byte) = of_nat (n div 64 mod 4)" if "n < 256" for n
    using that by (simp add: drop_bit_eq_div word_unat_eq_iff unat_div unat_of_nat)
  show "n < 64 \<Longrightarrow> (of_nat n :: byte) AND 0xC0 = 0" by (simp add: 0 1)
  show "n < 64 \<Longrightarrow> (of_nat (n + 192) :: byte) AND 0xC0 = 0xC0"
    by (simp only: 0) (subst 1, simp_all add: div_nat_eqI [of 64 3])
qed

lemma of_nat_byte: "n < 256 \<Longrightarrow> unat (of_nat n :: byte) = n"
  by (simp add: unat_of_nat)

lemma of_nat_byte_0: "n < 256 \<Longrightarrow> (of_nat n :: byte) = 0 \<longleftrightarrow> n = 0"
  by (simp add: word_unat_eq_iff of_nat_byte)

lemma labellen_plain:
  "cp < length pk \<Longrightarrow> pk ! cp AND 0xC0 \<noteq> 0x40 \<Longrightarrow> labellen pk out cp = Some (out, Some (unat (pk ! cp)))"
  by (simp add: labellen_def nd_ttest2_def)

text \<open>One label, with a plain byte \<open>y\<close> behind it.\<close>

lemma nprint_step_label:
  assumes "n_i st = of_nat (length l)" "n_l st = length l" "l \<noteq> []" "length l < 64"
    "bytes_at pk (n_cp st) (l @ [y])" "y AND 0xC0 \<noteq> 0x40"
  shows "nprint_step sg pk st = Some (Inl \<lparr>n_out = n_out st @ concat (map nd_char l) @ ''.'',
    n_cp = n_cp st + length l + 1, n_i = y, n_l = unat y,
    n_rp = (if n_compress st then n_rp st else map_option (\<lambda>rp. rp + (unat y + 1)) (n_rp st)),
    n_compress = n_compress st, n_chars = n_chars st + length l + 1\<rparr>)"
proof -
  have b: "bytes_at pk (n_cp st) l" "n_cp st + length l < length pk" "pk ! (n_cp st + length l) = y"
    using assms(5) by (simp_all add: bytes_at_append bytes_at_Cons)
  have i: "n_i st AND 0xC0 = 0" "n_i st \<noteq> 0" using assms(1,3,4) by (simp_all add: byte_kinds of_nat_byte_0)
  have f: "fn_printn pk (n_out st) (n_cp st) (length l) = Some (n_out st @ concat (map nd_char l), False)"
    using b(1) by (simp add: fn_printn_complete bytes_at_def)
  have "n_cp st < length pk" using b by linarith
  then show ?thesis
    using b i f assms(2,6) by (simp add: nprint_step_def nprint_label_def labellen_plain nd_ttest2_def)
qed

lemma nprint_loop_labels:
  assumes "n_i st = of_nat (length l)" "n_l st = length l" "labels_ok (l # ls)"
    "bytes_at pk (n_cp st) (l @ labels_wire ls @ [y])" "y AND 0xC0 \<noteq> 0x40"
  shows "nprint_loop sg pk st = nprint_loop sg pk \<lparr>n_out = n_out st @ dotted (l # ls),
    n_cp = n_cp st + length l + length (labels_wire ls) + 1, n_i = y, n_l = unat y,
    n_rp = (if n_compress st then n_rp st
            else map_option (\<lambda>rp. rp + length (labels_wire ls) + (unat y + 1)) (n_rp st)),
    n_compress = n_compress st, n_chars = n_chars st + length l + length (labels_wire ls) + 1\<rparr>"
  using assms
proof (induction ls arbitrary: st l)
  case Nil
  then have "nprint_step sg pk st = Some (Inl \<lparr>n_out = n_out st @ concat (map nd_char l) @ ''.'',
    n_cp = n_cp st + length l + 1, n_i = y, n_l = unat y,
    n_rp = (if n_compress st then n_rp st else map_option (\<lambda>rp. rp + (unat y + 1)) (n_rp st)),
    n_compress = n_compress st, n_chars = n_chars st + length l + 1\<rparr>)"
    by (intro nprint_step_label) simp_all
  then show ?case by (subst nprint_loop.simps) simp
next
  case (Cons m ls)
  let ?st = "\<lparr>n_out = n_out st @ concat (map nd_char l) @ ''.'',
    n_cp = n_cp st + length l + 1, n_i = of_nat (length m), n_l = length m,
    n_rp = (if n_compress st then n_rp st else map_option (\<lambda>rp. rp + (length m + 1)) (n_rp st)),
    n_compress = n_compress st, n_chars = n_chars st + length l + 1\<rparr>"
  have m: "unat (of_nat (length m) :: byte) = length m" "(of_nat (length m) :: byte) AND 0xC0 \<noteq> 0x40"
    using Cons.prems(3) by (simp_all add: of_nat_byte byte_kinds del: of_nat_eq_0_iff)
  have at: "bytes_at pk (n_cp st) (l @ [of_nat (length m)])"
    "bytes_at pk (n_cp st + length l + 1) (m @ labels_wire ls @ [y])"
    using Cons.prems(4) by (auto simp: bytes_at_append bytes_at_Cons)
  have "nprint_step sg pk st = Some (Inl ?st)"
    using nprint_step_label [OF Cons.prems(1,2) _ _ at(1) m(2), of sg] Cons.prems(3) m(1) by simp
  then have "nprint_loop sg pk st = nprint_loop sg pk ?st" by (subst nprint_loop.simps) simp
  also have "\<dots> = nprint_loop sg pk \<lparr>n_out = n_out ?st @ dotted (m # ls),
    n_cp = n_cp ?st + length m + length (labels_wire ls) + 1, n_i = y, n_l = unat y,
    n_rp = (if n_compress ?st then n_rp ?st
            else map_option (\<lambda>rp. rp + length (labels_wire ls) + (unat y + 1)) (n_rp ?st)),
    n_compress = n_compress ?st, n_chars = n_chars ?st + length m + length (labels_wire ls) + 1\<rparr>"
    by (rule Cons.IH) (use at Cons.prems in simp_all)
  also have "\<dots> = nprint_loop sg pk \<lparr>n_out = n_out st @ dotted (l # m # ls),
    n_cp = n_cp st + length l + length (labels_wire (m # ls)) + 1, n_i = y, n_l = unat y,
    n_rp = (if n_compress st then n_rp st
            else map_option (\<lambda>rp. rp + length (labels_wire (m # ls)) + (unat y + 1)) (n_rp st)),
    n_compress = n_compress st, n_chars = n_chars st + length l + length (labels_wire (m # ls)) + 1\<rparr>"
    by (rule arg_cong [where f = "nprint_loop sg pk"])
       (simp add: option.map_comp o_def ac_simps)
  finally show ?case .
qed

lemma nprint_loop_end: "n_i st = 0 \<Longrightarrow> nprint_loop sg pk st = Some (n_out st, n_rp st)"
  by (subst nprint_loop.simps) (simp add: nprint_step_def)

text \<open>A name without pointers: its labels are printed, and the result points behind it.\<close>

lemma ns_nprint_name_ok:
  assumes "bytes_at pk p (labels_wire ls @ [0])" "labels_ok ls"
  shows "ns_nprint sg pk out p = Some (out @ (if ls = [] then ''.'' else dotted ls),
    Some (p + length (labels_wire ls) + 1))"
proof (cases ls)
  case Nil
  then show ?thesis using assms
    by (simp add: bytes_at_Cons ns_nprint_def labellen_plain nd_ttest2_def)
next
  case (Cons l ls')
  then have p: "p < length pk" "pk ! p = of_nat (length l)"
    "bytes_at pk (p + 1) (l @ labels_wire ls' @ [0])"
    using assms(1) by (auto simp: bytes_at_Cons)
  have l: "l \<noteq> []" "length l < 64" using assms(2) Cons by simp_all
  then have k: "(of_nat (length l) :: byte) AND 0xC0 = 0" "(of_nat (length l) :: byte) \<noteq> 0"
    "unat (of_nat (length l) :: byte) = length l"
    by (simp_all add: byte_kinds of_nat_byte_0 of_nat_byte)
  let ?st = "\<lparr>n_out = out, n_cp = p + 1, n_i = of_nat (length l), n_l = length l,
    n_rp = Some (p + 1 + length l), n_compress = False, n_chars = 1\<rparr>"
  have "nprint_loop sg pk ?st = Some (out @ dotted ls, Some (p + length (labels_wire ls) + 1))"
    using nprint_loop_labels [of ?st l ls' pk 0 sg] assms(2) p(3) Cons
    by (simp add: nprint_loop_end)
  then show ?thesis
    using p k Cons by (simp add: ns_nprint_def labellen_plain nd_ttest2_def del: of_nat_eq_0_iff)
qed

text \<open>A name that goes on behind a pointer is printed the same, and the result points behind the pointer.\<close>

lemma pointer_byte:
  assumes "q < 2 ^ 14"
  shows "(of_nat (q div 256 + 192) :: byte) AND 0xC0 = 0xC0" "(of_nat (q div 256 + 192) :: byte) \<noteq> 0"
proof -
  have "q div 256 < 64" using assms by simp
  then show "(of_nat (q div 256 + 192) :: byte) AND 0xC0 = 0xC0" by (rule byte_kinds)
  then show "(of_nat (q div 256 + 192) :: byte) \<noteq> 0" by auto
qed

lemma nprint_step_pointer:
  assumes "n_i st = of_nat (q div 256 + 192)" "q < 2 ^ 14" "n_cp st < length pk"
    "pk ! n_cp st = of_nat (q mod 256)" "q < length pk" "pk ! q AND 0xC0 \<noteq> 0x40"
    "n_chars st + 1 < length pk"
  shows "nprint_step sg pk st = Some (Inl \<lparr>n_out = n_out st, n_cp = q + 1, n_i = pk ! q, n_l = unat (pk ! q),
     n_rp = (if n_compress st then n_rp st else Some (n_cp st + 1)), n_compress = True,
     n_chars = n_chars st + 1\<rparr>)"
proof -
  have q: "q div 256 < 64" using assms(2) by simp
  have i: "n_i st AND 0xC0 = 0xC0" "n_i st \<noteq> 0"
    using pointer_byte [OF assms(2)] assms(1) by simp_all
  have "(unat (n_i st) * 2 ^ 8 + unat (pk ! n_cp st)) mod 2 ^ 14 = q"
  proof -
    have "unat (n_i st) = q div 256 + 192" "unat (pk ! n_cp st) = q mod 256"
      using q assms(1,4) by (simp_all only:) (rule of_nat_byte; simp)+
    moreover have "(q div 256 + 192) * 256 + q mod 256 = q + 3 * 2 ^ 14" by simp
    ultimately show ?thesis using assms(2) mod_mult_self1 [of q 3 "2 ^ 14"] by simp
  qed
  then show ?thesis
    using assms(3,5-7) i by (simp add: nprint_step_def nprint_pointer_def nd_ttest2_def labellen_plain)
qed

lemma nprint_loop_plain:
  assumes "bytes_at pk q (labels_wire ms @ [0])" "labels_ok ms" "n_compress st"
    "n_cp st = q + 1" "n_i st = pk ! q" "n_l st = unat (pk ! q)"
  shows "nprint_loop sg pk st = Some (n_out st @ dotted ms, n_rp st)"
proof (cases ms)
  case Nil
  then show ?thesis using assms by (simp add: nprint_loop_end bytes_at_Cons)
next
  case (Cons m ms')
  then have "pk ! q = of_nat (length m)" "bytes_at pk (q + 1) (m @ labels_wire ms' @ [0])"
    using assms(1) by (auto simp: bytes_at_Cons)
  moreover have "unat (of_nat (length m) :: byte) = length m"
    using assms(2) Cons by (simp add: of_nat_byte)
  ultimately show ?thesis
    using nprint_loop_labels [of st m ms' pk 0 sg] assms Cons by (simp add: nprint_loop_end)
qed

lemma plain_byte: "bytes_at pk q (labels_wire ms @ [0]) \<Longrightarrow> labels_ok ms \<Longrightarrow> q < length pk \<and> pk ! q AND 0xC0 \<noteq> 0x40"
  by (cases ms) (auto simp: bytes_at_Cons byte_kinds)

lemma ns_nprint_pointer_ok:
  assumes "bytes_at pk p (labels_wire ls @ [of_nat (q div 256 + 192), of_nat (q mod 256)])" "q < 2 ^ 14"
    "bytes_at pk q (labels_wire ms @ [0])" "labels_ok ls" "labels_ok ms"
    "length (labels_wire ls) + 2 < length pk"
  shows "ns_nprint sg pk out p = Some (out @ dotted (ls @ ms), Some (p + length (labels_wire ls) + 2))"
proof -
  let ?y = "of_nat (q div 256 + 192) :: byte"
  have q: "q < length pk" "pk ! q AND 0xC0 \<noteq> 0x40" using plain_byte [OF assms(3,5)] by simp_all
  note y = pointer_byte [OF assms(2)]
  have fin: "nprint_loop sg pk st = Some (n_out st @ dotted ms, Some (n_cp st + 1))"
    if "n_i st = ?y" "\<not> n_compress st" "n_cp st < length pk" "pk ! n_cp st = of_nat (q mod 256)"
      "n_chars st + 1 < length pk" for st
    using nprint_step_pointer [OF that(1) assms(2) that(3,4) q that(5), of sg] that(2)
      nprint_loop_plain [OF assms(3,5)]
    by (subst nprint_loop.simps) simp
  show ?thesis
  proof (cases ls)
    case Nil
    then have p: "p < length pk" "pk ! p = ?y" "p + 1 < length pk" "pk ! (p + 1) = of_nat (q mod 256)"
      using assms(1) by (auto simp: bytes_at_Cons)
    have "nprint_loop sg pk \<lparr>n_out = out, n_cp = p + 1, n_i = ?y, n_l = unat ?y, n_rp = None,
        n_compress = False, n_chars = 1\<rparr> = Some (out @ dotted ms, Some (p + 2))"
      by (subst fin) (use p Nil assms(6) in simp_all)
    then show ?thesis
      using y Nil p by (simp add: ns_nprint_def labellen_plain nd_ttest2_def del: of_nat_add)
  next
    case (Cons l ls')
    then have p: "p < length pk" "pk ! p = of_nat (length l)"
      "bytes_at pk (p + 1) (l @ labels_wire ls' @ [?y])"
      "p + length (labels_wire ls) + 1 < length pk"
      "pk ! (p + length (labels_wire ls) + 1) = of_nat (q mod 256)"
      using assms(1) by (auto simp: bytes_at_Cons bytes_at_append ac_simps)
    have l: "l \<noteq> []" "length l < 64" using assms(4) Cons by simp_all
    then have k: "(of_nat (length l) :: byte) AND 0xC0 = 0" "(of_nat (length l) :: byte) \<noteq> 0"
      "unat (of_nat (length l) :: byte) = length l"
      by (simp_all add: byte_kinds of_nat_byte_0 of_nat_byte)
    let ?st = "\<lparr>n_out = out, n_cp = p + 1, n_i = of_nat (length l), n_l = length l,
      n_rp = Some (p + 1 + length l), n_compress = False, n_chars = 1\<rparr>"
    let ?n = "p + 1 + length l + length (labels_wire ls')"
    let ?st2 = "\<lparr>n_out = out @ dotted ls, n_cp = ?n + 1, n_i = ?y, n_l = unat ?y,
      n_rp = Some (p + 1 + length l + length (labels_wire ls') + (unat ?y + 1)), n_compress = False,
      n_chars = 1 + length l + length (labels_wire ls') + 1\<rparr>"
    have at: "bytes_at pk (n_cp ?st) (l @ labels_wire ls' @ [?y])" using p(3) by simp
    have "nprint_loop sg pk ?st = nprint_loop sg pk ?st2"
      by (subst nprint_loop_labels [OF _ _ _ at]) (use assms(4) y(1) Cons in simp_all)
    also have "\<dots> = Some (out @ dotted ls @ dotted ms, Some (?n + 2))"
      by (subst fin) (use p(4,5) assms(6) Cons in \<open>simp_all add: ac_simps\<close>)
    also have "\<dots> = Some (out @ dotted (ls @ ms), Some (p + length (labels_wire ls) + 2))"
      using Cons by (simp add: dotted_def)
    finally have "nprint_loop sg pk ?st = Some (out @ dotted (ls @ ms), Some (p + length (labels_wire ls) + 2))" .
    then show ?thesis
      using p k Cons by (simp add: ns_nprint_def labellen_plain nd_ttest2_def del: of_nat_eq_0_iff)
  qed
qed

text \<open>
  C17: A domain name is printed label by label with a dot behind each, whether it is spelled out or
  goes on behind a compression pointer, and the printer returns the address behind the name.
\<close>

theorem ns_nprint_name:
  assumes "labels_ok ls" "labels_ok ms" "q < 2 ^ 14" "bytes_at pk q (labels_wire ms @ [0])"
    "length (labels_wire ls) + 2 < length pk"
  shows "(bytes_at pk p (labels_wire ls @ [0]) \<longrightarrow>
      ns_nprint sg pk out p = Some (out @ (if ls = [] then ''.'' else dotted ls),
        Some (p + length (labels_wire ls) + 1))) \<and>
    (bytes_at pk p (labels_wire ls @ [of_nat (q div 256 + 192), of_nat (q mod 256)]) \<longrightarrow>
      ns_nprint sg pk out p = Some (out @ dotted (ls @ ms),
        Some (p + length (labels_wire ls) + 2)))"
  using ns_nprint_name_ok ns_nprint_pointer_ok assms by blast

lemma ns_nprint_name_witness:
  "ns_nprint True (cstr ''xx'' @ [3] @ cstr ''com'' @ [0, 2] @ cstr ''ad'' @ [0xC0, 2]) [] 7 =
    Some (''ad.com.'', Some 12)"
proof -
  let ?pk = "cstr ''xx'' @ [3] @ cstr ''com'' @ [0, 2] @ cstr ''ad'' @ [0xC0, 2] :: byte list"
  have "labels_ok [cstr ''ad'']" "labels_ok [cstr ''com'']"
    "bytes_at ?pk 2 (labels_wire [cstr ''com''] @ [0])"
    "bytes_at ?pk 7 (labels_wire [cstr ''ad''] @ [of_nat (2 div 256 + 192), of_nat (2 mod 256)])"
    by (simp_all add: bytes_at_def)
  then have "ns_nprint True ?pk [] 7 = Some ([] @ dotted ([cstr ''ad''] @ [cstr ''com'']),
      Some (7 + length (labels_wire [cstr ''ad'']) + 2))"
    using ns_nprint_name [of "[cstr ''ad'']" "[cstr ''com'']" 2 ?pk 7 True "[]"] by simp
  moreover have "dotted ([cstr ''ad''] @ [cstr ''com'']) = ''ad.com.''" by code_simp
  ultimately show ?thesis by simp
qed

subsection \<open>What the app reads\<close>

lemma ns_nskip_loop_labels:
  "labels_ok ls \<Longrightarrow> bytes_at pk p (labels_wire ls @ [0]) \<Longrightarrow>
   ns_nskip_loop pk (p + 1) (pk ! p) = Some (Some (p + length (labels_wire ls) + 1))"
proof (induction ls arbitrary: p)
  case Nil
  then show ?case by (subst ns_nskip_loop.simps) (simp add: bytes_at_Cons)
next
  case (Cons l ls)
  then have l: "pk ! p = of_nat (length l)" "l \<noteq> []" "length l < 64"
    and at: "bytes_at pk (p + 1 + length l) (labels_wire ls @ [0])"
    by (simp_all add: bytes_at_Cons bytes_at_append)
  have k: "pk ! p AND 0xC0 = 0" "pk ! p \<noteq> 0" "unat (pk ! p) = length l"
    using l by (simp_all add: byte_kinds of_nat_byte_0 of_nat_byte)
  have e: "p + 1 + length l < length pk" using at by (cases ls) (simp_all add: bytes_at_Cons)
  have "ns_nskip_loop pk (p + 1) (pk ! p) = ns_nskip_loop pk (p + 1 + length l + 1) (pk ! (p + 1 + length l))"
    using k e by (subst ns_nskip_loop.simps) (simp add: nd_ttest2_def)
  then show ?case using Cons.IH [OF _ at] Cons.prems(1) by simp
qed

lemma ns_nskip_name:
  assumes "labels_ok ls" "bytes_at pk p (labels_wire ls @ [0])"
  shows "ns_nskip pk p = Some (Some (p + length (labels_wire ls) + 1))"
proof -
  have "p < length pk" using assms by (cases ls) (simp_all add: bytes_at_Cons)
  then show ?thesis using ns_nskip_loop_labels [OF assms] by (simp add: ns_nskip_def nd_ttest2_def)
qed

text \<open>Printable characters are printed as they are.\<close>

definition printable :: "string \<Rightarrow> bool" where
  "printable h \<longleftrightarrow> list_all (\<lambda>c. 0x20 \<le> (of_char c :: nat) \<and> (of_char c :: nat) \<le> 0x7E) h"

lemma nd_char_printable:
  assumes "0x20 \<le> (of_char c :: nat)" "(of_char c :: nat) \<le> 0x7E"
  shows "nd_char (of_char c) = [c]"
proof -
  have "list_all (\<lambda>k::nat. nd_char (of_nat k) = [char_of k]) [0x20..<0x7F]" by code_simp
  moreover have "(of_char c :: nat) \<in> set [0x20..<0x7F]" using assms by (simp only: set_upt) simp
  ultimately have "nd_char (of_nat (of_char c)) = [char_of (of_char c :: nat)]"
    unfolding list_all_iff by blast
  moreover have "of_nat (of_char c) = (of_char c :: byte)" by (simp add: of_char_def)
  ultimately show ?thesis by simp
qed

lemma dotted_printable:
  "list_all printable hs \<Longrightarrow> dotted (map cstr hs) = concat (map (\<lambda>h. h @ ''.'') hs)"
proof (induction hs)
  case (Cons h hs)
  have "concat (map nd_char (cstr h)) = h" if "printable h" for h
    using that by (induction h) (simp_all add: printable_def nd_char_printable)
  then show ?case using Cons by simp
qed simp

text \<open>A query for the addresses of a host, as a resolver sends it, with what follows the question.\<close>

definition be16 :: "nat \<Rightarrow> byte list" where
  "be16 n = [of_nat (n div 256), of_nat (n mod 256)]"

definition dns_query :: "nat \<Rightarrow> nat \<Rightarrow> string list \<Rightarrow> nat \<Rightarrow> byte list" where
  "dns_query i ar hs t = be16 i @ [1, 0, 0, 1, 0, 0, 0, 0] @ be16 ar
     @ labels_wire (map cstr hs) @ [0] @ be16 t @ [0, 1]"

lemma extract_be16: "bytes_at pk p (be16 n) \<Longrightarrow> n < 65536 \<Longrightarrow> extract_16bits pk p = Some n"
  by (auto simp: be16_def bytes_at_Cons extract_16bits_def unat_of_nat)

lemma dns_query_at:
  fixes hs :: "string list"
  assumes "pk = dns_query i ar hs t @ rest"
  shows "bytes_at pk 0 (be16 i)" "bytes_at pk 2 [1, 0, 0, 1, 0, 0, 0, 0]" "bytes_at pk 10 (be16 ar)"
    "bytes_at pk 12 (labels_wire (map cstr hs) @ [0])"
    "bytes_at pk (12 + length (labels_wire (map cstr hs)) + 1) (be16 t @ [0, 1])"
proof -
  let ?w = "labels_wire (map cstr hs)"
  have l: "length (be16 n) = 2" "length [1, 0, 0, 1, 0, 0, 0, 0 :: byte] = 8" "length [0 :: byte] = 1" for n
    by (simp_all add: be16_def)
  have "bytes_at pk 0 (be16 i @ [1, 0, 0, 1, 0, 0, 0, 0] @ be16 ar @ ?w @ [0] @ be16 t @ [0, 1])"
    using bytes_at_here [of "[]" "dns_query i ar hs t" rest] assms by (simp add: dns_query_def)
  then show "bytes_at pk 0 (be16 i)" "bytes_at pk 2 [1, 0, 0, 1, 0, 0, 0, 0]" "bytes_at pk 10 (be16 ar)"
    "bytes_at pk 12 (?w @ [0])" "bytes_at pk (12 + length ?w + 1) (be16 t @ [0, 1])"
    unfolding bytes_at_append l by (simp_all add: bytes_at_append ac_simps numeral_2_eq_2)
qed

lemma unat_bits_01: "(1 :: byte) AND 0x80 = 0" "(1 :: byte) AND 0x01 = 1" "(0x100 :: nat) AND 0x6cf = 0"
  by code_simp+

text \<open>
  C5: With the options the app passes (at most one -v), a query for an address of a host is printed
  with the host name between "A? " or "AAAA? " and ". ", which is what the app's pattern
  extracts, whatever the query carries behind its question.
\<close>

theorem dns_query_logged:
  assumes "hs \<noteq> []" "list_all (\<lambda>h. h \<noteq> [] \<and> length h < 64) hs" "list_all printable hs"
    "i < 65536" "ar < 65536" "t < 65536" "vflag \<le> 1"
  shows "ns_print sg ntop6 vflag (dns_query i ar hs t @ rest) len False =
    Some (dec_nat i @ ''+'' @ (if ar \<noteq> 0 then '' ['' @ dec_nat ar @ ''au]'' else [])
      @ '' '' @ type_str t @ ''? '' @ concat (map (\<lambda>h. h @ ''.'') hs) @ '' ('' @ dec_nat len @ '')'')"
proof -
  define pk where "pk = dns_query i ar hs t @ rest"
  note at = dns_query_at [OF pk_def]
  let ?ls = "map cstr hs" let ?n = "length (labels_wire ?ls)"
  have len: "12 + ?n + 5 \<le> length pk" using at(5) by (simp add: bytes_at_def be16_def)
  have ok: "labels_ok ?ls" using assms(2) by (auto simp: labels_ok_def list_all_iff cstr_def)
  have z: "pk ! 2 = 1" "pk ! 3 = 0" "pk ! 4 = 0" "pk ! 5 = 1" "pk ! 6 = 0" "pk ! 7 = 0" "pk ! 8 = 0" "pk ! 9 = 0"
    using at(2) by (simp_all add: bytes_at_Cons numeral_eq_Suc)
  have h: "read_header pk = Some \<lparr>h_id = i, h_flags1 = 1, h_flags2 = 0, h_b2 = 256, h_qdcount = 1,
      h_ancount = 0, h_nscount = 0, h_arcount = ar\<rparr>"
    using extract_be16 [OF at(1) assms(4)] extract_be16 [OF at(3) assms(5)] z len
    by (simp add: read_header_def extract_16bits_Some)
  have "bytes_at pk (12 + ?n + 1) (be16 t)" using at(5) by (simp add: bytes_at_append)
  then have q1: "extract_16bits pk (12 + ?n + 1) = Some t" by (rule extract_be16 [OF _ assms(6)])
  have "pk ! (12 + ?n + 3) = 0" "pk ! (12 + ?n + 4) = 1"
    using at(5) by (simp_all add: be16_def bytes_at_Cons ac_simps)
  then have q2: "extract_16bits pk (12 + ?n + 3) = Some 1"
    using len by (simp add: extract_16bits_Some ac_simps)
  have qp: "ns_qprint sg pk False out 12 = Some (out @ '' '' @ type_str t @ ''? '' @ dotted ?ls, Some (12 + ?n + 5))" for out
    using ns_nskip_name [OF ok at(4)] ns_nprint_name_ok [OF at(4) ok] q1 q2 len assms(1)
    by (simp add: ns_qprint_def nd_ttest2_def ac_simps)
  have "ns_request sg ntop6 pk vflag False \<lparr>h_id = i, h_flags1 = 1, h_flags2 = 0, h_b2 = 256, h_qdcount = 1,
      h_ancount = 0, h_nscount = 0, h_arcount = ar\<rparr> = Some (dec_nat i @ ''+''
      @ (if ar \<noteq> 0 then '' ['' @ dec_nat ar @ ''au]'' else []) @ '' '' @ type_str t @ ''? '' @ dotted ?ls,
      Some (12 + ?n + 5))"
    using assms(7) qp
    by (simp add: ns_request_def q_req_def count_note_def dns_opcode_def ns_ops_def unat_bits_01 Let_def)
  then show ?thesis
    using h len unat_bits_01 dotted_printable [OF assms(3)]
    by (simp add: ns_print_def nd_ttest2_def flip: pk_def)
qed

lemma dns_query_logged_witness:
  "ns_print True (\<lambda>_. []) 1 (dns_query 7 1 [''ads'', ''com''] 28 @ [0]) 37 False =
     Some ''7+ [1au] AAAA? ads.com. (37)''"
proof -
  have "list_all printable [''ads'', ''com'']" by code_simp
  then have "ns_print True (\<lambda>_. []) 1 (dns_query 7 1 [''ads'', ''com''] 28 @ [0]) 37 False =
    Some (dec_nat 7 @ ''+'' @ (if (1::nat) \<noteq> 0 then '' ['' @ dec_nat 1 @ ''au]'' else [])
      @ '' '' @ type_str 28 @ ''? '' @ concat (map (\<lambda>h. h @ ''.'') [''ads'', ''com'']) @ '' ('' @ dec_nat 37 @ '')'')"
    by (intro dns_query_logged) simp_all
  moreover have "type_str 28 = ''AAAA''" "dec_nat 7 = ''7''" "dec_nat 1 = ''1''" "dec_nat 37 = ''37''"
    by code_simp+
  ultimately show ?thesis by simp
qed



end
