(* ===== verification/Mg_Json.thy ===== *)
theory Mg_Json
  imports Mg_Str Mg_Base64
begin

text \<open>
  The JSON reader of mongoose (\<^verbatim>\<open>src/json.c\<close>) and the writer of JSON strings (\<open>qcpy\<close> of
  \<^verbatim>\<open>src/printf.c\<close>). \<open>mg_json_get\<close> scans a text once with a four-state machine and a stack of open
  brackets, and follows a path such as \<open>$.a[2].b\<close> while it scans. The path is a C string: the list
  holds its terminating NUL. A read outside of the text, the path or the stack, and an overflow of
  the \<open>int\<close> that holds an array index, are \<open>None\<close>.
\<close>

abbreviation (input) MG_JSON_MAX_DEPTH :: nat where "MG_JSON_MAX_DEPTH \<equiv> 30"
abbreviation (input) MG_JSON_TOO_DEEP :: int where "MG_JSON_TOO_DEEP \<equiv> -1"
abbreviation (input) MG_JSON_INVALID :: int where "MG_JSON_INVALID \<equiv> -2"
abbreviation (input) MG_JSON_NOT_FOUND :: int where "MG_JSON_NOT_FOUND \<equiv> -3"

subsection \<open>Strings\<close>

definition escapeseq :: "bool \<Rightarrow> byte list" where
  "escapeseq esc = (if esc then [8, 12, 10, 13, 9, 92, 34] else [98, 102, 110, 114, 116, 92, 34])"

definition json_esc :: "byte \<Rightarrow> bool \<Rightarrow> byte" where
  "json_esc c esc = (case map_of (zip (escapeseq esc) (escapeseq (\<not> esc))) c of Some d \<Rightarrow> d | None \<Rightarrow> 0)"

text \<open>\<open>mg_pass_string\<close> on the bytes up to \<open>len\<close>; \<open>i\<close> counts those behind it. \<open>None\<close> is \<open>MG_JSON_INVALID\<close>.\<close>

fun mg_pass_string :: "byte list \<Rightarrow> nat \<Rightarrow> nat option" where
  "mg_pass_string [] i = None"
| "mg_pass_string [a] i = (if a = 34 then Some i else None)"
| "mg_pass_string (a # b # s) i =
     (if a = 92 \<and> json_esc b True \<noteq> 0 then mg_pass_string s (i + 2)
      else if a = 0 then None
      else if a = 34 then Some i
      else mg_pass_string (b # s) (i + 1))"

text \<open>\<open>qcpy\<close> and \<open>mg_esc\<close>: what \<open>mg_print_esc\<close> prints for a string, up to a NUL.\<close>

fun qcpy :: "byte list \<Rightarrow> byte list" where
  "qcpy [] = []"
| "qcpy (b # s) =
     (if b = 0 then []
      else let c = json_esc b True in
        if c \<noteq> 0 then 92 # c # qcpy s else b # qcpy s)"

text \<open>
  \<open>mg_json_unescape\<close> into a buffer \<open>to\<close> of which \<open>n\<close> bytes may be written; \<open>j\<close> counts those
  written. The result is the flag and the buffer.
\<close>

function unescape_loop :: "byte list \<Rightarrow> nat \<Rightarrow> byte list \<Rightarrow> nat \<Rightarrow> nat \<Rightarrow> (bool \<times> byte list \<times> nat) option" where
  "unescape_loop s i to j n =
     (if i < length s \<and> j < n then do {
        a \<leftarrow> rd s i;
        if a = 92 \<and> i + 5 < length s \<and> rd s (i + 1) = Some 0x75 then
          (case mg_str_to_num (take 4 (drop (i + 2) s)) 16 1 of
             None \<Rightarrow> Some (False, to, j)
           | Some v \<Rightarrow> do { to \<leftarrow> wr to j (of_nat v); unescape_loop s (i + 6) to (j + 1) n })
        else if a = 92 \<and> i + 1 < length s then do {
          b \<leftarrow> rd s (i + 1);
          let c = json_esc b False;
          if c = 0 then Some (False, to, j)
          else do { to \<leftarrow> wr to j c; unescape_loop s (i + 2) to (j + 1) n } }
        else do { to \<leftarrow> wr to j a; unescape_loop s (i + 1) to (j + 1) n } }
      else Some (True, to, j))"
  by pat_completeness auto
termination by (relation "measure (\<lambda>(s, i, to, j, n). length s - i)") auto

declare unescape_loop.simps [simp del]

definition mg_json_unescape :: "byte list \<Rightarrow> byte list \<Rightarrow> nat \<Rightarrow> (bool \<times> byte list) option" where
  "mg_json_unescape s to n = do {
     (ok, to, j) \<leftarrow> unescape_loop s 0 to 0 n;
     if \<not> ok then Some (False, to)
     else if n \<le> j then Some (False, to)
     else if 0 < n then do { to \<leftarrow> wr to j 0; Some (True, to) }
     else Some (True, to) }"

subsection \<open>Numbers\<close>

text \<open>
  The length \<open>mg_atod\<close> reports: sign, digits, fraction and exponent. The loop over the exponent
  stops when the value reaches 308. The value itself is a \<open>double\<close> and is not modelled.
\<close>

fun exp_digits :: "byte list \<Rightarrow> nat \<Rightarrow> nat" where
  "exp_digits [] e = 0"
| "exp_digits (c # s) e = (if is_digit c \<and> e < 308 then Suc (exp_digits s (e * 10 + unat (c - 0x30))) else 0)"

definition num_digits :: "byte list \<Rightarrow> nat" where
  "num_digits s = length (takeWhile is_digit s)"

definition atod_sign :: "byte list \<Rightarrow> nat" where
  "atod_sign p = (if p \<noteq> [] \<and> (hd p = 0x2D \<or> hd p = 0x2B) then 1 else 0)"

definition atod_int :: "byte list \<Rightarrow> nat" where
  "atod_int p = (let i = atod_sign p in i + num_digits (drop i p))"

definition atod_frac :: "byte list \<Rightarrow> nat" where
  "atod_frac p =
     (let i = atod_int p in
      if i < length p \<and> p ! i = 0x2E then i + 1 + num_digits (drop (i + 1) p) else i)"

definition atod_exp :: "byte list \<Rightarrow> nat \<Rightarrow> nat" where
  "atod_exp p i =
     (let i = i + 1;
          i = (if i < length p \<and> p ! i = 0x2D then i + 1 else i);
          i = (if i < length p \<and> p ! i = 0x2B then i + 1 else i) in
      i + exp_digits (drop i p) 0)"

definition atod_len :: "byte list \<Rightarrow> nat" where
  "atod_len p =
     (let i = atod_frac p in
      if i < length p \<and> (p ! i = 0x65 \<or> p ! i = 0x45) then atod_exp p i else i)"

subsection \<open>The scanner\<close>

datatype expecting = S_VALUE | S_KEY | S_COLON | S_COMMA_OR_EOO

record json_state =
  js_expecting :: expecting
  js_nesting :: "byte list"
  js_i :: nat
  js_j :: nat
  js_depth :: nat
  js_ed :: nat
  js_pos :: nat
  js_ci :: int
  js_ei :: int

type_synonym json_result = "int \<times> int"

text \<open>A step goes on (\<open>Inl\<close>) or returns the value of the function and \<open>*toklen\<close> (\<open>Inr\<close>).\<close>

type_synonym json_step = "(json_state + json_result) option"

definition jerr :: "int \<Rightarrow> json_step" where
  "jerr e = Some (Inr (e, 0))"

definition jbind :: "json_step \<Rightarrow> (json_state \<Rightarrow> json_step) \<Rightarrow> json_step" where
  "jbind m f = (case m of None \<Rightarrow> None | Some (Inr r) \<Rightarrow> Some (Inr r) | Some (Inl st) \<Rightarrow> f st)"

text \<open>The macros \<open>MG_CHECKRET\<close> and \<open>MG_EOO\<close>.\<close>

definition mg_checkret :: "byte list \<Rightarrow> json_state \<Rightarrow> json_step" where
  "mg_checkret path st =
     (if js_depth st = js_ed st then do {
        c \<leftarrow> rd path (js_pos st);
        if c = 0 \<and> js_ci st = js_ei st
        then Some (Inr (int (js_j st), int (js_i st) - int (js_j st) + 1))
        else Some (Inl st) }
      else Some (Inl st))"

definition nest_top :: "json_state \<Rightarrow> byte option" where
  "nest_top st = (if js_depth st = 0 then None else rd (js_nesting st) (js_depth st - 1))"

definition mg_eoo :: "byte list \<Rightarrow> byte \<Rightarrow> json_state \<Rightarrow> json_step" where
  "mg_eoo path c st =
     (if js_depth st = js_ed st \<and> js_ci st \<noteq> js_ei st then jerr MG_JSON_NOT_FOUND
      else do {
        t \<leftarrow> nest_top st;
        if uint c \<noteq> uint t + 2 then jerr MG_JSON_INVALID
        else mg_checkret path (st\<lparr>js_depth := js_depth st - 1\<rparr>) })"

definition index_next :: "json_state \<Rightarrow> json_state" where
  "index_next st = (if js_depth st = js_ed st \<and> 0 \<le> js_ei st then st\<lparr>js_ci := js_ci st + 1\<rparr> else st)"

definition push_nesting :: "byte \<Rightarrow> json_state \<Rightarrow> json_state option" where
  "push_nesting c st = do {
     ns \<leftarrow> wr (js_nesting st) (js_depth st) c;
     Some (st\<lparr>js_nesting := ns, js_depth := js_depth st + 1\<rparr>) }"

text \<open>
  The loop that reads an array index of the path: the index and the position of its end. \<open>path\<close> is
  what is left of it; a value that does not fit an \<open>int\<close> is \<open>None\<close>.
\<close>

definition is_int32 :: "int \<Rightarrow> bool" where
  "is_int32 n \<longleftrightarrow> - (2 ^ 31) \<le> n \<and> n < 2 ^ 31"

fun path_index :: "bool \<Rightarrow> byte list \<Rightarrow> nat \<Rightarrow> int \<Rightarrow> (nat \<times> int) option" where
  "path_index sg [] pos ei = None"
| "path_index sg (c # path) pos ei =
     (if c = 0x5D \<or> c = 0 then Some (pos, ei)
      else let e10 = ei * 10; ei = e10 + (cint sg c - 0x30) in
        if is_int32 e10 \<and> is_int32 ei then path_index sg path (pos + 1) ei else None)"

definition is_json_ws :: "byte \<Rightarrow> bool" where
  "is_json_ws c \<longleftrightarrow> c = 0x20 \<or> c = 0x09 \<or> c = 0x0A \<or> c = 0x0D"

text \<open>The four states of the scanner. \<open>s\<close> is the text up to \<open>len\<close>, \<open>c\<close> its byte at \<open>i\<close>.\<close>

definition value_done :: "byte list \<Rightarrow> json_state \<Rightarrow> json_step" where
  "value_done path st =
     jbind (mg_checkret path st) (\<lambda>st. Some (Inl ((index_next st)\<lparr>js_expecting := S_COMMA_OR_EOO\<rparr>)))"

definition open_object :: "byte list \<Rightarrow> byte \<Rightarrow> json_state \<Rightarrow> json_step" where
  "open_object path c st =
     (if MG_JSON_MAX_DEPTH \<le> js_depth st then jerr MG_JSON_TOO_DEEP
      else do {
        p \<leftarrow> (if js_depth st = js_ed st then rd path (js_pos st) else Some 0);
        let st = (if js_depth st = js_ed st \<and> p = 0x2E \<and> js_ci st = js_ei st
                  then st\<lparr>js_ed := js_ed st + 1, js_pos := js_pos st + 1, js_ci := -1, js_ei := -1\<rparr> else st);
        st \<leftarrow> push_nesting c st;
        Some (Inl (st\<lparr>js_expecting := S_KEY\<rparr>)) })"

definition open_array :: "bool \<Rightarrow> byte list \<Rightarrow> byte \<Rightarrow> json_state \<Rightarrow> json_step" where
  "open_array sg path c st =
     (if MG_JSON_MAX_DEPTH \<le> js_depth st then jerr MG_JSON_TOO_DEEP
      else do {
        p \<leftarrow> (if js_depth st = js_ed st then rd path (js_pos st) else Some 0);
        st \<leftarrow>
          (if js_depth st = js_ed st \<and> p = 0x5B \<and> js_ei st = js_ci st then do {
             (pos, ei) \<leftarrow> path_index sg (drop (js_pos st + 1) path) (js_pos st + 1) 0;
             e \<leftarrow> rd path pos;
             Some (st\<lparr>js_ed := js_ed st + 1, js_pos := (if e \<noteq> 0 then pos + 1 else pos), js_ci := 0, js_ei := ei\<rparr>) }
           else Some st);
        st \<leftarrow> push_nesting c st;
        Some (Inl st) })"

definition step_value :: "bool \<Rightarrow> byte list \<Rightarrow> byte list \<Rightarrow> byte \<Rightarrow> json_state \<Rightarrow> json_step" where
  "step_value sg path s c st =
     (let st = (if js_depth st = js_ed st then st\<lparr>js_j := js_i st\<rparr> else st);
          i = js_i st in
      if c = 0x7B then open_object path c st
      else if c = 0x5B then open_array sg path c st
      else if c = 0x5D \<and> 0 < js_depth st then jbind (mg_eoo path c st) (value_done path)
      else if c = 0x74 \<and> i + 3 < length s \<and> take 4 (drop i s) = cstr ''true'' then
        value_done path (st\<lparr>js_i := i + 3\<rparr>)
      else if c = 0x6E \<and> i + 3 < length s \<and> take 4 (drop i s) = cstr ''null'' then
        value_done path (st\<lparr>js_i := i + 3\<rparr>)
      else if c = 0x66 \<and> i + 4 < length s \<and> take 5 (drop i s) = cstr ''false'' then
        value_done path (st\<lparr>js_i := i + 4\<rparr>)
      else if c = 0x2D \<or> is_digit c then
        value_done path (st\<lparr>js_i := i + atod_len (drop i s) - 1\<rparr>)
      else if c = 0x22 then
        (case mg_pass_string (drop (i + 1) s) 0 of
           None \<Rightarrow> jerr MG_JSON_INVALID
         | Some n \<Rightarrow> value_done path (st\<lparr>js_i := i + n + 1\<rparr>))
      else jerr MG_JSON_INVALID)"

text \<open>\<open>strncmp\<close> of \<open>n\<close> bytes at the two lists, as far as its equality test goes.\<close>

fun strncmp_eq :: "byte list \<Rightarrow> byte list \<Rightarrow> nat \<Rightarrow> bool option" where
  "strncmp_eq a b 0 = Some True"
| "strncmp_eq (x # a) (y # b) (Suc n) =
     (if x \<noteq> y then Some False else if x = 0 then Some True else strncmp_eq a b n)"
| "strncmp_eq _ _ (Suc n) = None"

definition step_key :: "byte list \<Rightarrow> byte list \<Rightarrow> byte \<Rightarrow> json_state \<Rightarrow> json_step" where
  "step_key path s c st =
     (let i = js_i st; depth = js_depth st; ed = js_ed st; pos = js_pos st in
      if c = 0x22 then
        (case mg_pass_string (drop (i + 1) s) 0 of
           None \<Rightarrow> jerr MG_JSON_INVALID
         | Some n \<Rightarrow>
             if length s \<le> i + 1 + n then jerr MG_JSON_NOT_FOUND
             else if depth < ed then jerr MG_JSON_NOT_FOUND
             else do {
               p \<leftarrow> (if depth = ed then if pos = 0 then None else rd path (pos - 1) else Some 0);
               if depth = ed \<and> p \<noteq> 0x2E then jerr MG_JSON_NOT_FOUND
               else do {
                 m \<leftarrow> (if depth = ed \<and> p = 0x2E then strncmp_eq (drop (i + 1) s) (drop pos path) n else Some False);
                 e \<leftarrow> (if m then do { x \<leftarrow> rd path (pos + n); Some (x = 0 \<or> x = 0x2E \<or> x = 0x5B) } else Some False);
                 Some (Inl (st\<lparr>js_pos := (if e then pos + n else pos), js_i := i + n + 1,
                   js_expecting := S_COLON\<rparr>)) } })
      else if c = 0x7D then
        jbind (mg_eoo path c st) (\<lambda>st. Some (Inl (index_next (st\<lparr>js_expecting := S_COMMA_OR_EOO\<rparr>))))
      else jerr MG_JSON_INVALID)"

definition step_comma :: "byte list \<Rightarrow> byte \<Rightarrow> json_state \<Rightarrow> json_step" where
  "step_comma path c st =
     (if js_depth st = 0 then jerr MG_JSON_INVALID
      else if c = 0x2C then do {
        t \<leftarrow> nest_top st;
        Some (Inl (st\<lparr>js_expecting := (if t = 0x7B then S_KEY else S_VALUE)\<rparr>)) }
      else if c = 0x5D \<or> c = 0x7D then do {
        p \<leftarrow> (if js_depth st = js_ed st then if js_pos st = 0 then None else rd path (js_pos st - 1) else Some 0);
        if js_depth st = js_ed st \<and> c = 0x7D \<and> p = 0x2E then jerr MG_JSON_NOT_FOUND
        else if js_depth st = js_ed st \<and> c = 0x5D \<and> p = 0x2C then jerr MG_JSON_NOT_FOUND
        else jbind (mg_eoo path c st) (\<lambda>st. Some (Inl (index_next st))) }
      else jerr MG_JSON_INVALID)"

definition json_step :: "bool \<Rightarrow> byte list \<Rightarrow> byte list \<Rightarrow> json_state \<Rightarrow> json_step" where
  "json_step sg path s st = do {
     c \<leftarrow> rd s (js_i st);
     if is_json_ws c then Some (Inl st)
     else (case js_expecting st of
         S_VALUE \<Rightarrow> step_value sg path s c st
       | S_KEY \<Rightarrow> step_key path s c st
       | S_COLON \<Rightarrow> if c = 0x3A then Some (Inl (st\<lparr>js_expecting := S_VALUE\<rparr>)) else jerr MG_JSON_INVALID
       | S_COMMA_OR_EOO \<Rightarrow> step_comma path c st) }"

lemma atod_len_ge: "atod_sign p + num_digits (drop (atod_sign p) p) \<le> atod_len p"
proof -
  have "atod_int p \<le> atod_frac p" by (simp add: atod_frac_def Let_def)
  also have "atod_frac p \<le> atod_len p" by (simp add: atod_len_def atod_exp_def Let_def)
  finally show ?thesis by (simp add: atod_int_def Let_def)
qed

lemma is_digit_atod:
  assumes "p \<noteq> []" "hd p = 0x2D \<or> is_digit (hd p)"
  shows "0 < atod_len p"
proof (cases "atod_sign p = 0")
  case False
  then show ?thesis using atod_len_ge [of p] by simp
next
  case True
  then have "num_digits p \<le> atod_len p" using atod_len_ge [of p] by simp
  moreover have "0 < num_digits p"
    using assms True by (cases p) (auto simp: num_digits_def atod_sign_def split: if_splits)
  ultimately show ?thesis by simp
qed

lemma jbind_Inl: "jbind m f = Some (Inl st) \<longleftrightarrow> (\<exists>st'. m = Some (Inl st') \<and> f st' = Some (Inl st))"
  by (auto simp: jbind_def split: option.splits sum.splits)

lemma checkret_Inl: "mg_checkret path st = Some (Inl st') \<Longrightarrow> st' = st"
  by (auto simp: mg_checkret_def split: if_splits bind_splits)

lemma eoo_Inl: "mg_eoo path c st = Some (Inl st') \<Longrightarrow> st' = st\<lparr>js_depth := js_depth st - 1\<rparr>"
  by (auto simp: mg_eoo_def jerr_def split: if_splits bind_splits dest: checkret_Inl)

lemma index_next_i [simp]: "js_i (index_next st) = js_i st"
  by (simp add: index_next_def)

lemma value_done_Inl: "value_done path st = Some (Inl st') \<Longrightarrow> js_i st' = js_i st"
  by (auto simp: value_done_def jbind_Inl dest!: checkret_Inl)

lemma push_nesting_i: "push_nesting c st = Some st' \<Longrightarrow> js_i st' = js_i st"
  by (auto simp: push_nesting_def split: bind_splits)

lemma open_object_mono: "open_object path c st = Some (Inl st') \<Longrightarrow> js_i st' = js_i st"
  by (auto simp: jerr_def open_object_def Let_def split: if_splits bind_splits dest!: push_nesting_i)

lemma open_array_mono: "open_array sg path c st = Some (Inl st') \<Longrightarrow> js_i st' = js_i st"
  by (auto simp: jerr_def open_array_def split: if_splits bind_splits dest!: push_nesting_i)

lemma close_array_mono: "jbind (mg_eoo path c st) (value_done path) = Some (Inl st') \<Longrightarrow> js_i st' = js_i st"
  by (auto simp: jbind_Inl dest!: value_done_Inl eoo_Inl)

lemma step_value_mono:
  assumes "step_value sg path s c st = Some (Inl st')" "rd s (js_i st) = Some c"
  shows "js_i st \<le> js_i st'"
proof -
  define u where "u = (if js_depth st = js_ed st then st\<lparr>js_j := js_i st\<rparr> else st)"
  have u: "js_i u = js_i st" by (simp add: u_def)
  have a: "0 < atod_len (drop (js_i st) s)" if "c = 0x2D \<or> is_digit c"
    using that assms(2) by (intro is_digit_atod) (auto simp: rd_eq_Some_iff hd_drop_conv_nth)
  show ?thesis
    using assms(1) a u unfolding step_value_def Let_def u_def [symmetric]
    by (simp add: jerr_def split: if_splits option.splits)
       (auto dest!: open_object_mono open_array_mono close_array_mono value_done_Inl)
qed

lemma step_key_mono: "step_key path s c st = Some (Inl st') \<Longrightarrow> js_i st \<le> js_i st'"
  by (auto simp: step_key_def jerr_def jbind_Inl Let_def split: if_splits option.splits bind_splits
      dest!: eoo_Inl)

lemma step_comma_mono: "step_comma path c st = Some (Inl st') \<Longrightarrow> js_i st \<le> js_i st'"
  by (auto simp: step_comma_def jerr_def jbind_Inl split: if_splits bind_splits dest!: eoo_Inl)

lemma json_step_mono: "json_step sg path s st = Some (Inl st') \<Longrightarrow> js_i st \<le> js_i st'"
  by (auto simp: json_step_def jerr_def split: if_splits bind_splits expecting.splits
      dest: step_value_mono step_key_mono step_comma_mono)

function json_loop :: "bool \<Rightarrow> byte list \<Rightarrow> byte list \<Rightarrow> json_state \<Rightarrow> json_result option" where
  "json_loop sg path s st =
     (if js_i st < length s then
        (case json_step sg path s st of
           None \<Rightarrow> None
         | Some (Inr r) \<Rightarrow> Some r
         | Some (Inl st') \<Rightarrow> json_loop sg path s (st'\<lparr>js_i := js_i st' + 1\<rparr>))
      else Some (MG_JSON_NOT_FOUND, 0))"
  by pat_completeness auto
termination
  by (relation "measure (\<lambda>(sg, path, s, st). length s - js_i st)") (auto dest!: json_step_mono)

declare json_loop.simps [simp del]

text \<open>
  \<open>mg_json_get\<close>. The length of the text is an \<open>int\<close>; a text of 2 GiB or more has a negative length,
  for which the loop does not run. \<open>nesting\<close> is not initialised: the model takes any content \<open>ns\<close>.
\<close>

definition json_len :: "nat \<Rightarrow> nat" where
  "json_len n = (let m = n mod 2 ^ 32 in if m < 2 ^ 31 then m else 0)"

definition json_init :: "byte list \<Rightarrow> json_state" where
  "json_init ns = \<lparr>js_expecting = S_VALUE, js_nesting = ns, js_i = 0, js_j = 0, js_depth = 0, js_ed = 0,
     js_pos = 1, js_ci = -1, js_ei = -1\<rparr>"

definition mg_json_get :: "bool \<Rightarrow> byte list \<Rightarrow> byte list \<Rightarrow> byte list \<Rightarrow> json_result option" where
  "mg_json_get sg ns json path = do {
     p \<leftarrow> rd path 0;
     if p \<noteq> 0x24 then Some (MG_JSON_INVALID, 0)
     else json_loop sg path (take (json_len (length json)) json) (json_init ns) }"

subsection \<open>The scanner stays inside the text, the path and the stack\<close>

definition path_ok :: "bool \<Rightarrow> byte list \<Rightarrow> bool" where
  "path_ok sg path \<longleftrightarrow> path \<noteq> [] \<and> last path = 0 \<and>
     list_all (\<lambda>k. path ! k = 0x5B \<longrightarrow> path_index sg (drop (k + 1) path) (k + 1) 0 \<noteq> None) [0..<length path]"

text \<open>The invariant of the loop, and what a step may return.\<close>

definition json_inv :: "byte list \<Rightarrow> json_state \<Rightarrow> bool" where
  "json_inv path st \<longleftrightarrow> length (js_nesting st) = MG_JSON_MAX_DEPTH \<and> js_depth st \<le> MG_JSON_MAX_DEPTH \<and>
     1 \<le> js_pos st \<and> js_pos st < length path \<and> js_j st \<le> js_i st \<and>
     (js_expecting st = S_KEY \<longrightarrow> 0 < js_depth st)"

definition json_good :: "byte list \<Rightarrow> int \<Rightarrow> int \<Rightarrow> bool" where
  "json_good s r n \<longleftrightarrow>
     (r = MG_JSON_TOO_DEEP \<or> r = MG_JSON_INVALID \<or> r = MG_JSON_NOT_FOUND) \<and> n = 0 \<or>
     0 \<le> r \<and> 1 \<le> n \<and> r + n \<le> int (length s)"

definition json_ok :: "byte list \<Rightarrow> byte list \<Rightarrow> json_step \<Rightarrow> bool" where
  "json_ok path s m \<longleftrightarrow> (case m of
      None \<Rightarrow> False
    | Some (Inl st) \<Rightarrow> json_inv path st \<and> js_i st < length s
    | Some (Inr (r, n)) \<Rightarrow> json_good s r n)"

lemma json_ok_simps [simp]:
  "\<not> json_ok path s None"
  "json_ok path s (Some (Inl st)) \<longleftrightarrow> json_inv path st \<and> js_i st < length s"
  "json_ok path s (Some (Inr (r, n))) \<longleftrightarrow> json_good s r n"
  by (simp_all add: json_ok_def)

lemma json_ok_jerr [simp]:
  "json_ok path s (jerr MG_JSON_TOO_DEEP)" "json_ok path s (jerr MG_JSON_INVALID)"
  "json_ok path s (jerr MG_JSON_NOT_FOUND)"
  by (simp_all add: jerr_def json_good_def)

lemma json_ok_jbind:
  assumes "json_ok path s m" "\<And>st. m = Some (Inl st) \<Longrightarrow> json_ok path s (f st)"
  shows "json_ok path s (jbind m f)"
  using assms by (cases m) (auto simp: jbind_def split: sum.splits)

lemma json_inv_index_next [simp]: "json_inv path (index_next st) \<longleftrightarrow> json_inv path st"
  by (simp add: json_inv_def index_next_def)

lemma json_ok_checkret:
  assumes "json_inv path st" "js_i st < length s"
  shows "json_ok path s (mg_checkret path st)"
  using assms by (auto simp: mg_checkret_def json_inv_def json_good_def)

lemma json_ok_eoo_bind:
  assumes "json_inv path st" "js_i st < length s" "0 < js_depth st"
    "json_ok path s (f (st\<lparr>js_depth := js_depth st - 1\<rparr>))"
  shows "json_ok path s (jbind (mg_eoo path c st) f)"
proof -
  let ?st = "st\<lparr>js_depth := js_depth st - 1\<rparr>"
  have n: "nest_top st = Some (js_nesting st ! (js_depth st - 1))"
    using assms(1,3) by (auto simp: nest_top_def json_inv_def rd_def)
  have c: "mg_checkret path ?st = Some (Inl ?st) \<or>
      (\<exists>r n. mg_checkret path ?st = Some (Inr (r, n)) \<and> json_good s r n)"
    using assms(1,2) by (auto simp: mg_checkret_def json_inv_def json_good_def)
  show ?thesis
  proof (cases "js_depth st = js_ed st \<and> js_ci st \<noteq> js_ei st \<or>
      uint c \<noteq> uint (js_nesting st ! (js_depth st - 1)) + 2")
    case True
    then show ?thesis by (auto simp: mg_eoo_def n jbind_def jerr_def json_good_def)
  next
    case False
    then have "mg_eoo path c st = mg_checkret path ?st" by (auto simp: mg_eoo_def n)
    then show ?thesis using c assms(4) by (auto simp: jbind_def)
  qed
qed

lemma json_ok_value_done:
  assumes "json_inv path st" "js_i st < length s"
  shows "json_ok path s (value_done path st)"
  unfolding value_done_def
proof (rule json_ok_jbind)
  show "json_ok path s (mg_checkret path st)" by (rule json_ok_checkret [OF assms])
  fix st' assume "mg_checkret path st = Some (Inl st')"
  then have "st' = st" by (rule checkret_Inl)
  then show "json_ok path s (Some (Inl (index_next st'\<lparr>js_expecting := S_COMMA_OR_EOO\<rparr>)))"
    using assms by (simp add: json_inv_def index_next_def)
qed

lemma pass_string_bound: "mg_pass_string s i = Some n \<Longrightarrow> i \<le> n \<and> n < i + length s"
  by (induction s i rule: mg_pass_string.induct) (auto split: if_splits)

lemma json_esc_0 [simp]: "json_esc 0 esc = 0"
  by (simp add: json_esc_def escapeseq_def)

lemma pass_string_nonzero: "mg_pass_string s i = Some n \<Longrightarrow> \<forall>k<n - i. s ! k \<noteq> 0"
proof (induction s i arbitrary: n rule: mg_pass_string.induct)
  case (3 a b s i)
  show ?case
  proof (cases "a = 92 \<and> json_esc b True \<noteq> 0")
    case True
    then have b: "b \<noteq> 0" by auto
    have n: "mg_pass_string s (i + 2) = Some n" using 3(3) True by simp
    have "i + 2 \<le> n" using pass_string_bound [OF n] by simp
    have ih: "\<forall>k<n - (i + 2). s ! k \<noteq> 0" using 3(1) [OF True n] .
    show ?thesis
    proof (intro allI impI)
      fix k assume "k < n - i"
      then show "(a # b # s) ! k \<noteq> 0" using True b ih
        by (cases k; cases "k - 1") auto
    qed
  next
    case False
    show ?thesis
    proof (cases "a = 0 \<or> a = 34")
      case True
      then show ?thesis using 3(3) False by (auto split: if_splits)
    next
      case f: False
      have n: "mg_pass_string (b # s) (i + 1) = Some n" using 3(3) False f by simp
      then have ih: "\<forall>k<n - (i + 1). (b # s) ! k \<noteq> 0" using 3(2) False f by blast
      show ?thesis
      proof (intro allI impI)
        fix k assume "k < n - i"
        then show "(a # b # s) ! k \<noteq> 0" using f ih by (cases k) auto
      qed
    qed
  qed
qed (auto split: if_splits)

lemma strncmp_eq_ex:
  "n \<le> length a \<Longrightarrow> b \<noteq> [] \<Longrightarrow> last b = 0 \<Longrightarrow> \<forall>k<n. a ! k \<noteq> 0 \<Longrightarrow>
   \<exists>r. strncmp_eq a b n = Some r \<and> (r \<longrightarrow> n < length b)"
proof (induction a b n rule: strncmp_eq.induct)
  case (2 x a y b n)
  have x: "x \<noteq> 0" using 2(5) by auto
  have k: "\<forall>k<n. a ! k \<noteq> 0" using 2(5) by (metis Suc_less_eq nth_Cons_Suc)
  show ?case
  proof (cases "x = y")
    case True
    then have "b \<noteq> []" using x 2(4) by auto
    then show ?thesis using 2 True x k by auto
  qed (rule exI [of _ False], simp)
qed auto

lemma path_index_bound:
  "path_index sg path pos ei = Some (pos', e) \<Longrightarrow> pos \<le> pos' \<and> pos' < pos + length path \<and>
     (path ! (pos' - pos) = 0x5D \<or> path ! (pos' - pos) = 0)"
proof (induction path arbitrary: pos ei)
  case (Cons c path)
  show ?case
  proof (cases "c = 0x5D \<or> c = 0")
    case False
    then have "path_index sg path (pos + 1) (ei * 10 + (cint sg c - 0x30)) = Some (pos', e)"
      using Cons.prems by (auto simp: Let_def split: if_splits)
    from Cons.IH [OF this] show ?thesis by (auto simp: nth_Cons' Suc_diff_Suc)
  qed (use Cons.prems in auto)
qed simp

lemma path_ok_rd: "path_ok sg path \<Longrightarrow> k < length path \<Longrightarrow> path ! k \<noteq> 0 \<Longrightarrow> k + 1 < length path"
proof -
  assume h: "path_ok sg path" "k < length path" "path ! k \<noteq> 0"
  then have "k \<noteq> length path - 1" by (auto simp: path_ok_def last_conv_nth)
  then show ?thesis using h(2) by simp
qed

lemma json_ok_open_object:
  assumes "path_ok sg path" "json_inv path st" "js_i st < length s"
  shows "json_ok path s (open_object path c st)"
proof (cases "MG_JSON_MAX_DEPTH \<le> js_depth st")
  case False
  have "js_pos st + 1 < length path" if "path ! js_pos st = 0x2E"
    using path_ok_rd [OF assms(1), of "js_pos st"] that assms(2) by (simp add: json_inv_def)
  then show ?thesis using False assms(2,3)
    by (auto simp: open_object_def Let_def push_nesting_def json_inv_def)
qed (simp add: open_object_def)

lemma json_ok_open_array:
  assumes "path_ok sg path" "json_inv path st" "js_i st < length s" "js_expecting st = S_VALUE"
  shows "json_ok path s (open_array sg path c st)"
proof (cases "MG_JSON_MAX_DEPTH \<le> js_depth st")
  case False
  let ?k = "js_pos st"
  have k: "?k < length path" using assms(2) by (simp add: json_inv_def)
  have w: "json_ok path s (do {
      st \<leftarrow> push_nesting c (st\<lparr>js_ed := a, js_pos := p, js_ci := x, js_ei := y\<rparr>); Some (Inl st) })"
    if "1 \<le> p" "p < length path" for a p x y
    using that False assms(2-4) by (simp add: push_nesting_def json_inv_def)
  show ?thesis
  proof (cases "js_depth st = js_ed st \<and> path ! ?k = 0x5B \<and> js_ei st = js_ci st")
    case True
    then have "path_index sg (drop (?k + 1) path) (?k + 1) 0 \<noteq> None"
      using assms(1) k by (auto simp: path_ok_def list_all_iff)
    then obtain p e where p: "path_index sg (drop (?k + 1) path) (?k + 1) 0 = Some (p, e)" by auto
    have b: "?k + 1 \<le> p" "p < length path" "path ! p = 0x5D \<or> path ! p = 0"
      using path_index_bound [OF p] k by (auto simp: nth_drop)
    have "p + 1 < length path" if "path ! p \<noteq> 0" using path_ok_rd [OF assms(1) b(2) that] .
    then show ?thesis
      using True False k p b w [where p = "if path ! p \<noteq> 0 then p + 1 else p" and a = "js_ed st + 1" and x = 0 and y = e]
      by (simp add: open_array_def split: if_splits)
  next
    case f: False
    then show ?thesis using False k w [where p = ?k and a = "js_ed st" and x = "js_ci st" and y = "js_ei st"] assms(2)
      by (auto simp: open_array_def json_inv_def)
  qed
qed (simp add: open_array_def)

lemma exp_digits_le: "exp_digits s e \<le> length s"
  by (induction s e rule: exp_digits.induct) auto

lemma num_digits_le: "num_digits s \<le> length s"
  by (simp add: num_digits_def length_takeWhile_le)

lemma atod_len_le: "atod_len p \<le> length p"
proof -
  have "atod_sign p \<le> length p" by (cases p) (auto simp: atod_sign_def)
  then have i: "atod_int p \<le> length p"
    using num_digits_le [of "drop (atod_sign p) p"] by (simp add: atod_int_def Let_def)
  then have f: "atod_frac p \<le> length p"
    using num_digits_le [of "drop (atod_int p + 1) p"] by (auto simp: atod_frac_def Let_def)
  have e: "m + exp_digits (drop m p) 0 \<le> length p" if "m \<le> length p" for m
    using exp_digits_le [of "drop m p" 0] that by simp
  have "atod_exp p i \<le> length p" if "i < length p" for i
    unfolding atod_exp_def Let_def using that by (intro e) auto
  then show ?thesis using f by (simp add: atod_len_def Let_def)
qed

lemma json_ok_if:
  "(b \<Longrightarrow> json_ok path s x) \<Longrightarrow> (\<not> b \<Longrightarrow> json_ok path s y) \<Longrightarrow> json_ok path s (if b then x else y)"
  by simp

lemma json_ok_step_value:
  assumes "path_ok sg path" "json_inv path st" "rd s (js_i st) = Some c" "js_expecting st = S_VALUE"
  shows "json_ok path s (step_value sg path s c st)"
proof -
  define u where "u = (if js_depth st = js_ed st then st\<lparr>js_j := js_i st\<rparr> else st)"
  have i: "js_i st < length s" "js_i u < length s" and ui: "js_i u = js_i st"
    and u: "json_inv path u" "js_expecting u = S_VALUE" "js_depth u = js_depth st"
    using assms by (auto simp: u_def json_inv_def rd_eq_Some_iff)
  have v: "json_ok path s (value_done path (u\<lparr>js_i := k\<rparr>))" if "js_i st \<le> k" "k < length s" for k
    using that u(1) ui by (intro json_ok_value_done) (auto simp: json_inv_def)
  have a: "0 < atod_len (drop (js_i st) s)" if "c = 0x2D \<or> is_digit c"
    using that assms(3) by (intro is_digit_atod) (auto simp: rd_eq_Some_iff hd_drop_conv_nth)
  have al: "js_i st + atod_len (drop (js_i st) s) \<le> length s"
    using atod_len_le [of "drop (js_i st) s"] i(1) by simp
  have n: "js_i st + n + 1 < length s" if "mg_pass_string (drop (js_i st + 1) s) 0 = Some n" for n
    using pass_string_bound [OF that] by simp
  have e: "json_ok path s (jbind (mg_eoo path c u) (value_done path))" if "0 < js_depth st"
    using that u i(2) by (intro json_ok_eoo_bind json_ok_value_done) (auto simp: json_inv_def)
  show ?thesis
    unfolding step_value_def Let_def u_def [symmetric]
  proof (intro json_ok_if)
    show "json_ok path s (open_object path c u)" by (rule json_ok_open_object [OF assms(1) u(1) i(2)])
    show "json_ok path s (open_array sg path c u)" by (rule json_ok_open_array [OF assms(1) u(1) i(2) u(2)])
    show "json_ok path s (jbind (mg_eoo path c u) (value_done path))" if "c = 0x5D \<and> 0 < js_depth u"
      using that e u(3) by simp
    show "json_ok path s (value_done path (u\<lparr>js_i := js_i u + atod_len (drop (js_i u) s) - 1\<rparr>))"
      if "c = 0x2D \<or> is_digit c"
      using v [of "js_i st + atod_len (drop (js_i st) s) - 1"] a [OF that] al unfolding ui by simp
    show "json_ok path s (case mg_pass_string (drop (js_i u + 1) s) 0 of
           None \<Rightarrow> jerr MG_JSON_INVALID
         | Some n \<Rightarrow> value_done path (u\<lparr>js_i := js_i u + n + 1\<rparr>))"
      using v n unfolding ui by (auto split: option.split)
  qed (use v ui in auto)
qed

lemma json_ok_step_key:
  assumes "path_ok sg path" "json_inv path st" "rd s (js_i st) = Some c" "js_expecting st = S_KEY"
  shows "json_ok path s (step_key path s c st)"
proof -
  let ?i = "js_i st" let ?pos = "js_pos st" let ?s = "drop (js_i st + 1) s"
  have i: "?i < length s" using assms(3) by (simp add: rd_eq_Some_iff)
  have p: "0 < ?pos" "?pos < length path" "0 < js_depth st"
    using assms(2,4) by (auto simp: json_inv_def)
  have e: "json_ok path s (jbind (mg_eoo path c st) (\<lambda>st. Some (Inl (index_next (st\<lparr>js_expecting := S_COMMA_OR_EOO\<rparr>)))))"
    using assms(2) p i by (intro json_ok_eoo_bind) (auto simp: json_inv_def index_next_def)
  have g: "json_ok path s (do {
       p \<leftarrow> (if js_depth st = js_ed st then if ?pos = 0 then None else rd path (?pos - 1) else Some 0);
       if js_depth st = js_ed st \<and> p \<noteq> 0x2E then jerr MG_JSON_NOT_FOUND
       else do {
         m \<leftarrow> (if js_depth st = js_ed st \<and> p = 0x2E then strncmp_eq ?s (drop ?pos path) n else Some False);
         e \<leftarrow> (if m then do { x \<leftarrow> rd path (?pos + n); Some (x = 0 \<or> x = 0x2E \<or> x = 0x5B) } else Some False);
         Some (Inl (st\<lparr>js_pos := (if e then ?pos + n else ?pos), js_i := ?i + n + 1,
           js_expecting := S_COLON\<rparr>)) } })"
    if n: "mg_pass_string ?s 0 = Some n" for n
  proof -
    have nb: "n < length ?s" using pass_string_bound [OF n] by simp
    have l: "last (drop ?pos path) = 0" "drop ?pos path \<noteq> []"
      using assms(1) p(2) by (simp_all add: path_ok_def)
    obtain r where r: "strncmp_eq ?s (drop ?pos path) n = Some r" "r \<longrightarrow> n < length (drop ?pos path)"
      using strncmp_eq_ex [of n ?s "drop ?pos path"] pass_string_nonzero [OF n] nb l by auto
    show ?thesis using r p nb assms(2) by (auto simp: json_inv_def)
  qed
  show ?thesis unfolding step_key_def Let_def using g e by (auto split: option.split)
qed

lemma json_ok_step_comma:
  assumes "json_inv path st" "rd s (js_i st) = Some c" "js_expecting st = S_COMMA_OR_EOO"
  shows "json_ok path s (step_comma path c st)"
proof (cases "js_depth st = 0")
  case False
  have i: "js_i st < length s" using assms(2) by (simp add: rd_eq_Some_iff)
  have p: "0 < js_pos st" "js_pos st - 1 < length path" using assms(1) by (auto simp: json_inv_def)
  have n: "nest_top st = Some (js_nesting st ! (js_depth st - 1))"
    using assms(1) False by (auto simp: nest_top_def json_inv_def rd_def)
  have e: "json_ok path s (jbind (mg_eoo path c st) (\<lambda>st. Some (Inl (index_next st))))"
    using assms(1,3) False i by (intro json_ok_eoo_bind) (auto simp: json_inv_def index_next_def)
  show ?thesis using False assms(1) i p n e by (auto simp: step_comma_def json_inv_def)
qed (simp add: step_comma_def)

lemma json_ok_step:
  assumes "path_ok sg path" "json_inv path st" "js_i st < length s"
  shows "json_ok path s (json_step sg path s st)"
proof -
  have r: "rd s (js_i st) = Some (s ! js_i st)" using assms(3) by simp
  show ?thesis
    using json_ok_step_value [OF assms(1,2) r] json_ok_step_key [OF assms(1,2) r]
      json_ok_step_comma [OF assms(2) r] assms
    by (auto simp: json_step_def json_inv_def split: expecting.split)
qed

lemma json_loop_good:
  "path_ok sg path \<Longrightarrow> json_inv path st \<Longrightarrow> \<exists>r n. json_loop sg path s st = Some (r, n) \<and> json_good s r n"
proof (induction sg path s st rule: json_loop.induct)
  case (1 sg path s st)
  show ?case
  proof (cases "js_i st < length s")
    case True
    have ok: "json_ok path s (json_step sg path s st)" using json_ok_step [OF 1(2,3) True] .
    then obtain x where x: "json_step sg path s st = Some x" by (cases "json_step sg path s st") auto
    show ?thesis
    proof (cases x)
      case (Inl st')
      then have "json_inv path (st'\<lparr>js_i := js_i st' + 1\<rparr>)" using ok x by (auto simp: json_inv_def)
      from 1(1) [OF True x Inl 1(2) this] show ?thesis
        using True x Inl by (subst json_loop.simps) simp
    next
      case (Inr y)
      then show ?thesis using ok x True by (subst json_loop.simps) (cases y, auto)
    qed
  next
    case False
    then show ?thesis by (subst json_loop.simps) (simp add: json_good_def)
  qed
qed

lemma json_good_take: "json_good (take k s) r n \<Longrightarrow> json_good s r n"
  by (auto simp: json_good_def)

lemma mg_json_get_good:
  assumes "path_ok sg path" "length ns = MG_JSON_MAX_DEPTH"
  shows "\<exists>r n. mg_json_get sg ns json path = Some (r, n) \<and> json_good json r n"
proof -
  have p: "path \<noteq> []" using assms(1) by (simp add: path_ok_def)
  then have r: "rd path 0 = Some (path ! 0)" by simp
  show ?thesis
  proof (cases "path ! 0 = 0x24")
    case True
    then have "0 + 1 < length path" using path_ok_rd [OF assms(1), of 0] p by simp
    then have "json_inv path (json_init ns)" using assms(2) by (simp add: json_inv_def json_init_def)
    from json_loop_good [OF assms(1) this] obtain r n where
      "json_loop sg path (take (json_len (length json)) json) (json_init ns) = Some (r, n)"
      "json_good (take (json_len (length json)) json) r n" by blast
    then show ?thesis using True json_good_take [of "json_len (length json)" json r n]
      unfolding mg_json_get_def r by simp
  next
    case False
    then show ?thesis unfolding mg_json_get_def r by (simp add: json_good_def)
  qed
qed



subsection \<open>A printed value is found\<close>

text \<open>
  JSON values, and their text without white space. Strings are printed by \<open>qcpy\<close>, a number is
  given by its digits.
\<close>

datatype json =
    JNull
  | JBool bool
  | JNum "byte list"
  | JStr "byte list"
  | JArr "json list"
  | JObj "(byte list \<times> json) list"

fun jsep :: "byte list list \<Rightarrow> byte list" where
  "jsep [] = []"
| "jsep [x] = x"
| "jsep (x # y # xs) = x @ 0x2C # jsep (y # xs)"

definition jquote :: "byte list \<Rightarrow> byte list" where
  "jquote s = 0x22 # qcpy s @ [0x22]"

fun jprint :: "json \<Rightarrow> byte list" where
  "jprint JNull = cstr ''null''"
| "jprint (JBool b) = (if b then cstr ''true'' else cstr ''false'')"
| "jprint (JNum n) = n"
| "jprint (JStr s) = jquote s"
| "jprint (JArr vs) = 0x5B # jsep (map jprint vs) @ [0x5D]"
| "jprint (JObj kvs) = 0x7B # jsep (map (\<lambda>kv. jquote (fst kv) @ 0x3A # jprint (snd kv)) kvs) @ [0x7D]"

definition num_ok :: "byte list \<Rightarrow> bool" where
  "num_ok n \<longleftrightarrow> n \<noteq> [] \<and> (hd n = 0x2D \<or> is_digit (hd n)) \<and> list_all is_digit (tl n)"

fun json_wf :: "json \<Rightarrow> bool" where
  "json_wf (JNum n) \<longleftrightarrow> num_ok n"
| "json_wf (JStr s) \<longleftrightarrow> 0 \<notin> set s"
| "json_wf (JArr vs) \<longleftrightarrow> list_all json_wf vs"
| "json_wf (JObj kvs) \<longleftrightarrow> list_all (\<lambda>kv. 0 \<notin> set (fst kv) \<and> json_wf (snd kv)) kvs"
| "json_wf _ \<longleftrightarrow> True"

fun jdepth :: "json \<Rightarrow> nat" where
  "jdepth (JArr vs) = Suc (fold max (map jdepth vs) 0)"
| "jdepth (JObj kvs) = Suc (fold max (map (\<lambda>kv. jdepth (snd kv)) kvs) 0)"
| "jdepth _ = 0"

lemma fold_max_ge: "x \<in> set xs \<Longrightarrow> (x::nat) \<le> fold max xs a"
proof (induction xs arbitrary: a)
  case (Cons y xs)
  have "a \<le> fold max xs a" for a :: nat
    by (induction xs arbitrary: a) (auto intro: order_trans [OF max.cobounded2] max.cobounded1)
  then show ?case using Cons by (auto intro: order_trans [OF max.cobounded1])
qed simp

text \<open>The printed form of a string is passed over, and ends at its quote.\<close>

lemma json_esc_inverse: "json_esc b True \<noteq> 0 \<Longrightarrow> json_esc (json_esc b True) False = b"
  by (auto simp: json_esc_def escapeseq_def split: if_splits)

lemma json_esc_not_u: "json_esc b True \<noteq> 0x75"
  by (auto simp: json_esc_def escapeseq_def split: if_splits)

lemma qcpy_pass:
  "0 \<notin> set s \<Longrightarrow> mg_pass_string (qcpy s @ 0x22 # r) i = Some (i + length (qcpy s))"
proof (induction s arbitrary: i)
  case Nil
  then show ?case by (cases r) auto
next
  case (Cons b s)
  show ?case
  proof (cases "json_esc b True = 0")
    case True
    then have "b \<noteq> 0x22 \<and> b \<noteq> 0x5C" by (auto simp: json_esc_def escapeseq_def)
    then show ?thesis using Cons True
      by (cases "qcpy s") auto
  next
    case False
    define c where "c = json_esc b True"
    then have c: "c \<noteq> 0" using False by simp
    show ?thesis
    proof (cases "json_esc c True = 0")
      case True
      then have "c \<noteq> 0x22 \<and> c \<noteq> 0x5C" by (auto simp: json_esc_def escapeseq_def)
      then show ?thesis using Cons False True c by (cases "qcpy s") (auto simp flip: c_def)
    next
      case f: False
      then show ?thesis using Cons False c by (auto simp flip: c_def)
    qed
  qed
qed

lemma unescape_qcpy:
  assumes "0 \<notin> set t" "drop i xs = qcpy t" "j + length t < n" "n \<le> length to"
  shows "unescape_loop xs i to j n = Some (True, take j to @ t @ drop (j + length t) to, j + length t)"
  using assms
proof (induction t arbitrary: i to j)
  case Nil
  then show ?case by (subst unescape_loop.simps) simp
next
  case (Cons b t)
  have j: "j < n" "j < length to" using Cons.prems by auto
  have i: "i < length xs"
    using Cons.prems(1,2) by (auto split: if_splits simp: Let_def intro: ccontr)
  have d: "drop i xs = xs ! i # drop (i + 1) xs" using i by (simp add: Cons_nth_drop_Suc)
  have upd: "take (j + 1) (to[j := v]) = take j to @ [v]" "drop (j + 1 + k) (to[j := v]) = drop (j + 1 + k) to" for v k
    using j by (simp_all add: take_Suc_conv_app_nth)
  define c where "c = json_esc b True"
  show ?case
  proof (cases "c = 0")
    case True
    then have b: "b \<noteq> 92" by (auto simp: json_esc_def escapeseq_def c_def)
    have x: "xs ! i = b" "drop (i + 1) xs = qcpy t"
      using Cons.prems(1,2) d True by (auto simp flip: c_def)
    have "unescape_loop xs (i + 1) (to[j := b]) (j + 1) n =
        Some (True, take (j + 1) (to[j := b]) @ t @ drop (j + 1 + length t) (to[j := b]), j + 1 + length t)"
      using Cons.prems x by (intro Cons.IH) auto
    then show ?thesis using i j x b upd by (subst unescape_loop.simps) simp
  next
    case False
    then have q: "drop i xs = 92 # c # qcpy t" using Cons.prems(1,2) by (simp flip: c_def)
    then have x: "xs ! i = 92" "drop (i + 1) xs = c # qcpy t" using d by auto
    then have i1: "i + 1 < length xs" by (auto intro: ccontr)
    then have x1: "xs ! (i + 1) = c" "drop (i + 2) xs = qcpy t"
      using x(2) Cons_nth_drop_Suc [of "i + 1" xs] by auto
    have e: "json_esc c False = b" "c \<noteq> 0x75"
      using False json_esc_inverse [of b] json_esc_not_u [of b] by (simp_all add: c_def)
    have b: "b \<noteq> 0" using Cons.prems(1) by auto
    have "unescape_loop xs (i + 2) (to[j := b]) (j + 1) n =
        Some (True, take (j + 1) (to[j := b]) @ t @ drop (j + 1 + length t) (to[j := b]), j + 1 + length t)"
      using Cons.prems x1 by (intro Cons.IH) auto
    then show ?thesis using i i1 j x x1 e b upd by (subst unescape_loop.simps) simp
  qed
qed

lemma unescape_ex:
  "n \<le> length to \<Longrightarrow> \<exists>ok to' j'. unescape_loop s i to j n = Some (ok, to', j') \<and> length to' = length to"
proof (induction "length s - i" arbitrary: i to j rule: less_induct)
  case less
  show ?case
  proof (cases "i < length s \<and> j < n")
    case True
    then have w: "wr to j v = Some (to[j := v])" for v using less.prems by simp
    have r: "rd s i = Some (s ! i)" using True by simp
    have ih: "\<exists>ok to' j'. unescape_loop s (i + k) (to[j := v]) (j + 1) n = Some (ok, to', j') \<and> length to' = length to"
      if "0 < k" for k v
    proof -
      have "length s - (i + k) < length s - i" using that True by linarith
      from less.hyps [OF this, of "to[j := v]" "j + 1"] show ?thesis using less.prems by simp
    qed
    show ?thesis
      using True ih [of 1] ih [of 2] ih [of 6]
      by (subst unescape_loop.simps) (auto simp: r w Let_def split: option.split)
  qed (subst unescape_loop.simps, auto)
qed

lemma mg_json_unescape_ex:
  assumes "n \<le> length to"
  shows "\<exists>ok to'. mg_json_unescape s to n = Some (ok, to') \<and> length to' = length to"
proof -
  obtain ok to' j where "unescape_loop s 0 to 0 n = Some (ok, to', j)" "length to' = length to"
    using unescape_ex [OF assms, of s 0 0] by blast
  then show ?thesis using assms by (auto simp: mg_json_unescape_def)
qed

lemma unescape_escape_ok:
  assumes "n \<le> length to" "0 \<notin> set t" "length t < n"
  shows "mg_json_unescape (qcpy t) to n = Some (True, t @ 0 # drop (length t + 1) to)"
proof -
  have "unescape_loop (qcpy t) 0 to 0 n = Some (True, take 0 to @ t @ drop (0 + length t) to, 0 + length t)"
    using assms by (intro unescape_qcpy) simp_all
  then show ?thesis
    using assms by (simp add: mg_json_unescape_def list_update_append drop_eq_Cons [of "length t" to])
qed

text \<open>
  Unescaping undoes escaping: a string without NUL that was printed by \<open>mg_print_esc\<close> is
  restored in the buffer, NUL-terminated, when the buffer has room for it. On any text the
  function writes inside its buffer only.
\<close>

lemma json_unescape_escape:
  assumes "n \<le> length to"
  shows "(\<exists>ok to'. mg_json_unescape s to n = Some (ok, to') \<and> length to' = length to) \<and>
    (0 \<notin> set t \<and> length t < n \<longrightarrow>
      mg_json_unescape (qcpy t) to n = Some (True, t @ 0 # drop (length t + 1) to))"
  using mg_json_unescape_ex [OF assms] unescape_escape_ok [OF assms] by blast

lemma json_unescape_escape_example:
  "mg_json_unescape (cstr ''a'' @ [92, 110]) (replicate 4 7) 4 = Some (True, cstr ''a'' @ [10, 0, 7])"
proof -
  have q: "qcpy (cstr ''a'' @ [10]) = cstr ''a'' @ [92, 110]" by code_simp
  have "0 \<notin> set (cstr ''a'' @ [10])" "length (cstr ''a'' @ [10 :: byte]) < 4" by simp_all
  then have "mg_json_unescape (qcpy (cstr ''a'' @ [10])) (replicate 4 7) 4 =
      Some (True, (cstr ''a'' @ [10]) @ 0 # drop (length (cstr ''a'' @ [10 :: byte]) + 1) (replicate 4 7))"
    using json_unescape_escape [of 4 "replicate 4 7" "[]" "cstr ''a'' @ [10]"] by simp
  then show ?thesis unfolding q by (simp add: drop_replicate)
qed

text \<open>
  Inside the brackets of the value that is looked for, where the depth is greater than the expected
  one, the scanner only balances brackets: it runs over the text of a value and leaves the path and
  the indices alone.
\<close>

definition json_delim :: "byte list \<Rightarrow> nat \<Rightarrow> bool" where
  "json_delim s k \<longleftrightarrow> (k < length s \<longrightarrow> \<not> is_digit (s ! k) \<and> s ! k \<noteq> 0x2E \<and> s ! k \<noteq> 0x65 \<and> s ! k \<noteq> 0x45)"

definition json_runs :: "bool \<Rightarrow> byte list \<Rightarrow> byte list \<Rightarrow> json_state \<Rightarrow> nat \<Rightarrow> expecting \<Rightarrow> bool" where
  "json_runs sg path s st n e \<longleftrightarrow>
     (\<exists>ns. length ns = MG_JSON_MAX_DEPTH \<and> take (js_depth st) ns = take (js_depth st) (js_nesting st) \<and>
       json_loop sg path s st = json_loop sg path s
         (st\<lparr>js_i := js_i st + n, js_expecting := e, js_nesting := ns\<rparr>))"

lemma json_loop_step:
  "js_i st < length s \<Longrightarrow> json_step sg path s st = Some (Inl st') \<Longrightarrow>
   json_loop sg path s st = json_loop sg path s (st'\<lparr>js_i := js_i st' + 1\<rparr>)"
  by (subst json_loop.simps) simp

text \<open>A state inside of brackets.\<close>

definition json_inside :: "json_state \<Rightarrow> bool" where
  "json_inside st \<longleftrightarrow> length (js_nesting st) = MG_JSON_MAX_DEPTH \<and> js_ed st < js_depth st"

lemma json_runs_step:
  assumes "js_i st < length s" "json_step sg path s st = Some (Inl (st\<lparr>js_i := k, js_expecting := e\<rparr>))"
    "length (js_nesting st) = MG_JSON_MAX_DEPTH" "k + 1 = js_i st + n"
  shows "json_runs sg path s st n e"
  unfolding json_runs_def
proof (intro exI conjI)
  have "st\<lparr>js_i := k, js_expecting := e\<rparr>\<lparr>js_i := k + 1\<rparr> =
      st\<lparr>js_i := js_i st + n, js_expecting := e, js_nesting := js_nesting st\<rparr>"
    using assms(4) by (cases st) simp
  then show "json_loop sg path s st = json_loop sg path s
      (st\<lparr>js_i := js_i st + n, js_expecting := e, js_nesting := js_nesting st\<rparr>)"
    using json_loop_step [OF assms(1,2)] by simp
qed (use assms(3) in simp_all)

lemma json_runs_trans:
  assumes "json_runs sg path s st n e" "json_inside st"
    "\<And>ns. length ns = MG_JSON_MAX_DEPTH \<Longrightarrow> take (js_depth st) ns = take (js_depth st) (js_nesting st) \<Longrightarrow>
       json_runs sg path s (st\<lparr>js_i := js_i st + n, js_expecting := e, js_nesting := ns\<rparr>) m e'"
  shows "json_runs sg path s st (n + m) e'"
  using assms(1,3) unfolding json_runs_def by (fastforce simp: ac_simps)

lemma value_done_inside:
  "json_inside st \<Longrightarrow> value_done path st = Some (Inl (st\<lparr>js_expecting := S_COMMA_OR_EOO\<rparr>))"
  by (simp add: value_done_def mg_checkret_def jbind_def index_next_def json_inside_def)

lemma atod_len_num:
  assumes "num_ok n" "\<not> (r \<noteq> [] \<and> (is_digit (hd r) \<or> hd r = 0x2E \<or> hd r = 0x65 \<or> hd r = 0x45))"
  shows "atod_len (n @ r) = length n"
proof -
  obtain c m where n: "n = c # m" using assms(1) by (cases n) (auto simp: num_ok_def)
  have m: "list_all is_digit m" using assms(1) n by (simp add: num_ok_def)
  have t: "takeWhile is_digit (m @ r) = m"
    using m assms(2) by (cases r) (auto simp: list_all_iff takeWhile_append)
  have e: "\<not> (length n < length (n @ r) \<and> (n @ r) ! length n = x)" if "x = 0x2E \<or> x = 0x65 \<or> x = 0x45" for x
    using assms(2) that by (cases r) auto
  have i: "atod_int (n @ r) = length n"
  proof (cases "c = 0x2D \<or> c = 0x2B")
    case True
    then show ?thesis using t by (simp add: atod_int_def atod_sign_def Let_def n num_digits_def)
  next
    case False
    then have "is_digit c" using assms(1) n by (simp add: num_ok_def)
    then show ?thesis using t False by (simp add: atod_int_def atod_sign_def Let_def n num_digits_def)
  qed
  then have f: "atod_frac (n @ r) = length n" using e [of "0x2E"] by (auto simp: atod_frac_def Let_def)
  have "\<not> (length n < length (n @ r) \<and> ((n @ r) ! length n = 0x65 \<or> (n @ r) ! length n = 0x45))"
    using e [of "0x65"] e [of "0x45"] by blast
  then show ?thesis unfolding atod_len_def Let_def f by (simp only: if_False)
qed

lemma drop_bytes_at: "bytes_at s p bs \<Longrightarrow> drop p s = bs @ drop (p + length bs) s"
  by (metis append_take_drop_id bytes_at_def drop_drop add.commute)

text \<open>A scalar is read in one step.\<close>

definition value_state :: "json_state \<Rightarrow> json_state" where
  "value_state st = (if js_depth st = js_ed st then st\<lparr>js_j := js_i st\<rparr> else st)"

lemma value_state_i [simp]: "js_i (value_state st) = js_i st"
  by (simp add: value_state_def)

lemma step_scalar:
  assumes "js_expecting st = S_VALUE" "bytes_at s (js_i st) (jprint v)"
    "json_delim s (js_i st + length (jprint v))" "json_wf v"
    "\<forall>vs. v \<noteq> JArr vs" "\<forall>kvs. v \<noteq> JObj kvs"
  shows "js_i st < length s \<and> 0 < length (jprint v) \<and>
    json_step sg path s st = value_done path ((value_state st)\<lparr>js_i := js_i st + length (jprint v) - 1\<rparr>)"
proof -
  let ?i = "js_i st" let ?u = "value_state st"
  have dr: "drop ?i s = jprint v @ drop (?i + length (jprint v)) s" using drop_bytes_at [OF assms(2)] .
  have sv: "step_value sg path s c st =
     (let i = js_i ?u in
      if c = 0x7B then open_object path c ?u
      else if c = 0x5B then open_array sg path c ?u
      else if c = 0x5D \<and> 0 < js_depth ?u then jbind (mg_eoo path c ?u) (value_done path)
      else if c = 0x74 \<and> i + 3 < length s \<and> take 4 (drop i s) = cstr ''true'' then
        value_done path (?u\<lparr>js_i := i + 3\<rparr>)
      else if c = 0x6E \<and> i + 3 < length s \<and> take 4 (drop i s) = cstr ''null'' then
        value_done path (?u\<lparr>js_i := i + 3\<rparr>)
      else if c = 0x66 \<and> i + 4 < length s \<and> take 5 (drop i s) = cstr ''false'' then
        value_done path (?u\<lparr>js_i := i + 4\<rparr>)
      else if c = 0x2D \<or> is_digit c then
        value_done path (?u\<lparr>js_i := i + atod_len (drop i s) - 1\<rparr>)
      else if c = 0x22 then
        (case mg_pass_string (drop (i + 1) s) 0 of
           None \<Rightarrow> jerr MG_JSON_INVALID
         | Some n \<Rightarrow> value_done path (?u\<lparr>js_i := i + n + 1\<rparr>))
      else jerr MG_JSON_INVALID)" for c
    unfolding step_value_def value_state_def by (simp only: Let_def)
  have stv: "?thesis"
    if "step_value sg path s c st = value_done path (?u\<lparr>js_i := k\<rparr>)" "?i < length s" "s ! ?i = c"
      "\<not> is_json_ws c" "k + 1 = ?i + length (jprint v)" "0 < length (jprint v)" for k c
  proof -
    have "k = ?i + length (jprint v) - 1" using that(5) by simp
    then show ?thesis using that assms(1) by (simp add: json_step_def)
  qed
  show ?thesis
  proof (cases v)
    case JNull
    then have b: "bytes_at s ?i (cstr ''null'')" using assms(2) by simp
    then have l: "?i + 3 < length s" "s ! ?i = 0x6E" "?i < length s" by (auto simp: bytes_at_Cons)
    have t: "take 4 (drop ?i s) = cstr ''null''" using b by (simp add: bytes_at_def numeral_eq_Suc)
    have "step_value sg path s 0x6E st = value_done path (?u\<lparr>js_i := ?i + 3\<rparr>)"
      by (simp add: sv l t del: cstr_Cons)
    from stv [OF this l(3,2)] show ?thesis by (simp add: is_json_ws_def JNull)
  next
    case (JBool b)
    show ?thesis
    proof (cases b)
      case True
      then have b: "bytes_at s ?i (cstr ''true'')" using assms(2) JBool by simp
      then have l: "?i + 3 < length s" "s ! ?i = 0x74" "?i < length s" by (auto simp: bytes_at_Cons)
      have t: "take 4 (drop ?i s) = cstr ''true''" using b by (simp add: bytes_at_def numeral_eq_Suc)
      have "step_value sg path s 0x74 st = value_done path (?u\<lparr>js_i := ?i + 3\<rparr>)"
        by (simp add: sv l t del: cstr_Cons)
      from stv [OF this l(3,2)] show ?thesis by (simp add: is_json_ws_def JBool True)
    next
      case False
      then have b: "bytes_at s ?i (cstr ''false'')" using assms(2) JBool by simp
      then have l: "?i + 4 < length s" "s ! ?i = 0x66" "?i < length s" by (auto simp: bytes_at_Cons)
      have t: "take 5 (drop ?i s) = cstr ''false''" using b by (simp add: bytes_at_def numeral_eq_Suc)
      have "step_value sg path s 0x66 st = value_done path (?u\<lparr>js_i := ?i + 4\<rparr>)"
        by (simp add: sv l t del: cstr_Cons)
      from stv [OF this l(3,2)] show ?thesis by (simp add: is_json_ws_def JBool False)
    qed
  next
    case (JNum n)
    then have n: "num_ok n" "jprint v = n" using assms(4) by simp_all
    then obtain c m where c: "n = c # m" "c = 0x2D \<or> is_digit c" by (cases n) (auto simp: num_ok_def)
    have l: "?i < length s" "s ! ?i = c" using assms(2) n(2) c(1) by (simp_all add: bytes_at_Cons)
    have a: "atod_len (drop ?i s) = length n"
      unfolding dr n(2)
      by (rule atod_len_num [OF n(1)]) (use assms(3) n(2) in \<open>auto simp: json_delim_def hd_drop_conv_nth\<close>)
    have k: "c \<noteq> 0x7B" "c \<noteq> 0x5B" "c \<noteq> 0x5D" "c \<noteq> 0x74" "c \<noteq> 0x6E" "c \<noteq> 0x66" "\<not> is_json_ws c"
      using c(2) by (auto simp: is_digit_def is_json_ws_def)
    have "step_value sg path s c st = value_done path (?u\<lparr>js_i := ?i + length n - 1\<rparr>)"
      using c(2) k by (simp add: sv a)
    from stv [OF this l k(7)] show ?thesis by (simp add: n(2) c(1))
  next
    case (JStr t)
    then have t: "0 \<notin> set t" "jprint v = 0x22 # qcpy t @ [0x22]" using assms(4) by (simp_all add: jquote_def)
    have l: "?i < length s" "s ! ?i = 0x22" using assms(2) t(2) by (simp_all add: bytes_at_Cons)
    have "drop (?i + 1) s = drop 1 (drop ?i s)" by simp
    then have "drop (?i + 1) s = qcpy t @ 0x22 # drop (?i + length (jprint v)) s" unfolding dr t(2) by simp
    then have p: "mg_pass_string (drop (?i + 1) s) 0 = Some (length (qcpy t))"
      using qcpy_pass [OF t(1)] by simp
    have "step_value sg path s 0x22 st = value_done path (?u\<lparr>js_i := ?i + length (qcpy t) + 1\<rparr>)"
      using p by (simp add: sv Let_def is_digit_def)
    from stv [OF this l] show ?thesis by (simp add: is_json_ws_def t(2))
  qed (use assms(5,6) in auto)
qed

lemma scan_scalar:
  assumes "json_inside st" "js_expecting st = S_VALUE" "bytes_at s (js_i st) (jprint v)"
    "json_delim s (js_i st + length (jprint v))" "json_wf v"
    "\<forall>vs. v \<noteq> JArr vs" "\<forall>kvs. v \<noteq> JObj kvs"
  shows "json_runs sg path s st (length (jprint v)) S_COMMA_OR_EOO"
proof -
  let ?k = "js_i st + length (jprint v) - 1"
  note sc = step_scalar [OF assms(2-7), of sg path]
  have u: "value_state st = st" using assms(1) by (simp add: value_state_def json_inside_def)
  have "json_inside (st\<lparr>js_i := ?k\<rparr>)" using assms(1) by (simp add: json_inside_def)
  from value_done_inside [OF this, of path]
  have "json_step sg path s st = Some (Inl (st\<lparr>js_i := ?k, js_expecting := S_COMMA_OR_EOO\<rparr>))"
    using sc u by simp
  from json_runs_step [OF _ this] show ?thesis using sc assms(1) by (simp add: json_inside_def)
qed

text \<open>Opening and closing a bracket inside of others.\<close>

definition open_state :: "json_state \<Rightarrow> byte \<Rightarrow> expecting \<Rightarrow> json_state" where
  "open_state st c e = st\<lparr>js_i := js_i st + 1, js_depth := js_depth st + 1, js_expecting := e,
     js_nesting := (js_nesting st)[js_depth st := c]\<rparr>"

definition closes :: "expecting \<Rightarrow> byte \<Rightarrow> byte \<Rightarrow> bool" where
  "closes e opener c \<longleftrightarrow> (opener = 0x5B \<and> c = 0x5D \<and> (e = S_VALUE \<or> e = S_COMMA_OR_EOO)) \<or>
     (opener = 0x7B \<and> c = 0x7D \<and> (e = S_KEY \<or> e = S_COMMA_OR_EOO))"

definition opens :: "byte \<Rightarrow> expecting \<Rightarrow> bool" where
  "opens c e \<longleftrightarrow> (c = 0x5B \<and> e = S_VALUE) \<or> (c = 0x7B \<and> e = S_KEY)"

lemma json_open:
  assumes "json_inside st" "js_expecting st = S_VALUE" "opens c e" "js_i st < length s" "s ! js_i st = c"
    "js_depth st < MG_JSON_MAX_DEPTH"
  shows "json_loop sg path s st = json_loop sg path s (open_state st c e)"
proof -
  have "json_step sg path s st = Some (Inl (st\<lparr>js_depth := js_depth st + 1, js_expecting := e,
     js_nesting := (js_nesting st)[js_depth st := c]\<rparr>))"
    using assms by (auto simp: json_step_def step_value_def open_object_def open_array_def push_nesting_def
        json_inside_def opens_def is_json_ws_def intro!: json_state.equality)
  from json_loop_step [OF assms(4) this] show ?thesis by (cases st) (simp add: open_state_def)
qed

lemma json_close:
  assumes "js_depth st = Suc d" "js_ed st < d" "length (js_nesting st) = MG_JSON_MAX_DEPTH" "d < MG_JSON_MAX_DEPTH"
    "closes (js_expecting st) (js_nesting st ! d) c" "js_i st < length s" "s ! js_i st = c"
  shows "json_loop sg path s st =
    json_loop sg path s (st\<lparr>js_i := js_i st + 1, js_depth := d, js_expecting := S_COMMA_OR_EOO\<rparr>)"
proof -
  have n: "nest_top st = Some (js_nesting st ! d)" using assms(1,3,4) by (simp add: nest_top_def)
  have e: "mg_eoo path c st = Some (Inl (st\<lparr>js_depth := d\<rparr>))"
    using assms n by (auto simp: mg_eoo_def mg_checkret_def closes_def)
  have v: "value_done path (st\<lparr>js_depth := d\<rparr>) = Some (Inl (st\<lparr>js_depth := d, js_expecting := S_COMMA_OR_EOO\<rparr>))"
    using assms(2) by (simp add: value_done_def mg_checkret_def jbind_def index_next_def)
  have "json_step sg path s st = Some (Inl (st\<lparr>js_depth := d, js_expecting := S_COMMA_OR_EOO\<rparr>))"
    using assms e v
    by (cases "js_expecting st")
       (auto simp: json_step_def step_value_def step_key_def step_comma_def closes_def jbind_def index_next_def
         is_json_ws_def intro!: json_state.equality)
  from json_loop_step [OF assms(6) this] show ?thesis by (cases st) simp
qed

lemma json_runs_nested:
  assumes "json_inside st" "js_expecting st = S_VALUE" "opens c0 e0" "js_i st < length s" "s ! js_i st = c0"
    "js_depth st < MG_JSON_MAX_DEPTH" "json_runs sg path s (open_state st c0 e0) n e1" "closes e1 c0 c1"
    "js_i st + n + 1 < length s" "s ! (js_i st + n + 1) = c1"
  shows "json_runs sg path s st (n + 2) S_COMMA_OR_EOO"
proof -
  let ?st = "open_state st c0 e0"
  have l: "length (js_nesting st) = MG_JSON_MAX_DEPTH" using assms(1) by (simp add: json_inside_def)
  obtain ns where ns: "length ns = MG_JSON_MAX_DEPTH" "take (js_depth ?st) ns = take (js_depth ?st) (js_nesting ?st)"
    "json_loop sg path s ?st = json_loop sg path s (?st\<lparr>js_i := js_i ?st + n, js_expecting := e1, js_nesting := ns\<rparr>)"
    using assms(7) by (auto simp: json_runs_def)
  have t: "take (Suc (js_depth st)) ns = take (js_depth st) (js_nesting st) @ [c0]"
    using ns(2) l assms(6) by (simp add: open_state_def take_Suc_conv_app_nth)
  have d: "ns ! js_depth st = c0"
    using t ns(1) assms(6) by (simp add: take_Suc_conv_app_nth)
  have k: "take (js_depth st) ns = take (js_depth st) (js_nesting st)"
    using t ns(1) assms(6) by (simp add: take_Suc_conv_app_nth)
  have "json_loop sg path s st = json_loop sg path s ?st" using json_open [OF assms(1-6)] .
  also have "\<dots> = json_loop sg path s (?st\<lparr>js_i := js_i ?st + n, js_expecting := e1, js_nesting := ns\<rparr>)" by (rule ns(3))
  also have "\<dots> = json_loop sg path s ((?st\<lparr>js_i := js_i ?st + n, js_expecting := e1, js_nesting := ns\<rparr>)
      \<lparr>js_i := js_i ?st + n + 1, js_depth := js_depth st, js_expecting := S_COMMA_OR_EOO\<rparr>)"
    using assms(1,6,8-10) ns(1) d
    by (subst json_close [where d = "js_depth st" and c = c1])
       (simp_all add: open_state_def json_inside_def ac_simps)
  also have "(?st\<lparr>js_i := js_i ?st + n, js_expecting := e1, js_nesting := ns\<rparr>)
      \<lparr>js_i := js_i ?st + n + 1, js_depth := js_depth st, js_expecting := S_COMMA_OR_EOO\<rparr>
    = st\<lparr>js_i := js_i st + (n + 2), js_expecting := S_COMMA_OR_EOO, js_nesting := ns\<rparr>"
    by (cases st) (simp add: open_state_def)
  finally show ?thesis using ns(1) k unfolding json_runs_def by blast
qed

lemma json_inside_open: "json_inside st \<Longrightarrow> json_inside (open_state st c e)"
  by (simp add: json_inside_def open_state_def)

text \<open>Runs over a single byte, and nothing.\<close>

lemma json_runs_refl: "length (js_nesting st) = MG_JSON_MAX_DEPTH \<Longrightarrow> json_runs sg path s st 0 (js_expecting st)"
  unfolding json_runs_def by (rule exI [of _ "js_nesting st"]) (cases st, simp)

lemma json_runs_comma:
  assumes "json_inside st" "js_expecting st = S_COMMA_OR_EOO" "js_i st < length s" "s ! js_i st = 0x2C"
    "js_depth st \<le> MG_JSON_MAX_DEPTH" "js_nesting st ! (js_depth st - 1) = c" "opens c e"
  shows "json_runs sg path s st 1 e"
proof -
  have "nest_top st = Some c" using assms(1,5,6) by (auto simp: nest_top_def json_inside_def rd_def)
  then have "json_step sg path s st = Some (Inl (st\<lparr>js_i := js_i st, js_expecting := e\<rparr>))"
    using assms by (auto simp: json_step_def step_comma_def json_inside_def opens_def is_json_ws_def
        intro!: json_state.equality)
  from json_runs_step [OF assms(3) this] show ?thesis using assms(1) by (simp add: json_inside_def)
qed

lemma json_runs_colon:
  assumes "json_inside st" "js_expecting st = S_COLON" "js_i st < length s" "s ! js_i st = 0x3A"
  shows "json_runs sg path s st 1 S_VALUE"
proof -
  have "json_step sg path s st = Some (Inl (st\<lparr>js_i := js_i st, js_expecting := S_VALUE\<rparr>))"
    using assms by (auto simp: json_step_def is_json_ws_def intro!: json_state.equality)
  from json_runs_step [OF assms(3) this] show ?thesis using assms(1) by (simp add: json_inside_def)
qed

lemma json_runs_key:
  assumes "json_inside st" "js_expecting st = S_KEY" "bytes_at s (js_i st) (jquote k)" "0 \<notin> set k"
  shows "json_runs sg path s st (length (jquote k)) S_COLON"
proof -
  let ?i = "js_i st"
  have l: "?i < length s" "s ! ?i = 0x22" using assms(3) by (simp_all add: bytes_at_Cons jquote_def)
  have dr: "drop ?i s = jquote k @ drop (?i + length (jquote k)) s" using drop_bytes_at [OF assms(3)] .
  have "drop (?i + 1) s = drop 1 (drop ?i s)" by simp
  then have "drop (?i + 1) s = qcpy k @ 0x22 # drop (?i + length (jquote k)) s" unfolding dr by (simp add: jquote_def)
  then have p: "mg_pass_string (drop (?i + 1) s) 0 = Some (length (qcpy k))"
    using qcpy_pass [OF assms(4)] by simp
  have b: "?i + 1 + length (qcpy k) < length s" using assms(3) by (simp add: bytes_at_def jquote_def)
  have "json_step sg path s st = Some (Inl (st\<lparr>js_i := ?i + length (qcpy k) + 1, js_expecting := S_COLON\<rparr>))"
    using assms(1,2) l p b by (auto simp: json_step_def step_key_def json_inside_def is_json_ws_def
        intro!: json_state.equality)
  from json_runs_step [OF l(1) this] show ?thesis using assms(1) by (simp add: json_inside_def jquote_def)
qed

text \<open>The scanner runs over any well-formed value.\<close>

definition scans :: "bool \<Rightarrow> byte list \<Rightarrow> byte list \<Rightarrow> json \<Rightarrow> bool" where
  "scans sg path s v \<longleftrightarrow> (\<forall>st. json_inside st \<longrightarrow> js_expecting st = S_VALUE \<longrightarrow>
     bytes_at s (js_i st) (jprint v) \<longrightarrow> json_delim s (js_i st + length (jprint v)) \<longrightarrow>
     js_depth st + jdepth v \<le> MG_JSON_MAX_DEPTH \<longrightarrow>
     json_runs sg path s st (length (jprint v)) S_COMMA_OR_EOO)"

lemma jsep_Cons: "xs \<noteq> [] \<Longrightarrow> jsep (x # xs) = x @ 0x2C # jsep xs"
  by (cases xs) simp_all

lemma json_delim_char: "k < length s \<Longrightarrow> s ! k = 0x2C \<or> s ! k = 0x5D \<or> s ! k = 0x7D \<Longrightarrow> json_delim s k"
  by (auto simp: json_delim_def is_digit_def)

text \<open>
  The items of an array or of an object: each is run over from \<open>e\<close> on, and a comma leads to the
  next. The bracket that is open is \<open>c\<close>.
\<close>

definition scans_item :: "bool \<Rightarrow> byte list \<Rightarrow> byte list \<Rightarrow> expecting \<Rightarrow> nat \<Rightarrow> byte list \<Rightarrow> bool" where
  "scans_item sg path s e d x \<longleftrightarrow> (\<forall>st. json_inside st \<longrightarrow> js_expecting st = e \<longrightarrow> js_depth st = d \<longrightarrow>
     bytes_at s (js_i st) x \<longrightarrow> json_delim s (js_i st + length x) \<longrightarrow>
     json_runs sg path s st (length x) S_COMMA_OR_EOO)"

lemma take_eq_nth: "take d xs = take d ys \<Longrightarrow> k < d \<Longrightarrow> xs ! k = ys ! k"
  by (metis nth_take)

lemma scan_items:
  assumes "opens c e"
  shows "xs \<noteq> [] \<Longrightarrow> list_all (scans_item sg path s e (js_depth st)) xs \<Longrightarrow> json_inside st \<Longrightarrow>
    js_expecting st = e \<Longrightarrow> js_depth st \<le> MG_JSON_MAX_DEPTH \<Longrightarrow> js_nesting st ! (js_depth st - 1) = c \<Longrightarrow>
    bytes_at s (js_i st) (jsep xs @ [y]) \<Longrightarrow> y = 0x5D \<or> y = 0x7D \<Longrightarrow>
    json_runs sg path s st (length (jsep xs)) S_COMMA_OR_EOO"
proof (induction xs arbitrary: st)
  case (Cons x xs)
  have d: "0 < js_depth st" using Cons.prems(3) by (simp add: json_inside_def)
  show ?case
  proof (cases "xs = []")
    case True
    then have "bytes_at s (js_i st) x" "json_delim s (js_i st + length x)"
      using Cons.prems(7,8) by (auto simp: bytes_at_append bytes_at_Cons intro: json_delim_char)
    then show ?thesis using Cons.prems True by (simp add: scans_item_def)
  next
    case False
    then have b: "bytes_at s (js_i st) x" "js_i st + length x < length s" "s ! (js_i st + length x) = 0x2C"
      "bytes_at s (js_i st + length x + 1) (jsep xs @ [y])"
      using Cons.prems(7) by (auto simp: jsep_Cons bytes_at_append bytes_at_Cons ac_simps)
    have r1: "json_runs sg path s st (length x) S_COMMA_OR_EOO"
      using Cons.prems b(1) json_delim_char [OF b(2)] b(3) by (simp add: scans_item_def)
    have "json_runs sg path s st (length x + (1 + length (jsep xs))) S_COMMA_OR_EOO"
    proof (rule json_runs_trans [OF r1 Cons.prems(3)])
      fix ns assume ns: "length ns = MG_JSON_MAX_DEPTH" "take (js_depth st) ns = take (js_depth st) (js_nesting st)"
      let ?st = "st\<lparr>js_i := js_i st + length x, js_expecting := S_COMMA_OR_EOO, js_nesting := ns\<rparr>"
      have i: "json_inside ?st" using Cons.prems(3) ns(1) by (simp add: json_inside_def)
      have top: "ns ! (js_depth st - 1) = c" using take_eq_nth [OF ns(2), of "js_depth st - 1"] d Cons.prems(6) by simp
      have r2: "json_runs sg path s ?st 1 e"
        by (rule json_runs_comma [OF i _ _ _ _ _ assms]) (use b top Cons.prems(5) in simp_all)
      show "json_runs sg path s ?st (1 + length (jsep xs)) S_COMMA_OR_EOO"
      proof (rule json_runs_trans [OF r2 i])
        fix ns' assume n': "length ns' = MG_JSON_MAX_DEPTH" "take (js_depth ?st) ns' = take (js_depth ?st) (js_nesting ?st)"
        have top': "ns' ! (js_depth st - 1) = c" using take_eq_nth [OF n'(2), of "js_depth st - 1"] d top by simp
        show "json_runs sg path s (?st\<lparr>js_i := js_i ?st + 1, js_expecting := e, js_nesting := ns'\<rparr>)
            (length (jsep xs)) S_COMMA_OR_EOO"
          by (rule Cons.IH)
             (use False Cons.prems(2,3,5,8) n' top' b(4) in \<open>simp_all add: json_inside_def\<close>)
      qed
    qed
    then show ?thesis using False by (simp add: jsep_Cons)
  qed
qed simp

lemma scan_brackets:
  assumes "json_inside st" "js_expecting st = S_VALUE" "opens c e" "closes e c y" "closes S_COMMA_OR_EOO c y"
    "bytes_at s (js_i st) (c # jsep xs @ [y])" "js_depth st < MG_JSON_MAX_DEPTH"
    "list_all (scans_item sg path s e (js_depth st + 1)) xs"
  shows "json_runs sg path s st (length (jsep xs) + 2) S_COMMA_OR_EOO"
proof -
  let ?st = "open_state st c e"
  have b: "js_i st < length s" "s ! js_i st = c" "bytes_at s (js_i ?st) (jsep xs @ [y])"
    "js_i st + length (jsep xs) + 1 < length s" "s ! (js_i st + length (jsep xs) + 1) = y"
    using assms(6) by (simp_all add: bytes_at_Cons bytes_at_append open_state_def)
  have l: "length (js_nesting st) = MG_JSON_MAX_DEPTH" using assms(1) by (simp add: json_inside_def)
  have i: "json_inside ?st" using assms(1) by (rule json_inside_open)
  show ?thesis
  proof (cases "xs = []")
    case True
    have "json_runs sg path s ?st 0 e"
      using json_runs_refl [of ?st sg path s] l by (simp add: open_state_def)
    from json_runs_nested [OF assms(1-3) b(1,2) assms(7) this assms(4)] show ?thesis
      using b True by simp
  next
    case False
    have y: "y = 0x5D \<or> y = 0x7D" using assms(4) by (auto simp: closes_def)
    have "json_runs sg path s ?st (length (jsep xs)) S_COMMA_OR_EOO"
      by (rule scan_items [OF assms(3) False _ i _ _ _ b(3) y])
         (use assms(7,8) l in \<open>simp_all add: open_state_def\<close>)
    from json_runs_nested [OF assms(1-3) b(1,2) assms(7) this assms(5) b(4,5)] show ?thesis .
  qed
qed

lemma scans_items_array:
  assumes "\<And>v. v \<in> set vs \<Longrightarrow> scans sg path s v" "\<And>v. v \<in> set vs \<Longrightarrow> d + jdepth v \<le> MG_JSON_MAX_DEPTH"
  shows "list_all (scans_item sg path s S_VALUE d) (map jprint vs)"
  using assms by (fastforce simp: list_all_iff scans_item_def scans_def)

lemma scans_items_object:
  assumes "\<And>kv. kv \<in> set kvs \<Longrightarrow> scans sg path s (snd kv) \<and> 0 \<notin> set (fst kv)"
    "\<And>kv. kv \<in> set kvs \<Longrightarrow> d + jdepth (snd kv) \<le> MG_JSON_MAX_DEPTH"
  shows "list_all (scans_item sg path s S_KEY d) (map (\<lambda>kv. jquote (fst kv) @ 0x3A # jprint (snd kv)) kvs)"
  unfolding list_all_iff scans_item_def
proof (intro ballI allI impI)
  fix x st assume x: "x \<in> set (map (\<lambda>kv. jquote (fst kv) @ 0x3A # jprint (snd kv)) kvs)"
    and st: "json_inside st" "js_expecting st = S_KEY" "js_depth st = d" "bytes_at s (js_i st) x"
      "json_delim s (js_i st + length x)"
  from x obtain kv where kv: "kv \<in> set kvs" "x = jquote (fst kv) @ 0x3A # jprint (snd kv)" by auto
  let ?q = "jquote (fst kv)"
  have sc: "scans sg path s (snd kv)" and k0: "0 \<notin> set (fst kv)" using assms(1) kv by simp_all
  have b: "bytes_at s (js_i st) ?q" "js_i st + length ?q < length s" "s ! (js_i st + length ?q) = 0x3A"
    "bytes_at s (js_i st + length ?q + 1) (jprint (snd kv))"
    using st(4) kv(2) by (simp_all add: bytes_at_append bytes_at_Cons)
  have r1: "json_runs sg path s st (length ?q) S_COLON" by (rule json_runs_key [OF st(1,2) b(1) k0])
  have "json_runs sg path s st (length ?q + (1 + length (jprint (snd kv)))) S_COMMA_OR_EOO"
  proof (rule json_runs_trans [OF r1 st(1)])
    fix ns :: "byte list" assume ns: "length ns = MG_JSON_MAX_DEPTH"
    let ?st = "st\<lparr>js_i := js_i st + length ?q, js_expecting := S_COLON, js_nesting := ns\<rparr>"
    have i: "json_inside ?st" using st(1) ns by (simp add: json_inside_def)
    have r2: "json_runs sg path s ?st 1 S_VALUE" by (rule json_runs_colon [OF i]) (use b in simp_all)
    show "json_runs sg path s ?st (1 + length (jprint (snd kv))) S_COMMA_OR_EOO"
    proof (rule json_runs_trans [OF r2 i])
      fix ns' :: "byte list" assume "length ns' = MG_JSON_MAX_DEPTH"
      then show "json_runs sg path s (?st\<lparr>js_i := js_i ?st + 1, js_expecting := S_VALUE, js_nesting := ns'\<rparr>)
          (length (jprint (snd kv))) S_COMMA_OR_EOO"
        using sc st b(4) assms(2) [OF kv(1)] kv(2) by (simp add: scans_def json_inside_def ac_simps)
    qed
  qed
  then show "json_runs sg path s st (length x) S_COMMA_OR_EOO" using kv(2) by simp
qed

lemma jdepth_item:
  "v \<in> set vs \<Longrightarrow> d + jdepth (JArr vs) \<le> m \<Longrightarrow> Suc d + jdepth v \<le> m"
  "kv \<in> set kvs \<Longrightarrow> d + jdepth (JObj kvs) \<le> m \<Longrightarrow> Suc d + jdepth (snd kv) \<le> m"
  using fold_max_ge [of "jdepth v" "map jdepth vs" 0]
    fold_max_ge [of "jdepth (snd kv)" "map (\<lambda>kv. jdepth (snd kv)) kvs" 0] by auto

lemma scans_array:
  assumes "\<And>v. v \<in> set vs \<Longrightarrow> scans sg path s v"
  shows "scans sg path s (JArr vs)"
  unfolding scans_def
proof (intro allI impI)
  fix st assume st: "json_inside st" "js_expecting st = S_VALUE" "bytes_at s (js_i st) (jprint (JArr vs))"
    "js_depth st + jdepth (JArr vs) \<le> MG_JSON_MAX_DEPTH"
  have "list_all (scans_item sg path s S_VALUE (js_depth st + 1)) (map jprint vs)"
    using assms jdepth_item(1) [OF _ st(4)] by (intro scans_items_array) auto
  then have "json_runs sg path s st (length (jsep (map jprint vs)) + 2) S_COMMA_OR_EOO"
    by (intro scan_brackets [OF st(1,2), of "0x5B" S_VALUE "0x5D"])
       (use st(3,4) in \<open>simp_all add: opens_def closes_def\<close>)
  then show "json_runs sg path s st (length (jprint (JArr vs))) S_COMMA_OR_EOO" by simp
qed

lemma scans_object:
  assumes "\<And>kv. kv \<in> set kvs \<Longrightarrow> scans sg path s (snd kv) \<and> 0 \<notin> set (fst kv)"
  shows "scans sg path s (JObj kvs)"
  unfolding scans_def
proof (intro allI impI)
  fix st assume st: "json_inside st" "js_expecting st = S_VALUE" "bytes_at s (js_i st) (jprint (JObj kvs))"
    "js_depth st + jdepth (JObj kvs) \<le> MG_JSON_MAX_DEPTH"
  let ?xs = "map (\<lambda>kv. jquote (fst kv) @ 0x3A # jprint (snd kv)) kvs"
  have "list_all (scans_item sg path s S_KEY (js_depth st + 1)) ?xs"
    using assms jdepth_item(2) [OF _ st(4)] by (intro scans_items_object) auto
  then have "json_runs sg path s st (length (jsep ?xs) + 2) S_COMMA_OR_EOO"
    by (intro scan_brackets [OF st(1,2), of "0x7B" S_KEY "0x7D"])
       (use st(3,4) in \<open>simp_all add: opens_def closes_def\<close>)
  then show "json_runs sg path s st (length (jprint (JObj kvs))) S_COMMA_OR_EOO" by simp
qed

lemma scans_scalar: "json_wf v \<Longrightarrow> \<forall>vs. v \<noteq> JArr vs \<Longrightarrow> \<forall>kvs. v \<noteq> JObj kvs \<Longrightarrow> scans sg path s v"
  unfolding scans_def using scan_scalar by blast

lemma scans_value: "json_wf v \<Longrightarrow> scans sg path s v"
proof (induction v)
  case (JArr vs)
  then show ?case by (intro scans_array) (auto simp: list_all_iff)
next
  case (JObj kvs)
  then have "scans sg path s (snd kv) \<and> 0 \<notin> set (fst kv)" if "kv \<in> set kvs" for kv
    using that by (cases kv) (auto simp: list_all_iff)
  then show ?case by (rule scans_object)
qed (rule scans_scalar; simp)+

text \<open>The value itself, at depth 0: the path \<open>$\<close> matches it, and its extent is returned.\<close>

definition root_path :: "byte list" where
  "root_path = cstr ''$'' @ [0]"

lemma root_path_rd [simp]: "rd root_path 0 = Some 0x24" "rd root_path (Suc 0) = Some 0"
  by (simp_all add: root_path_def rd_def)

definition json_root :: "json_state \<Rightarrow> bool" where
  "json_root st \<longleftrightarrow> js_expecting st = S_VALUE \<and> js_depth st = 0 \<and> js_ed st = 0 \<and> js_pos st = 1 \<and>
     js_ci st = -1 \<and> js_ei st = -1 \<and> length (js_nesting st) = MG_JSON_MAX_DEPTH"

lemma root_scalar:
  assumes "json_root st" "bytes_at s (js_i st) (jprint v)" "json_delim s (js_i st + length (jprint v))"
    "json_wf v" "\<forall>vs. v \<noteq> JArr vs" "\<forall>kvs. v \<noteq> JObj kvs"
  shows "json_loop sg root_path s st = Some (int (js_i st), int (length (jprint v)))"
proof -
  have e: "js_expecting st = S_VALUE" using assms(1) by (simp add: json_root_def)
  note sc = step_scalar [OF e assms(2-6), of sg root_path]
  obtain m where m: "length (jprint v) = Suc m" using sc by (cases "length (jprint v)") auto
  have "value_done root_path (value_state st\<lparr>js_i := js_i st + length (jprint v) - 1\<rparr>) =
      Some (Inr (int (js_i st), int (length (jprint v))))"
    using assms(1) m by (auto simp: value_done_def mg_checkret_def value_state_def json_root_def jbind_def)
  then show ?thesis using sc by (subst json_loop.simps) simp
qed

lemma json_closing_step:
  assumes "closes (js_expecting st) c y" "js_depth st \<noteq> js_ed st" "js_depth st \<noteq> 0" "js_i st < length s"
    "s ! js_i st = y" "mg_eoo path y st = Some (Inr r)"
  shows "json_step sg path s st = Some (Inr r)"
  using assms by (cases "js_expecting st")
    (auto simp: json_step_def step_value_def step_key_def step_comma_def closes_def is_json_ws_def jbind_def)

lemma root_brackets:
  assumes "json_root st" "opens c e" "closes e c y" "closes S_COMMA_OR_EOO c y"
    "bytes_at s (js_i st) (c # jsep xs @ [y])" "list_all (scans_item sg root_path s e 1) xs"
  shows "json_loop sg root_path s st = Some (int (js_i st), int (length (jsep xs)) + 2)"
proof -
  let ?i = "js_i st"
  let ?st = "open_state (value_state st) c e"
  have b: "?i < length s" "s ! ?i = c" "bytes_at s (?i + 1) (jsep xs @ [y])"
    "?i + length (jsep xs) + 1 < length s" "s ! (?i + length (jsep xs) + 1) = y"
    using assms(5) by (simp_all add: bytes_at_Cons bytes_at_append)
  have r: "js_expecting st = S_VALUE" "js_depth st = 0" "js_ed st = 0" "js_pos st = 1" "js_ci st = -1"
    "js_ei st = -1" "length (js_nesting st) = MG_JSON_MAX_DEPTH"
    using assms(1) by (simp_all add: json_root_def)
  have "json_step sg root_path s st = Some (Inl ((value_state st)\<lparr>js_depth := 1, js_expecting := e,
     js_nesting := (js_nesting st)[0 := c]\<rparr>))"
    using assms(2) b(1,2) r by (auto simp: json_step_def step_value_def open_object_def open_array_def
        push_nesting_def opens_def is_json_ws_def value_state_def intro!: json_state.equality)
  from json_loop_step [OF b(1) this]
  have 1: "json_loop sg root_path s st = json_loop sg root_path s ?st"
    using r by (cases st) (simp add: open_state_def value_state_def)
  have ins: "json_inside ?st" using r by (simp add: json_inside_def open_state_def value_state_def)
  have y: "y = 0x5D \<or> y = 0x7D" using assms(3) by (auto simp: closes_def)
  obtain e1 where e1: "closes e1 c y" "json_runs sg root_path s ?st (length (jsep xs)) e1"
  proof (cases "xs = []")
    case True
    have "json_runs sg root_path s ?st 0 e"
      using json_runs_refl [of ?st sg root_path s] r by (simp add: open_state_def value_state_def)
    then show ?thesis using that assms(3) True by simp
  next
    case False
    have "json_runs sg root_path s ?st (length (jsep xs)) S_COMMA_OR_EOO"
      by (rule scan_items [OF assms(2) False _ ins _ _ _ _ y])
         (use assms(6) b(3) r in \<open>simp_all add: open_state_def value_state_def\<close>)
    then show ?thesis using that assms(4) by blast
  qed
  obtain ns where ns: "length ns = MG_JSON_MAX_DEPTH" "take 1 ns = [c]"
    "json_loop sg root_path s ?st = json_loop sg root_path s
       (?st\<lparr>js_i := ?i + 1 + length (jsep xs), js_expecting := e1, js_nesting := ns\<rparr>)"
  proof -
    have "take 1 ((js_nesting st)[0 := c]) = [c]" using r(7) by (cases "js_nesting st") simp_all
    then show ?thesis using e1(2) r that by (auto simp: json_runs_def open_state_def value_state_def)
  qed
  let ?s2 = "?st\<lparr>js_i := ?i + 1 + length (jsep xs), js_expecting := e1, js_nesting := ns\<rparr>"
  have n0: "ns ! 0 = c" using ns(1,2) by (cases ns) simp_all
  have eo: "mg_eoo root_path y ?s2 = Some (Inr (int ?i, int (length (jsep xs)) + 2))"
    using r ns(1) n0 e1(1) by (auto simp: mg_eoo_def nest_top_def mg_checkret_def open_state_def value_state_def closes_def)
  have "json_step sg root_path s ?s2 = Some (Inr (int ?i, int (length (jsep xs)) + 2))"
  proof -
    have f: "js_i ?s2 = ?i + 1 + length (jsep xs)" "js_expecting ?s2 = e1" "js_depth ?s2 = 1" "js_ed ?s2 = 0"
      using r by (simp_all add: open_state_def value_state_def)
    show ?thesis
      by (rule json_closing_step [OF _ _ _ _ _ eo]) (use e1(1) f b(4,5) in \<open>simp_all only:, simp_all add: ac_simps\<close>)
  qed
  then have "json_loop sg root_path s ?s2 = Some (int ?i, int (length (jsep xs)) + 2)"
    using b(4) by (subst json_loop.simps) simp
  then show ?thesis using 1 ns(3) by simp
qed

lemma root_value:
  assumes "json_root st" "bytes_at s (js_i st) (jprint v)" "json_delim s (js_i st + length (jprint v))"
    "json_wf v" "jdepth v \<le> MG_JSON_MAX_DEPTH"
  shows "json_loop sg root_path s st = Some (int (js_i st), int (length (jprint v)))"
proof -
  consider (arr) vs where "v = JArr vs" | (obj) kvs where "v = JObj kvs" |
    (scalar) "\<forall>vs. v \<noteq> JArr vs" "\<forall>kvs. v \<noteq> JObj kvs" by blast
  then show ?thesis
  proof cases
    case arr
    have d: "0 + jdepth (JArr vs) \<le> MG_JSON_MAX_DEPTH" using assms(5) arr by simp
    have "list_all (scans_item sg root_path s S_VALUE 1) (map jprint vs)"
      using assms(4) arr scans_value jdepth_item(1) [OF _ d]
      by (intro scans_items_array) (auto simp: list_all_iff)
    from root_brackets [OF assms(1) _ _ _ _ this, of "0x5B" "0x5D"] show ?thesis
      using assms(2) arr by (simp add: opens_def closes_def)
  next
    case obj
    have d: "0 + jdepth (JObj kvs) \<le> MG_JSON_MAX_DEPTH" using assms(5) obj by simp
    have "list_all (scans_item sg root_path s S_KEY 1) (map (\<lambda>kv. jquote (fst kv) @ 0x3A # jprint (snd kv)) kvs)"
      using assms(4) obj scans_value jdepth_item(2) [OF _ d]
      by (intro scans_items_object) (auto simp: list_all_iff)
    from root_brackets [OF assms(1) _ _ _ _ this, of "0x7B" "0x7D"] show ?thesis
      using assms(2) obj by (simp add: opens_def closes_def)
  next
    case scalar
    then show ?thesis using root_scalar [OF assms(1-4)] by blast
  qed
qed

lemma root_ws:
  assumes "list_all is_json_ws (take k (drop (js_i st) s))" "js_i st + k \<le> length s"
  shows "json_loop sg path s st = json_loop sg path s (st\<lparr>js_i := js_i st + k\<rparr>)"
  using assms
proof (induction k arbitrary: st)
  case (Suc k)
  have l: "js_i st < length s" using Suc.prems(2) by simp
  have d: "take (Suc k) (drop (js_i st) s) = s ! js_i st # take k (drop (js_i st + 1) s)"
    using l by (simp add: drop_eq_Cons)
  have "json_step sg path s st = Some (Inl st)"
    using l Suc.prems(1) d by (simp add: json_step_def)
  then have "json_loop sg path s st = json_loop sg path s (st\<lparr>js_i := js_i st + 1\<rparr>)"
    using json_loop_step [OF l] by blast
  also have "\<dots> = json_loop sg path s (st\<lparr>js_i := js_i st + Suc k\<rparr>)"
    using Suc.IH [of "st\<lparr>js_i := js_i st + 1\<rparr>"] Suc.prems d by (simp add: ac_simps)
  finally show ?case .
qed simp

lemma json_len_small: "n < 2 ^ 31 \<Longrightarrow> json_len n = n"
  by (simp add: json_len_def)

lemma json_get_root:
  assumes "json_wf v" "jdepth v \<le> MG_JSON_MAX_DEPTH" "list_all is_json_ws ws"
    "length ws + length (jprint v) + length r < 2 ^ 31" "json_delim (jprint v @ r) (length (jprint v))"
    "length ns = MG_JSON_MAX_DEPTH"
  shows "mg_json_get sg ns (ws @ jprint v @ r) root_path = Some (int (length ws), int (length (jprint v)))"
proof -
  let ?s = "ws @ jprint v @ r"
  let ?st = "(json_init ns)\<lparr>js_i := length ws\<rparr>"
  have l: "take (json_len (length ?s)) ?s = ?s" using assms(4) by (simp add: json_len_small)
  have "json_loop sg root_path ?s (json_init ns) = json_loop sg root_path ?s ?st"
    using root_ws [of "length ws" "json_init ns" ?s] assms(3) by (simp add: json_init_def)
  also have "\<dots> = Some (int (js_i ?st), int (length (jprint v)))"
  proof (rule root_value [OF _ _ _ assms(1,2)])
    show "json_root ?st" using assms(6) by (simp add: json_root_def json_init_def)
    show "bytes_at ?s (js_i ?st) (jprint v)" using bytes_at_here [of ws "jprint v" r] by simp
    show "json_delim ?s (js_i ?st + length (jprint v))"
      using assms(5) by (simp add: json_delim_def nth_append)
  qed
  finally show ?thesis unfolding mg_json_get_def l by simp
qed

subsection \<open>Iterating over an array or an object\<close>

text \<open>
  \<open>mg_json_next\<close>: the offset to continue at, or 0, and what is written to \<open>*key\<close> and \<open>*val\<close>, if
  anything: an offset and a length in the object, \<open>Inl ()\<close> for the NULL string.
\<close>

type_synonym jslice = "unit + (nat \<times> nat)"

definition json_token :: "bool \<Rightarrow> byte list \<Rightarrow> byte list \<Rightarrow> nat \<Rightarrow> (nat \<times> nat) option option" where
  "json_token sg ns obj b = do {
     (r, n) \<leftarrow> mg_json_get sg ns (drop b obj) root_path;
     Some (if n < 0 \<or> r < 0 \<or> int (length obj) - int b < r + n then None else Some (b + nat r, nat n)) }"

definition skip_ws :: "byte list \<Rightarrow> nat \<Rightarrow> nat" where
  "skip_ws obj ofs = ofs + length (takeWhile is_json_ws (drop ofs obj))"

definition next_end :: "byte list \<Rightarrow> nat \<Rightarrow> nat" where
  "next_end obj ofs =
     (let ofs = (if ofs \<noteq> 0 then skip_ws obj ofs else ofs);
          ofs = (if ofs \<noteq> 0 \<and> ofs < length obj \<and> obj ! ofs = 0x2C then ofs + 1 else ofs) in
      if length obj < ofs then 0 else ofs)"

definition skip_colon :: "byte list \<Rightarrow> nat \<Rightarrow> nat" where
  "skip_colon obj b =
     (let b = b + length (takeWhile (\<lambda>c. c \<noteq> 0x3A) (drop b obj)) in
      if b < length obj then b + 1 else b)"

definition mg_json_next :: "bool \<Rightarrow> byte list \<Rightarrow> byte list \<Rightarrow> nat \<Rightarrow>
    (nat \<times> jslice option \<times> jslice option) option" where
  "mg_json_next sg ns obj ofs =
     (if length obj \<le> ofs then Some (0, None, None)
      else if length obj < 2 \<or> (hd obj \<noteq> 0x7B \<and> hd obj \<noteq> 0x5B) then Some (0, None, None)
      else
        (let b = (if ofs = 0 then 1 else ofs) in
         if hd obj = 0x5B then do {
           t \<leftarrow> json_token sg ns obj b;
           (case t of
              None \<Rightarrow> Some (next_end obj 0, None, None)
            | Some (o1, n) \<Rightarrow> Some (next_end obj (o1 + n), Some (Inl ()), Some (Inr (o1, n)))) }
         else do {
           t \<leftarrow> json_token sg ns obj b;
           (case t of
              None \<Rightarrow> Some (next_end obj 0, None, None)
            | Some (k, m) \<Rightarrow> do {
                t \<leftarrow> json_token sg ns obj (skip_colon obj (k + m));
                (case t of
                   None \<Rightarrow> Some (next_end obj 0, Some (Inr (k, m)), None)
                 | Some (o1, n) \<Rightarrow> Some (next_end obj (o1 + n), Some (Inr (k, m)), Some (Inr (o1, n)))) }) }))"

lemma path_ok_root: "path_ok sg root_path"
  by (cases sg) (code_simp, code_simp)

lemma json_token_ok:
  assumes "length ns = MG_JSON_MAX_DEPTH"
  shows "\<exists>t. json_token sg ns obj b = Some t \<and> (\<forall>o1 n. t = Some (o1, n) \<longrightarrow> b \<le> o1 \<and> 1 \<le> n \<and> o1 + n \<le> length obj)"
proof -
  obtain r n where "mg_json_get sg ns (drop b obj) root_path = Some (r, n)" "json_good (drop b obj) r n"
    using mg_json_get_good [OF path_ok_root assms] by blast
  then show ?thesis by (auto simp: json_token_def json_good_def)
qed

lemma next_end_ge: "ofs \<le> length obj \<Longrightarrow> ofs \<le> next_end obj ofs \<and> next_end obj ofs \<le> length obj"
proof -
  assume h: "ofs \<le> length obj"
  have "length (takeWhile is_json_ws (drop ofs obj)) \<le> length (drop ofs obj)" by (rule length_takeWhile_le)
  then have "skip_ws obj ofs \<le> length obj" using h by (simp add: skip_ws_def)
  moreover have "ofs \<le> skip_ws obj ofs" by (simp add: skip_ws_def)
  ultimately show ?thesis using h by (auto simp: next_end_def Let_def)
qed

lemma next_end_0 [simp]: "next_end obj 0 = 0"
  by (simp add: next_end_def)

lemma skip_colon_ge: "b \<le> skip_colon obj b"
  by (simp add: skip_colon_def Let_def)

text \<open>
  C22: Each call of the iterator returns 0 or an offset behind the one it was given and inside the
  object, and hands out a part of the object; so a loop over the elements of any text ends.
\<close>

theorem mg_json_next_progress:
  assumes "length ns = MG_JSON_MAX_DEPTH"
  shows "\<exists>ofs' key val. mg_json_next sg ns obj ofs = Some (ofs', key, val) \<and>
    (ofs' = 0 \<or> ofs < ofs' \<and> ofs' \<le> length obj \<and>
      (\<exists>o1 n. val = Some (Inr (o1, n)) \<and> ofs \<le> o1 \<and> 1 \<le> n \<and> o1 + n \<le> ofs'))"
proof (cases "length obj \<le> ofs \<or> length obj < 2 \<or> (hd obj \<noteq> 0x7B \<and> hd obj \<noteq> 0x5B)")
  case True
  then show ?thesis by (auto simp: mg_json_next_def)
next
  case False
  define b where "b = (if ofs = 0 then 1 else ofs)"
  have b: "ofs \<le> b" by (simp add: b_def)
  obtain t where t: "json_token sg ns obj b = Some t"
    "\<And>o1 n. t = Some (o1, n) \<Longrightarrow> b \<le> o1 \<and> 1 \<le> n \<and> o1 + n \<le> length obj"
    using json_token_ok [OF assms, of sg obj b] by blast
  show ?thesis
  proof (cases t)
    case None
    then show ?thesis using False t(1) by (simp add: mg_json_next_def flip: b_def)
  next
    case (Some kn)
    obtain k n where kn: "kn = (k, n)" by fastforce
    have k: "b \<le> k" "1 \<le> n" "k + n \<le> length obj" using t(2) Some kn by simp_all
    show ?thesis
    proof (cases "hd obj = 0x5B")
      case True
      then show ?thesis using False t(1) Some kn k b next_end_ge [OF k(3)]
        by (simp add: mg_json_next_def flip: b_def)
    next
      case arr: False
      let ?c = "skip_colon obj (k + n)"
      obtain u where u: "json_token sg ns obj ?c = Some u"
        "\<And>o1 n. u = Some (o1, n) \<Longrightarrow> ?c \<le> o1 \<and> 1 \<le> n \<and> o1 + n \<le> length obj"
        using json_token_ok [OF assms, of sg obj ?c] by blast
      show ?thesis
      proof (cases u)
        case None
        then show ?thesis using False arr t(1) Some kn u(1)
          by (simp add: mg_json_next_def flip: b_def)
      next
        case u1: (Some vm)
        obtain v m where vm: "vm = (v, m)" by fastforce
        have v: "?c \<le> v" "1 \<le> m" "v + m \<le> length obj" using u(2) u1 vm by simp_all
        then show ?thesis using False arr t(1) Some kn u(1) u1 vm b k next_end_ge [OF v(3)] skip_colon_ge [of "k + n" obj]
          by (simp add: mg_json_next_def flip: b_def)
      qed
    qed
  qed
qed

lemma mg_json_next_progress_witness:
  "\<exists>ofs' key val. mg_json_next True (replicate 30 0) (cstr ''[1,2]'') 3 = Some (ofs', key, val) \<and>
    (ofs' = 0 \<or> 3 < ofs' \<and> ofs' \<le> length (cstr ''[1,2]'') \<and>
      (\<exists>o1 n. val = Some (Inr (o1, n)) \<and> 3 \<le> o1 \<and> 1 \<le> n \<and> o1 + n \<le> ofs'))"
  by (rule mg_json_next_progress) simp

text \<open>
  The loop of a client, \<open>while ((ofs = mg_json_next(obj, ofs, &key, &val)) > 0)\<close>, with the texts it
  sees; \<open>None\<close> also when \<open>fuel\<close> calls do not end it.
\<close>

definition jtext :: "byte list \<Rightarrow> jslice option \<Rightarrow> byte list" where
  "jtext obj x = (case x of Some (Inr (o1, n)) \<Rightarrow> take n (drop o1 obj) | _ \<Rightarrow> [])"

fun json_items :: "bool \<Rightarrow> byte list \<Rightarrow> byte list \<Rightarrow> nat \<Rightarrow> nat \<Rightarrow> (byte list \<times> byte list) list option" where
  "json_items sg ns obj 0 ofs = None"
| "json_items sg ns obj (Suc fuel) ofs =
     (case mg_json_next sg ns obj ofs of
        None \<Rightarrow> None
      | Some (ofs', key, val) \<Rightarrow>
          if ofs' = 0 then Some []
          else map_option (\<lambda>xs. (jtext obj key, jtext obj val) # xs) (json_items sg ns obj fuel ofs'))"

lemma next_end_at:
  assumes "obj = pre @ y # r" "pre \<noteq> []" "y = 0x2C \<or> y = 0x5D \<or> y = 0x7D"
  shows "next_end obj (length pre) = (if y = 0x2C then length pre + 1 else length pre)"
proof -
  have "skip_ws obj (length pre) = length pre" using assms(1,3) by (auto simp: skip_ws_def is_json_ws_def)
  then show ?thesis using assms by (auto simp: next_end_def Let_def)
qed

lemma json_token_at:
  assumes "json_wf v" "jdepth v \<le> MG_JSON_MAX_DEPTH" "length ns = MG_JSON_MAX_DEPTH"
    "obj = pre @ jprint v @ y # r" "y = 0x2C \<or> y = 0x5D \<or> y = 0x7D \<or> y = 0x3A" "length obj < 2 ^ 31"
  shows "json_token sg ns obj (length pre) = Some (Some (length pre, length (jprint v)))"
proof -
  have d: "json_delim (jprint v @ y # r) (length (jprint v))"
    using assms(5) by (auto simp: json_delim_def is_digit_def)
  have "mg_json_get sg ns ([] @ jprint v @ y # r) root_path = Some (int (length ([] :: byte list)), int (length (jprint v)))"
    by (rule json_get_root [OF assms(1,2) _ _ d assms(3)]) (use assms(4,6) in simp_all)
  then show ?thesis using assms(4) by (simp add: json_token_def)
qed

lemma json_token_end:
  assumes "obj = pre @ y # r" "y = 0x5D \<or> y = 0x7D" "length obj < 2 ^ 31"
  shows "json_token sg ns obj (length pre) = Some None"
proof -
  have l: "take (json_len (length (y # r))) (y # r) = y # r" using assms(1,3) by (simp add: json_len_small)
  have "json_step sg root_path (y # r) (json_init ns) = Some (Inr (MG_JSON_INVALID, 0))"
    using assms(2) by (auto simp: json_step_def json_init_def is_json_ws_def step_value_def jerr_def is_digit_def)
  moreover have "js_i (json_init ns) < length (y # r)" by (simp add: json_init_def)
  ultimately have "json_loop sg root_path (y # r) (json_init ns) = Some (MG_JSON_INVALID, 0)"
    by (subst json_loop.simps) simp
  then show ?thesis using assms(1) l by (simp add: json_token_def mg_json_get_def)
qed

text \<open>
  An item of an array or of an object in the middle of its text: the iterator hands out its key and
  its value and stops at the next item, or at the closing bracket.
\<close>

definition reads_item :: "bool \<Rightarrow> byte list \<Rightarrow> byte list \<Rightarrow> byte list \<Rightarrow> byte list \<times> byte list \<Rightarrow> bool" where
  "reads_item sg ns obj x kv \<longleftrightarrow> (\<forall>pre y r ofs. obj = pre @ x @ y # r \<longrightarrow> pre \<noteq> [] \<longrightarrow>
     y = 0x2C \<or> y = 0x5D \<or> y = 0x7D \<longrightarrow> ofs = length pre \<or> ofs = 0 \<and> length pre = 1 \<longrightarrow>
     (\<exists>k v. mg_json_next sg ns obj ofs =
        Some ((if y = 0x2C then length pre + length x + 1 else length pre + length x), k, v) \<and>
        (jtext obj k, jtext obj v) = kv))"

lemma reads_itemD:
  "reads_item sg ns obj x kv \<Longrightarrow> obj = pre @ x @ y # r \<Longrightarrow> pre \<noteq> [] \<Longrightarrow> y = 0x2C \<or> y = 0x5D \<or> y = 0x7D \<Longrightarrow>
   ofs = length pre \<or> ofs = 0 \<and> length pre = 1 \<Longrightarrow>
   \<exists>k v. mg_json_next sg ns obj ofs =
     Some ((if y = 0x2C then length pre + length x + 1 else length pre + length x), k, v) \<and>
     (jtext obj k, jtext obj v) = kv"
  unfolding reads_item_def by blast

lemma reads_value:
  assumes "hd obj = 0x5B" "json_wf v" "jdepth v \<le> MG_JSON_MAX_DEPTH" "length ns = MG_JSON_MAX_DEPTH"
    "length obj < 2 ^ 31"
  shows "reads_item sg ns obj (jprint v) ([], jprint v)"
  unfolding reads_item_def
proof (intro allI impI)
  fix pre y r ofs
  assume h: "obj = pre @ jprint v @ y # r" "pre \<noteq> []" "y = 0x2C \<or> y = 0x5D \<or> y = 0x7D"
    "ofs = length pre \<or> ofs = 0 \<and> length pre = 1"
  have b: "(if ofs = 0 then 1 else ofs) = length pre" "\<not> length obj \<le> ofs" "\<not> length obj < 2"
    using h by (auto simp: Suc_le_eq)
  have t: "json_token sg ns obj (length pre) = Some (Some (length pre, length (jprint v)))"
    using json_token_at [OF assms(2-4) h(1) _ assms(5)] h(3) by blast
  have e: "next_end obj (length pre + length (jprint v)) =
      (if y = 0x2C then length pre + length (jprint v) + 1 else length pre + length (jprint v))"
    using next_end_at [of obj "pre @ jprint v" y r] h by simp
  have x: "jtext obj (Some (Inr (length pre, length (jprint v)))) = jprint v"
    using h(1) by (simp add: jtext_def)
  show "\<exists>k w. mg_json_next sg ns obj ofs =
        Some ((if y = 0x2C then length pre + length (jprint v) + 1 else length pre + length (jprint v)), k, w) \<and>
        (jtext obj k, jtext obj w) = ([], jprint v)"
    by (rule exI [of _ "Some (Inl ())"], rule exI [of _ "Some (Inr (length pre, length (jprint v)))"])
       (use b t e x assms(1) in \<open>simp add: mg_json_next_def Let_def, simp add: jtext_def\<close>)
qed

lemma reads_pair:
  assumes "hd obj = 0x7B" "0 \<notin> set k" "json_wf v" "jdepth v \<le> MG_JSON_MAX_DEPTH"
    "length ns = MG_JSON_MAX_DEPTH" "length obj < 2 ^ 31"
  shows "reads_item sg ns obj (jquote k @ 0x3A # jprint v) (jquote k, jprint v)"
  unfolding reads_item_def
proof (intro allI impI)
  fix pre y r ofs
  let ?k = "jquote k" let ?x = "jquote k @ 0x3A # jprint v"
  assume h: "obj = pre @ ?x @ y # r" "pre \<noteq> []" "y = 0x2C \<or> y = 0x5D \<or> y = 0x7D"
    "ofs = length pre \<or> ofs = 0 \<and> length pre = 1"
  have b: "(if ofs = 0 then 1 else ofs) = length pre" "\<not> length obj \<le> ofs" "\<not> length obj < 2"
    using h by (auto simp: Suc_le_eq)
  have t1: "json_token sg ns obj (length pre) = Some (Some (length pre, length ?k))"
    using json_token_at [of "JStr k" ns obj pre "0x3A" "jprint v @ y # r" sg] assms(2,5,6) h(1) by simp
  have c: "skip_colon obj (length pre + length ?k) = length (pre @ ?k @ [0x3A])"
    using h(1) by (simp add: skip_colon_def)
  have y: "y = 0x2C \<or> y = 0x5D \<or> y = 0x7D \<or> y = 0x3A" using h(3) by blast
  have hd: "hd obj = 0x7B" "hd obj \<noteq> 0x5B" using assms(1) by simp_all
  have t2: "json_token sg ns obj (length (pre @ ?k @ [0x3A])) = Some (Some (length (pre @ ?k @ [0x3A]), length (jprint v)))"
    using json_token_at [OF assms(3-5) _ y assms(6), of "pre @ ?k @ [0x3A]" r sg] h(1) by simp
  have e: "next_end obj (length pre + length ?x) =
      (if y = 0x2C then length pre + length ?x + 1 else length pre + length ?x)"
    using next_end_at [of obj "pre @ ?x" y r] h by simp
  have x: "jtext obj (Some (Inr (length pre, length ?k))) = ?k"
    "jtext obj (Some (Inr (length (pre @ ?k @ [0x3A]), length (jprint v)))) = jprint v"
    using h(1) by (simp_all add: jtext_def)
  show "\<exists>a w. mg_json_next sg ns obj ofs =
        Some ((if y = 0x2C then length pre + length ?x + 1 else length pre + length ?x), a, w) \<and>
        (jtext obj a, jtext obj w) = (jquote k, jprint v)"
    by (rule exI [of _ "Some (Inr (length pre, length ?k))"],
        rule exI [of _ "Some (Inr (length (pre @ ?k @ [0x3A]), length (jprint v)))"])
       (use b t1 c t2 e x hd in \<open>simp add: mg_json_next_def Let_def ac_simps\<close>)
qed

lemma json_items_list:
  assumes "hd obj = 0x5B \<or> hd obj = 0x7B" "length obj < 2 ^ 31" "y = 0x5D \<or> y = 0x7D"
    "list_all2 (reads_item sg ns obj) xs kvs"
  shows "obj = pre @ jsep xs @ y # r \<Longrightarrow> pre \<noteq> [] \<Longrightarrow> ofs = length pre \<or> ofs = 0 \<and> length pre = 1 \<Longrightarrow>
    length xs < fuel \<Longrightarrow> json_items sg ns obj fuel ofs = Some kvs"
  using assms(4)
proof (induction xs kvs arbitrary: pre ofs fuel rule: list_all2_induct)
  case Nil
  obtain f where f: "fuel = Suc f" using Nil.prems(4) by (cases fuel) auto
  have b: "(if ofs = 0 then 1 else ofs) = length pre" "\<not> length obj \<le> ofs" "\<not> length obj < 2"
    using Nil.prems by (auto simp: Suc_le_eq)
  have "json_token sg ns obj (length pre) = Some None"
    using json_token_end [of obj pre y r] Nil.prems(1) assms(2,3) by simp
  then have "mg_json_next sg ns obj ofs = Some (0, None, None)"
    using b assms(1) by (auto simp: mg_json_next_def Let_def)
  then show ?case using f by simp
next
  case (Cons x xs kv kvs)
  obtain f where f: "fuel = Suc f" using Cons.prems(4) by (cases fuel) auto
  show ?case
  proof (cases "xs = []")
    case True
    then have "kvs = []" using Cons.hyps(2) by simp
    obtain k v where n: "mg_json_next sg ns obj ofs = Some (length pre + length x, k, v)"
      "(jtext obj k, jtext obj v) = kv"
      using reads_itemD [OF Cons.hyps(1) _ Cons.prems(2) _ Cons.prems(3), of y r] Cons.prems(1) assms(3) True
      by auto
    have "json_items sg ns obj f (length (pre @ x)) = Some kvs"
      by (rule Cons.IH [where pre = "pre @ x"]) (use Cons.prems True f in auto)
    then show ?thesis using n f Cons.prems(2) by simp
  next
    case False
    have o: "obj = pre @ x @ 0x2C # (jsep xs @ y # r)" using Cons.prems(1) False by (simp add: jsep_Cons)
    obtain k v where n: "mg_json_next sg ns obj ofs = Some (length pre + length x + 1, k, v)"
      "(jtext obj k, jtext obj v) = kv"
      using reads_itemD [OF Cons.hyps(1) o Cons.prems(2) _ Cons.prems(3)] by auto
    have "json_items sg ns obj f (length (pre @ x @ [0x2C])) = Some kvs"
      by (rule Cons.IH [where pre = "pre @ x @ [0x2C]"]) (use o Cons.prems f in auto)
    then show ?thesis using n f by simp
  qed
qed

text \<open>
  C20: Iterating over the text of an array or of an object visits exactly its elements, in order: an
  empty key and the text of the value for each element of an array, the quoted key and the text of
  the value for each member of an object; one call more than there are elements ends the loop.
\<close>

theorem mg_json_next_iterates:
  assumes "json_wf w" "jdepth w \<le> MG_JSON_MAX_DEPTH" "length ns = MG_JSON_MAX_DEPTH"
    "length (jprint w) < 2 ^ 31"
  shows "(w = JArr vs \<and> length vs < fuel \<longrightarrow>
      json_items sg ns (jprint w) fuel 0 = Some (map (\<lambda>v. ([], jprint v)) vs)) \<and>
    (w = JObj kvs \<and> length kvs < fuel \<longrightarrow>
      json_items sg ns (jprint w) fuel 0 = Some (map (\<lambda>kv. (jquote (fst kv), jprint (snd kv))) kvs))"
proof (intro conjI impI)
  assume w: "w = JArr vs \<and> length vs < fuel"
  have d: "jdepth v \<le> MG_JSON_MAX_DEPTH" if "v \<in> set vs" for v
    using jdepth_item(1) [OF that, of 0 MG_JSON_MAX_DEPTH] assms(2) w by simp
  have "list_all2 (reads_item sg ns (jprint w)) (map jprint vs) (map (\<lambda>v. ([], jprint v)) vs)"
    using w assms d unfolding list_all2_map1 list_all2_map2
    by (auto simp: list_all2_same list_all_iff intro!: reads_value)
  then show "json_items sg ns (jprint w) fuel 0 = Some (map (\<lambda>v. ([], jprint v)) vs)"
    using w assms(4) by (intro json_items_list [where pre = "[0x5B]" and y = "0x5D" and r = "[]"]) auto
next
  assume w: "w = JObj kvs \<and> length kvs < fuel"
  have d: "jdepth (snd kv) \<le> MG_JSON_MAX_DEPTH" if "kv \<in> set kvs" for kv
    using jdepth_item(2) [OF that, of 0 MG_JSON_MAX_DEPTH] assms(2) w by simp
  have "list_all2 (reads_item sg ns (jprint w)) (map (\<lambda>kv. jquote (fst kv) @ 0x3A # jprint (snd kv)) kvs)
      (map (\<lambda>kv. (jquote (fst kv), jprint (snd kv))) kvs)"
    using w assms d unfolding list_all2_map1 list_all2_map2
    by (auto simp: list_all2_same list_all_iff intro!: reads_pair)
  then show "json_items sg ns (jprint w) fuel 0 = Some (map (\<lambda>kv. (jquote (fst kv), jprint (snd kv))) kvs)"
    using w assms(4) by (intro json_items_list [where pre = "[0x7B]" and y = "0x7D" and r = "[]"]) auto
qed

lemma mg_json_next_iterates_witness:
  "json_items True (replicate 30 0) (jprint (JArr [JNum (cstr ''12''), JArr []])) 3 0 =
     Some [([], cstr ''12''), ([], cstr ''[]'')]"
proof -
  let ?vs = "[JNum (cstr ''12''), JArr []]"
  have "json_wf (JArr ?vs)" "jdepth (JArr ?vs) \<le> MG_JSON_MAX_DEPTH" by code_simp+
  from mg_json_next_iterates [OF this, of "replicate 30 0" ?vs 3 True "[]"] show ?thesis by simp
qed

subsection \<open>Reading a value of a known type\<close>

text \<open>
  The accessors; \<open>None\<close> inside the result stands for NULL or false. \<open>mg_json_get_num\<close> returns the
  text of the number, whose conversion to a \<open>double\<close> is not modelled. \<open>calloc_ok\<close> is the success of
  an allocation, which returns zeroed memory.
\<close>

definition mg_json_get_tok :: "bool \<Rightarrow> byte list \<Rightarrow> byte list \<Rightarrow> byte list \<Rightarrow> (nat \<times> nat) option option" where
  "mg_json_get_tok sg ns json path = do {
     (r, n) \<leftarrow> mg_json_get sg ns json path;
     Some (if r < 0 then None else Some (nat r, if n < 0 then 0 else nat n)) }"

definition mg_json_get_num :: "bool \<Rightarrow> byte list \<Rightarrow> byte list \<Rightarrow> byte list \<Rightarrow> byte list option option" where
  "mg_json_get_num sg ns json path = do {
     (r, n) \<leftarrow> mg_json_get sg ns json path;
     if r < 0 then Some None
     else do {
       c \<leftarrow> rd json (nat r);
       Some (if c = 0x2D \<or> is_digit c then Some (take (nat n) (drop (nat r) json)) else None) } }"

definition mg_json_get_bool :: "bool \<Rightarrow> byte list \<Rightarrow> byte list \<Rightarrow> byte list \<Rightarrow> bool option option" where
  "mg_json_get_bool sg ns json path = do {
     (r, n) \<leftarrow> mg_json_get sg ns json path;
     if r < 0 then Some None
     else do {
       c \<leftarrow> rd json (nat r);
       Some (if c = 0x74 \<or> c = 0x66 then Some (c = 0x74) else None) } }"

definition mg_json_get_str :: "bool \<Rightarrow> bool \<Rightarrow> byte list \<Rightarrow> byte list \<Rightarrow> byte list \<Rightarrow> byte list option option" where
  "mg_json_get_str calloc_ok sg ns json path = do {
     (r, n) \<leftarrow> mg_json_get sg ns json path;
     if r < 0 \<or> n \<le> 1 then Some None
     else do {
       c \<leftarrow> rd json (nat r);
       if c \<noteq> 0x22 \<or> \<not> calloc_ok then Some None
       else do {
         s \<leftarrow> rd_bytes json (nat r + 1) (nat n - 2);
         (ok, to) \<leftarrow> mg_json_unescape s (replicate (nat n) 0) (nat n);
         Some (if ok then Some to else None) } } }"

definition mg_json_get_b64 :: "bool \<Rightarrow> bool \<Rightarrow> byte list \<Rightarrow> byte list \<Rightarrow> byte list \<Rightarrow> (byte list \<times> nat) option option" where
  "mg_json_get_b64 calloc_ok sg ns json path = do {
     (r, n) \<leftarrow> mg_json_get sg ns json path;
     if r < 0 then Some None
     else do {
       c \<leftarrow> rd json (nat r);
       if c \<noteq> 0x22 \<or> n \<le> 1 \<or> \<not> calloc_ok then Some None
       else do {
         s \<leftarrow> rd_bytes json (nat r + 1) (nat n - 2);
         (to, k) \<leftarrow> mg_base64_decode s (replicate (nat n) 0) (nat n);
         Some (Some (to, k)) } } }"

text \<open>The loop of \<open>mg_json_get_hex\<close> over the digits at offset \<open>b\<close>; digits that do not parse leave a zero.\<close>

function hex_loop :: "byte list \<Rightarrow> nat \<Rightarrow> nat \<Rightarrow> nat \<Rightarrow> byte list \<Rightarrow> byte list option" where
  "hex_loop json b len i res =
     (if i + 2 < len then do {
        s \<leftarrow> rd_bytes json (b + i) 2;
        (case mg_str_to_num s 16 1 of
           None \<Rightarrow> hex_loop json b len (i + 2) res
         | Some v \<Rightarrow> do { res \<leftarrow> wr res (i div 2) (of_nat v); hex_loop json b len (i + 2) res }) }
      else Some res)"
  by pat_completeness auto
termination by (relation "measure (\<lambda>(json, b, len, i, res). len - i)") auto

declare hex_loop.simps [simp del]

definition mg_json_get_hex :: "bool \<Rightarrow> bool \<Rightarrow> byte list \<Rightarrow> byte list \<Rightarrow> byte list \<Rightarrow> (byte list \<times> nat) option option" where
  "mg_json_get_hex calloc_ok sg ns json path = do {
     (r, n) \<leftarrow> mg_json_get sg ns json path;
     if r < 0 then Some None
     else do {
       c \<leftarrow> rd json (nat r);
       if c \<noteq> 0x22 \<or> n \<le> 1 \<or> \<not> calloc_ok then Some None
       else do {
         let len = nat n;
         res \<leftarrow> hex_loop json (nat r + 1) len 0 (replicate (len div 2) 0);
         res \<leftarrow> wr res (len div 2 - 1) 0;
         Some (Some (res, len div 2 - 1)) } } }"

lemma hex_loop_ex:
  "b + len \<le> length json + 1 \<Longrightarrow> length res = len div 2 \<Longrightarrow>
   \<exists>res'. hex_loop json b len i res = Some res' \<and> length res' = len div 2"
proof (induction "len - i" arbitrary: i res rule: less_induct)
  case less
  show ?case
  proof (cases "i + 2 < len")
    case True
    have w: "wr res (i div 2) v = Some (res[i div 2 := v])" for v
      using True less.prems(2) by simp
    have m: "len - (i + 2) < len - i" using True by linarith
    note ih = less.hyps [OF m less.prems(1)]
    show ?thesis
      using True less.prems ih [of res] ih [of "res[i div 2 := v]" for v]
      by (subst hex_loop.simps) (auto simp: w split: option.split)
  qed (subst hex_loop.simps, use less.prems in simp)
qed

text \<open>
  C21: A string that was printed as JSON is read back: \<open>mg_json_get_str\<close> on the printed string, with
  white space before it and any text that is not part of it behind it, returns its characters
  followed by a NUL.
\<close>

theorem json_string_roundtrip:
  assumes "0 \<notin> set t" "list_all is_json_ws ws" "length ws + length (jquote t) + length r < 2 ^ 31"
    "length ns = MG_JSON_MAX_DEPTH" "json_delim (jquote t @ r) (length (jquote t))"
  shows "\<exists>z. mg_json_get_str True sg ns (ws @ jquote t @ r) root_path = Some (Some (t @ 0 # z)) \<and> set z \<subseteq> {0}"
proof -
  have g: "mg_json_get sg ns (ws @ jprint (JStr t) @ r) root_path =
      Some (int (length ws), int (length (jprint (JStr t))))"
    by (rule json_get_root) (use assms in simp_all)
  have q: "length t \<le> length (qcpy t)" using assms(1)
    by (induction t) (auto simp: Let_def)
  have u: "mg_json_unescape (qcpy t) (replicate (length (qcpy t) + 2) 0) (length (qcpy t) + 2) =
      Some (True, t @ 0 # drop (length t + 1) (replicate (length (qcpy t) + 2) 0))"
    by (rule unescape_escape_ok) (use assms(1) q in simp_all)
  have s: "rd_bytes (ws @ jquote t @ r) (length ws + 1) (length (qcpy t)) = Some (qcpy t)"
    by (simp add: jquote_def rd_bytes_def)
  have c: "rd (ws @ jquote t @ r) (length ws) = Some 0x22"
    by (simp add: rd_def jquote_def nth_append)
  have l: "length (jquote t) = length (qcpy t) + 2" by (simp add: jquote_def)
  show ?thesis using g u s c by (auto simp: mg_json_get_str_def l nat_add_distrib dest: in_set_dropD)
qed

lemma json_string_roundtrip_witness:
  "\<exists>z. mg_json_get_str True False (replicate 30 0) (jquote [9, 65]) root_path = Some (Some ([9, 65] @ 0 # z)) \<and>
     set z \<subseteq> {0}"
  using json_string_roundtrip [of "[9, 65]" "[]" "[]" "replicate 30 0" False]
  by (simp add: jquote_def json_delim_def json_esc_def escapeseq_def)

text \<open>The accessors, too, stay inside the text and their buffers.\<close>

lemma mg_json_accessors_ex:
  assumes "path_ok sg path" "length ns = MG_JSON_MAX_DEPTH"
  shows "mg_json_get_tok sg ns json path \<noteq> None" "mg_json_get_num sg ns json path \<noteq> None"
    "mg_json_get_bool sg ns json path \<noteq> None" "mg_json_get_str ok sg ns json path \<noteq> None"
    "mg_json_get_b64 ok sg ns json path \<noteq> None" "mg_json_get_hex ok sg ns json path \<noteq> None"
proof -
  obtain r n where g: "mg_json_get sg ns json path = Some (r, n)" "json_good json r n"
    using mg_json_get_good [OF assms] by blast
  show "mg_json_get_tok sg ns json path \<noteq> None" by (simp add: mg_json_get_tok_def g)
  have c: "rd json (nat r) = Some (json ! nat r)" if "0 \<le> r" using that g(2) by (auto simp: json_good_def)
  show "mg_json_get_num sg ns json path \<noteq> None" "mg_json_get_bool sg ns json path \<noteq> None"
    using c by (auto simp: mg_json_get_num_def mg_json_get_bool_def g)
  have b: "rd_bytes json (nat r + 1) (nat n - 2) = Some (take (nat n - 2) (drop (nat r + 1) json))"
    if "0 \<le> r" "1 < n" using that g(2) by (auto simp: json_good_def)
  obtain u to where "mg_json_unescape (take (nat n - 2) (drop (nat r + 1) json)) (replicate (nat n) 0) (nat n) = Some (u, to)"
    using mg_json_unescape_ex [of "nat n" "replicate (nat n) 0" "take (nat n - 2) (drop (nat r + 1) json)"] by auto
  then show "mg_json_get_str ok sg ns json path \<noteq> None"
    using b c by (auto simp: mg_json_get_str_def g)
  obtain to k where "mg_base64_decode (take (nat n - 2) (drop (nat r + 1) json)) (replicate (nat n) 0) (nat n) = Some (to, k)"
    using mg_base64_decode_ex [of "nat n" "replicate (nat n) 0"] by fastforce
  then show "mg_json_get_b64 ok sg ns json path \<noteq> None"
    using b c by (auto simp: mg_json_get_b64_def g)
  have h: "\<exists>res. hex_loop json (nat r + 1) (nat n) 0 (replicate (nat n div 2) 0) = Some res \<and> length res = nat n div 2"
    if "0 \<le> r" using that g(2) by (intro hex_loop_ex) (auto simp: json_good_def)
  show "mg_json_get_hex ok sg ns json path \<noteq> None"
    using h c by (auto simp: mg_json_get_hex_def g Let_def)
qed

text \<open>
  Two texts of the JSON grammar that are refused: a number whose exponent passes 308 before its last
  digit, because the scan of the exponent stops there, and the escape of a slash.
\<close>

lemma json_long_exponent: "atod_len (cstr ''1e3080'') = 5"
  by code_simp

lemma json_escaped_slash: "mg_json_unescape [92, 47] (replicate 8 0) 8 = Some (False, replicate 8 0)"
  by code_simp

end
