(* ===== verification/Spec2Isabelle.thy ===== *)
theory Spec2Isabelle
  imports Mg_Base64 Mg_Str Mg_Iobuf Fmt Mg_Http_Parse Mg_Http Bpf Bpf_Image Byte_Order
    Pcap_Linktype Pcap_Dltname Pcap_Swap Pcap_File Pcap_Offline Mg_Http_Serve Webserver
    Td_Util Td_Domain Mg_Json
begin

section \<open>The native programs of AdAway\<close>

text \<open>
  AdAway blocks advertisements by redirecting their hosts to the device. Its root mode starts two
  native programs, which this development verifies: a web server that answers the redirected
  requests (\<^verbatim>\<open>src/webserver/jni/webserver.c\<close> on the mongoose library,
  \<^verbatim>\<open>src/webserver/jni/mongoose\<close>), and tcpdump (\<^verbatim>\<open>src/tcpdump/jni/tcpdump\<close> on libpcap,
  \<^verbatim>\<open>src/tcpdump/jni/libpcap\<close>), whose DNS log the app reads to show which hosts were asked for.

  \<^bold>\<open>How the parts interact.\<close> A socket delivers bytes to the receive buffer of a connection
  (Mg_Iobuf). After each delivery the HTTP protocol handler (Mg_Http) parses what has arrived
  (Mg_Http_Parse, on the strings of Mg_Str), decodes chunked bodies in place and calls the user's
  handler once per message; the handler of the web server (Webserver) answers it from its settings,
  either with a reply or by starting a file transfer (Mg_Http_Serve), which replaces the
  connection's protocol function until the file is sent. In the other program a capture file
  (Pcap_File, with the byte order and the pseudo-headers of Byte_Order and Pcap_Swap and the link
  types of Pcap_Linktype and Pcap_Dltname) yields packets, the filter machine (Bpf) selects among
  them (Pcap_Offline), and the DNS printer (Td_Domain on Td_Util) writes the line that the app
  parses.

  \<^bold>\<open>Conventions.\<close> Prelude holds the C types and the arrays. An array is a list and a pointer into
  it an offset; a read or write outside of it, which C leaves undefined, is \<open>None\<close>, so that a
  theorem that says an operation returns \<open>Some\<close> is a theorem of memory safety. Sizes are natural
  numbers with the wrap-around of a 64-bit \<open>size_t\<close> written out where it can occur, register and
  file contents are words of their width. Loops are structural or have a measure; a loop that need
  not end (the filter machine on programs with backward jumps, reading a savefile through a
  callback) is a \<open>partial_function\<close>, and that it ends is a theorem. No fuel is used, except that
  the chunk decoder's loop is bounded by the length of its buffer. Callbacks, allocation, the file
  system, name resolution and \<open>inet_ntop\<close> are parameters.

  \<^bold>\<open>Theories of the web server.\<close>
  \<^item> Mg_Base64 (\<^verbatim>\<open>src/base64.c\<close> of \<^verbatim>\<open>mongoose.c\<close>): the incremental encoder and the decoder with
    their buffers; round trip, agreement with the reference encoding, no write out of bounds.
  \<^item> Mg_Str (\<^verbatim>\<open>src/str.c\<close>): comparison, splitting, number parsing and glob matching; the matcher
    decides glob matching on strings without a slash, the number parsers accept exactly the numbers
    that fit.
  \<^item> Mg_Iobuf (\<^verbatim>\<open>src/iobuf.c\<close>): buffers refine a byte queue; insertion and deletion at any offset.
  \<^item> Mg_Http_Parse (request line, headers and lengths of \<^verbatim>\<open>src/http.c\<close>): no read behind the
    received bytes, every slice within them, a message that is parsed stays parsed as more bytes
    arrive, printed requests are parsed back.
  \<^item> Mg_Http (\<open>http_cb\<close>, chunked bodies, replies): one call of the handler per complete message, the
    bytes consumed, decoding of chunked bodies.
  \<^item> Mg_Http_Serve (\<open>mg_http_serve_file\<close>, \<open>static_cb\<close>): ranges, entity tags, and the transfer as a
    step relation whose invariant gives the bytes sent.
  \<^item> Webserver (\<^verbatim>\<open>webserver.c\<close>): settings, command line, the request handler and the main loop.

  \<^bold>\<open>Theories of the packet capture.\<close>
  \<^item> Bpf (\<^verbatim>\<open>bpf/net/bpf_filter.c\<close>): the filter machine and its validator. Validated programs access
    only the packet and the scratch memory, and, without backward jumps, terminate; the validator
    of user space accepts loops.
  \<^item> Bpf_Image (\<^verbatim>\<open>bpf_image.c\<close>): the disassembler knows every valid instruction and stays in its
    buffers.
  \<^item> Byte_Order, Pcap_Swap (\<^verbatim>\<open>pcap-common.c\<close>): conversion of pseudo-headers from the other byte
    order; no access behind the captured bytes, and the fields that result.
  \<^item> Pcap_Linktype, Pcap_Dltname (\<^verbatim>\<open>pcap-common.c\<close>, \<^verbatim>\<open>pcap/bpf.h\<close>, \<^verbatim>\<open>pcap.c\<close>): the tables of link
    types and their names; which of them survive a round trip.
  \<^item> Pcap_File (\<^verbatim>\<open>sf-pcap.c\<close>) and Pcap_Offline (\<^verbatim>\<open>savefile.c\<close>): opening, reading, writing and appending
    to capture files; records keep their lengths within the buffer, written captures are read
    back, reading terminates.
  \<^item> Fmt: the conversions of printf that are used.
  \<^item> Td_Util (\<^verbatim>\<open>util.c\<close>, \<^verbatim>\<open>extract.h\<close>, \<open>intoa\<close>) and Td_Domain (\<^verbatim>\<open>print-domain.c\<close>): the DNS printer
    reads captured bytes only and ends on any packet, prints names as they were encoded, and prints
    an address query the way the app's pattern expects.

  \<^bold>\<open>Interfaces.\<close> Prelude states the contract of a codec (interpreted by the base64 codec and the
  link-type tables), Byte_Order that of a scalar in memory (interpreted for 16, 32 and 64 bits),
  Mg_Iobuf that of a byte queue.

  \<^bold>\<open>Plan.\<close> Next come the JSON reader, the message queue, URLs and addresses, timers, digests and the
  DNS resolver of mongoose, the checksum routines of tcpdump and pcap-ng files.

  \<^bold>\<open>Not modelled.\<close> The event loop and the sockets, TLS, the TCP/IP stack and drivers for embedded
  targets, formatted output beyond what is used here, and the protocols of mongoose that the web
  server does not speak; the filter compiler of libpcap, whose output the validator checks, live
  capture through the kernel, name resolution, and the printers of tcpdump other than that of DNS;
  the app itself, which is Java and Kotlin. The scanner and grammar of the filter compiler are
  generated code.
\<close>

end
